(* ===== verification/Prelude.thy ===== *)
theory Prelude
  imports Main "HOL-Library.List_Lexorder" "HOL-Library.Char_ord"
begin

section \<open>Shared notions: Go errors, fallible stateful actions, byte strings\<close>

text \<open>
  The vocabulary every other theory uses. Go's strings and byte slices are both byte
  sequences and are both modelled as \<^typ>\<open>string\<close> (a \<^typ>\<open>char\<close> is one byte); the
  lexicographic order of \<open>List_Lexorder\<close> over \<open>Char_ord\<close> is then Go's bytewise string
  order. Go errors are trees built by \<open>fmt.Errorf("%w")\<close> and \<open>errors.Join\<close>, inspected
  with \<open>errors.Is\<close>. A Go function with effects is an action: a function of the state
  that returns an error or a value together with the new state.
\<close>

named_theorems io_simps \<open>evaluation rules of actions\<close>
named_theorems io_rel_intros \<open>rules that lift a relation on states through actions\<close>

type_synonym bytes = string

subsection \<open>Errors\<close>

text \<open>
  The sentinel values of \<open>store.go\<close>, the context errors, and the sentinels of the
  standard library the code tests for or returns.
\<close>

datatype sentinel =
    ErrNotFound | ErrExists | ErrConflict | ErrCorrupt | ErrRange
  | ErrTooLarge | ErrExhausted | ErrEmptyBatch
  | Canceled | DeadlineExceeded | UnexpectedEOF | NotExist | OsExist

text \<open>
  \<open>Wrap m es\<close> is an error with message \<open>m\<close> that unwraps to every member of \<open>es\<close>: one
  member for \<open>fmt.Errorf("...: %w", err)\<close>, several for two \<open>%w\<close> verbs or for
  \<open>errors.Join\<close>.
\<close>

datatype goerr = Sentinel sentinel | Msg string | Wrap string "goerr list"

fun errors_is :: "goerr \<Rightarrow> sentinel \<Rightarrow> bool" where
  "errors_is (Sentinel k) k' = (k = k')"
| "errors_is (Msg m) k' = False"
| "errors_is (Wrap m es) k' = list_ex (\<lambda>e. errors_is e k') es"

text \<open>\<open>errors.Join\<close> drops nil errors and returns nil when nothing is left.\<close>

definition errors_join :: "goerr option list \<Rightarrow> goerr option" where
  "errors_join es =
     (case List.map_filter id es of [] \<Rightarrow> None | x # xs \<Rightarrow> Some (Wrap [] (x # xs)))"

lemma errors_join_pair [simp]:
  "errors_join [None, None] = None"
  "errors_join [Some e, None] = Some (Wrap [] [e])"
  "errors_join [None, Some e] = Some (Wrap [] [e])"
  "errors_join [Some e, Some e'] = Some (Wrap [] [e, e'])"
  by (simp_all add: errors_join_def List.map_filter_def)

lemma errors_join_None_iff: "errors_join es = None \<longleftrightarrow> (\<forall>e\<in>set es. e = None)"
  by (induction es) (auto simp: errors_join_def List.map_filter_def split: list.splits)

definition corrupt :: "string \<Rightarrow> goerr" where
  "corrupt m = Wrap m [Sentinel ErrCorrupt]"

lemma corrupt_is [simp]: "errors_is (corrupt m) k \<longleftrightarrow> k = ErrCorrupt"
  by (auto simp: corrupt_def)

subsection \<open>Pure fallible computations\<close>

definition ebind :: "goerr + 'a \<Rightarrow> ('a \<Rightarrow> goerr + 'b) \<Rightarrow> goerr + 'b" where
  "ebind r f = (case r of Inl e \<Rightarrow> Inl e | Inr x \<Rightarrow> f x)"

text \<open>\<open>if b { return ..., err }\<close>.\<close>

definition fail_if :: "bool \<Rightarrow> goerr \<Rightarrow> goerr + unit" where
  "fail_if b e = (if b then Inl e else Inr ())"

lemma ebind_simps [simp]: "ebind (Inl e) f = Inl e" "ebind (Inr x) f = f x"
  by (simp_all add: ebind_def)

lemma ebind_eq_Inr_iff: "ebind r f = Inr y \<longleftrightarrow> (\<exists>x. r = Inr x \<and> f x = Inr y)"
  by (cases r) auto

lemma ebind_eq_Inl_iff: "ebind r f = Inl e \<longleftrightarrow> r = Inl e \<or> (\<exists>x. r = Inr x \<and> f x = Inl e)"
  by (cases r) auto

lemma fail_if_simps [simp]: "fail_if True e = Inl e" "fail_if False e = Inr ()"
  by (simp_all add: fail_if_def)

lemma fail_if_eq [simp]:
  "fail_if b e = Inr u \<longleftrightarrow> \<not> b" "fail_if b e = Inl e' \<longleftrightarrow> b \<and> e = e'"
  by (auto simp: fail_if_def)

subsection \<open>Actions\<close>

type_synonym ('s, 'a) io = "'s \<Rightarrow> (goerr + 'a) \<times> 's"

definition io_ret :: "'a \<Rightarrow> ('s, 'a) io" where
  "io_ret x s = (Inr x, s)"

definition io_fail :: "goerr \<Rightarrow> ('s, 'a) io" where
  "io_fail e s = (Inl e, s)"

definition io_lift :: "goerr + 'a \<Rightarrow> ('s, 'a) io" where
  "io_lift r s = (r, s)"

definition io_bind :: "('s, 'a) io \<Rightarrow> ('a \<Rightarrow> ('s, 'b) io) \<Rightarrow> ('s, 'b) io" where
  "io_bind m f s =
     (case m s of (r, s') \<Rightarrow> (case r of Inl e \<Rightarrow> (Inl e, s') | Inr x \<Rightarrow> f x s'))"

text \<open>A call that returns only an error value, nil for success.\<close>

definition io_check :: "('s \<Rightarrow> goerr option \<times> 's) \<Rightarrow> ('s, unit) io" where
  "io_check c s =
     (case c s of (r, s') \<Rightarrow> (case r of None \<Rightarrow> (Inr (), s') | Some e \<Rightarrow> (Inl e, s')))"

text \<open>\<open>io_try m\<close> runs \<open>m\<close> and hands its error or value to the caller.\<close>

definition io_try :: "('s, 'a) io \<Rightarrow> ('s, goerr + 'a) io" where
  "io_try m s = (case m s of (r, s') \<Rightarrow> (Inr r, s'))"

text \<open>\<open>if err != nil { return fmt.Errorf(..., err) }\<close>: rewrite the error only.\<close>

definition io_wrap :: "(goerr \<Rightarrow> goerr) \<Rightarrow> ('s, 'a) io \<Rightarrow> ('s, 'a) io" where
  "io_wrap g m s =
     (case m s of (r, s') \<Rightarrow> (case r of Inl e \<Rightarrow> (Inl (g e), s') | Inr x \<Rightarrow> (Inr x, s')))"

text \<open>\<open>defer func() { err = errors.Join(err, c()) }()\<close>.\<close>

definition io_defer :: "('s \<Rightarrow> goerr option \<times> 's) \<Rightarrow> ('s, 'a) io \<Rightarrow> ('s, 'a) io" where
  "io_defer c m s =
     (case m s of (r, s1) \<Rightarrow>
        (case c s1 of (ce, s2) \<Rightarrow>
           (case r of
              Inl e \<Rightarrow> (case errors_join [Some e, ce] of Some e' \<Rightarrow> (Inl e', s2) | None \<Rightarrow> (Inl e, s2))
            | Inr x \<Rightarrow> (case errors_join [None, ce] of Some e' \<Rightarrow> (Inl e', s2) | None \<Rightarrow> (Inr x, s2)))))"

text \<open>\<open>defer func() { if err != nil { err = errors.Join(err, c()) } }()\<close>.\<close>

definition io_onerr :: "('s \<Rightarrow> goerr option \<times> 's) \<Rightarrow> ('s, 'a) io \<Rightarrow> ('s, 'a) io" where
  "io_onerr c m s =
     (case m s of (r, s1) \<Rightarrow>
        (case r of
           Inr x \<Rightarrow> (Inr x, s1)
         | Inl e \<Rightarrow>
             (case c s1 of (ce, s2) \<Rightarrow>
                (case errors_join [Some e, ce] of Some e' \<Rightarrow> (Inl e', s2) | None \<Rightarrow> (Inl e, s2)))))"

lemma io_ret_apply [simp, io_simps]: "io_ret x s = (Inr x, s)"
  by (simp add: io_ret_def)

lemma io_fail_apply [simp, io_simps]: "io_fail e s = (Inl e, s)"
  by (simp add: io_fail_def)

lemma io_lift_apply [simp, io_simps]: "io_lift r s = (r, s)"
  by (simp add: io_lift_def)

lemma io_bind_Inr [io_simps]: "m s = (Inr x, s') \<Longrightarrow> io_bind m f s = f x s'"
  by (simp add: io_bind_def)

lemma io_bind_Inl [io_simps]: "m s = (Inl e, s') \<Longrightarrow> io_bind m f s = (Inl e, s')"
  by (simp add: io_bind_def)

lemma io_bind_ret [simp]: "io_bind (io_ret x) f = f x"
  by (simp add: io_bind_def fun_eq_iff)

lemma io_bind_fail [simp]: "io_bind (io_fail e) f = io_fail e"
  by (simp add: io_bind_def fun_eq_iff)

lemma io_bind_lift_Inr [simp]: "io_bind (io_lift (Inr x)) f = f x"
  by (simp add: io_bind_def fun_eq_iff)

lemma io_bind_lift_Inl [simp]: "io_bind (io_lift (Inl e)) f = io_fail e"
  by (simp add: io_bind_def fun_eq_iff)

text \<open>A sequence succeeds when both parts do: the elimination rule of success paths.\<close>

lemma io_bind_eq_Inr_iff:
  "io_bind m f s = (Inr y, s') \<longleftrightarrow> (\<exists>x s1. m s = (Inr x, s1) \<and> f x s1 = (Inr y, s'))"
  by (auto simp: io_bind_def split: prod.splits sum.splits)

lemma io_bind_InrE:
  assumes "io_bind m f s = (Inr y, s')"
  obtains x s1 where "m s = (Inr x, s1)" and "f x s1 = (Inr y, s')"
  using assms by (auto simp: io_bind_eq_Inr_iff)

lemma io_bind_eq_Inl_iff:
  "io_bind m f s = (Inl e, s') \<longleftrightarrow>
     m s = (Inl e, s') \<or> (\<exists>x s1. m s = (Inr x, s1) \<and> f x s1 = (Inl e, s'))"
  by (auto simp: io_bind_def split: prod.splits sum.splits)

lemma io_check_eq_Inr_iff [simp]: "io_check c s = (Inr u, s') \<longleftrightarrow> c s = (None, s')"
  by (auto simp: io_check_def split: prod.splits option.splits)

lemma io_check_eq_Inl_iff [simp]: "io_check c s = (Inl e, s') \<longleftrightarrow> c s = (Some e, s')"
  by (auto simp: io_check_def split: prod.splits option.splits)

lemma io_wrap_eq_Inr_iff [simp]: "io_wrap g m s = (Inr x, s') \<longleftrightarrow> m s = (Inr x, s')"
  by (auto simp: io_wrap_def split: prod.splits sum.splits)

lemma io_wrap_eq_Inl_iff [simp]:
  "io_wrap g m s = (Inl e, s') \<longleftrightarrow> (\<exists>e'. m s = (Inl e', s') \<and> e = g e')"
  by (auto simp: io_wrap_def split: prod.splits sum.splits)

lemma io_try_eq_iff [simp]: "io_try m s = (r, s') \<longleftrightarrow> (\<exists>r'. m s = (r', s') \<and> r = Inr r')"
  by (auto simp: io_try_def split: prod.splits)

lemma io_defer_eq_Inr_iff:
  "io_defer c m s = (Inr x, s') \<longleftrightarrow> (\<exists>s1. m s = (Inr x, s1) \<and> c s1 = (None, s'))"
  by (cases "m s"; cases "c (snd (m s))"; cases "fst (m s)"; cases "fst (c (snd (m s)))")
     (auto simp: io_defer_def)

lemma io_onerr_eq_Inr_iff [simp]: "io_onerr c m s = (Inr x, s') \<longleftrightarrow> m s = (Inr x, s')"
  by (auto simp: io_onerr_def split: prod.splits sum.splits option.splits)

text \<open>
  A closure with variables \<open>u\<close> of its own: run beside them, then read them back.
\<close>

definition run_local :: "'u \<Rightarrow> ('s \<times> 'u, 'a) io \<Rightarrow> ('s, (goerr + 'a) \<times> 'u) io" where
  "run_local u m s = (case m (s, u) of (r, x) \<Rightarrow> (Inr (r, snd x), fst x))"

lemma run_local_eq_iff [simp]:
  "run_local u m s = (r, s') \<longleftrightarrow> (\<exists>q u'. m (s, u) = (q, (s', u')) \<and> r = Inr (q, u'))"
  by (auto simp: run_local_def split: prod.splits)

subsection \<open>Relations that every action keeps\<close>

text \<open>
  \<open>io_rel R m\<close> says that \<open>m\<close> moves every state to an \<open>R\<close>-later one, whatever it
  returns. For a preorder \<open>R\<close> this composes, which the locale states once; its
  interpretations are "the published objects only grow" and "an invariant is kept".
\<close>

definition io_rel :: "('s \<Rightarrow> 's \<Rightarrow> bool) \<Rightarrow> ('s, 'a) io \<Rightarrow> bool" where
  "io_rel R m \<longleftrightarrow> (\<forall>s. R s (snd (m s)))"

lemma io_relI: "(\<And>s r s'. m s = (r, s') \<Longrightarrow> R s s') \<Longrightarrow> io_rel R m"
  by (simp add: io_rel_def prod_eq_iff)

lemma io_relD: "io_rel R m \<Longrightarrow> m s = (r, s') \<Longrightarrow> R s s'"
  by (metis io_rel_def snd_conv)

locale state_preorder =
  fixes R :: "'s \<Rightarrow> 's \<Rightarrow> bool"
  assumes R_refl: "R s s"
    and R_trans: "R s t \<Longrightarrow> R t u \<Longrightarrow> R s u"
begin

lemma rel_ret [io_rel_intros]: "io_rel R (io_ret x)"
  by (simp add: io_rel_def R_refl)

lemma rel_fail [io_rel_intros]: "io_rel R (io_fail e)"
  by (simp add: io_rel_def R_refl)

lemma rel_lift [io_rel_intros]: "io_rel R (io_lift r)"
  by (simp add: io_rel_def R_refl)

lemma rel_bind [io_rel_intros]:
  "io_rel R m \<Longrightarrow> (\<And>x. io_rel R (f x)) \<Longrightarrow> io_rel R (io_bind m f)"
  by (auto simp: io_rel_def io_bind_def split: prod.splits sum.splits) (metis R_trans snd_conv)+

lemma rel_wrap [io_rel_intros]: "io_rel R m \<Longrightarrow> io_rel R (io_wrap g m)"
  by (auto simp: io_rel_def io_wrap_def split: prod.splits sum.splits) (metis snd_conv)+

lemma rel_try [io_rel_intros]: "io_rel R m \<Longrightarrow> io_rel R (io_try m)"
  by (auto simp: io_rel_def io_try_def split: prod.splits) (metis snd_conv)

lemma rel_check [io_rel_intros]:
  "(\<And>s r s'. c s = (r, s') \<Longrightarrow> R s s') \<Longrightarrow> io_rel R (io_check c)"
  by (auto simp: io_rel_def io_check_def split: prod.splits option.splits)

lemma rel_defer [io_rel_intros]:
  assumes "\<And>s r s'. c s = (r, s') \<Longrightarrow> R s s'" and "io_rel R m"
  shows "io_rel R (io_defer c m)"
proof (rule io_relI)
  fix s r s'
  assume eq: "io_defer c m s = (r, s')"
  obtain r1 s1 where m: "m s = (r1, s1)" by (cases "m s")
  obtain ce s2 where c: "c s1 = (ce, s2)" by (cases "c s1")
  have "s' = s2"
    using eq m c by (auto simp: io_defer_def split: sum.splits option.splits)
  then show "R s s'"
    using R_trans io_relD [OF assms(2) m] assms(1) [OF c] by blast
qed

lemma rel_onerr [io_rel_intros]:
  assumes "\<And>s r s'. c s = (r, s') \<Longrightarrow> R s s'" and "io_rel R m"
  shows "io_rel R (io_onerr c m)"
proof (rule io_relI)
  fix s r s'
  assume eq: "io_onerr c m s = (r, s')"
  obtain r1 s1 where m: "m s = (r1, s1)" by (cases "m s")
  obtain ce s2 where c: "c s1 = (ce, s2)" by (cases "c s1")
  have "s' = s1 \<or> s' = s2"
    using eq m c by (auto simp: io_onerr_def split: sum.splits option.splits)
  then show "R s s'"
    using R_trans io_relD [OF assms(2) m] assms(1) [OF c] by blast
qed

lemma rel_local [io_rel_intros]:
  "io_rel (\<lambda>x y. R (fst x) (fst y)) m \<Longrightarrow> io_rel R (run_local u m)"
  by (auto simp: io_rel_def run_local_def split: prod.splits) (metis fst_conv snd_conv)

lemma rel_if [io_rel_intros]:
  "(b \<Longrightarrow> io_rel R m) \<Longrightarrow> (\<not> b \<Longrightarrow> io_rel R m') \<Longrightarrow> io_rel R (if b then m else m')"
  by simp

lemma rel_option [io_rel_intros]:
  "(x = None \<Longrightarrow> io_rel R m) \<Longrightarrow> (\<And>y. x = Some y \<Longrightarrow> io_rel R (f y)) \<Longrightarrow>
     io_rel R (case x of None \<Rightarrow> m | Some y \<Rightarrow> f y)"
  by (simp split: option.splits)

lemma rel_sum [io_rel_intros]:
  "(\<And>e. x = Inl e \<Longrightarrow> io_rel R (g e)) \<Longrightarrow> (\<And>y. x = Inr y \<Longrightarrow> io_rel R (f y)) \<Longrightarrow>
     io_rel R (case x of Inl e \<Rightarrow> g e | Inr y \<Rightarrow> f y)"
  by (simp split: sum.splits)

end

subsection \<open>Goroutines that take turns\<close>

text \<open>
  A group of goroutines is the list of those still running; a scheduler picks a position, whose
  goroutine takes a turn and stays in the list or leaves it. The sum of the turns each may still
  take goes down.
\<close>

definition dropNth :: "nat \<Rightarrow> 'a list \<Rightarrow> 'a list" where
  "dropNth j xs = take j xs @ drop (Suc j) xs"

lemma nth_split:
  assumes "j < length xs"
  shows "xs = take j xs @ xs ! j # drop (Suc j) xs" and "xs[j := x] = take j xs @ x # drop (Suc j) xs"
  using assms by (simp_all add: id_take_nth_drop upd_conv_take_nth_drop)

lemma set_dropNth: "j < length xs \<Longrightarrow> x \<in> set xs \<Longrightarrow> x = xs ! j \<or> x \<in> set (dropNth j xs)"
  by (subst (asm) (2) nth_split(1) [of j xs]) (auto simp: dropNth_def)

lemma dropNth_subset: "x \<in> set (dropNth j xs) \<Longrightarrow> x \<in> set xs"
  by (auto simp: dropNth_def dest: in_set_takeD in_set_dropD)

lemma sum_dropNth_less:
  fixes w :: "'a \<Rightarrow> nat"
  assumes "j < length xs" and "0 < w (xs ! j)"
  shows "sum_list (map w (dropNth j xs)) < sum_list (map w xs)"
  by (subst (2) nth_split(1) [OF assms(1)]) (use assms(2) in \<open>simp add: dropNth_def\<close>)

lemma sum_update_less:
  fixes w :: "'a \<Rightarrow> nat"
  assumes "j < length xs" and "w y < w (xs ! j)"
  shows "sum_list (map w (xs[j := y])) < sum_list (map w xs)"
proof -
  have "sum_list (map w xs) = sum_list (map w (take j xs @ xs ! j # drop (Suc j) xs))"
    by (subst nth_split(1) [OF assms(1)]) simp
  then show ?thesis using assms(2) by (simp add: nth_split(2) [OF assms(1)])
qed

subsection \<open>Errors that an action never returns\<close>

definition never :: "sentinel \<Rightarrow> ('s, 'a) io \<Rightarrow> bool" where
  "never k m \<longleftrightarrow> (\<forall>s e s'. m s = (Inl e, s') \<longrightarrow> \<not> errors_is e k)"

lemma neverI: "(\<And>s e s'. m s = (Inl e, s') \<Longrightarrow> \<not> errors_is e k) \<Longrightarrow> never k m"
  by (simp add: never_def)

lemma neverD: "never k m \<Longrightarrow> m s = (Inl e, s') \<Longrightarrow> \<not> errors_is e k"
  unfolding never_def by blast

lemma never_bind: "never k m \<Longrightarrow> (\<And>x. never k (f x)) \<Longrightarrow> never k (io_bind m f)"
  unfolding never_def io_bind_eq_Inl_iff by blast

lemma never_bind_try:
  assumes "never k m" and "\<And>e. \<not> errors_is e k \<Longrightarrow> never k (f (Inl e))" and "\<And>y. never k (f (Inr y))"
  shows "never k (io_bind (io_try m) f)"
proof (rule neverI)
  fix s e s' assume eq: "io_bind (io_try m) f s = (Inl e, s')"
  obtain r s1 where m: "m s = (r, s1)" by (cases "m s")
  have "f r s1 = (Inl e, s')" using eq m by (simp add: io_bind_def io_try_def)
  moreover have "never k (f r)" using assms neverD [OF assms(1), of s] m by (cases r) auto
  ultimately show "\<not> errors_is e k" by (rule neverD [rotated])
qed

lemma never_simple:
  "never k (io_ret x)" "never k (io_try m)" "\<not> errors_is e k \<Longrightarrow> never k (io_fail e)"
  "(\<And>e. r = Inl e \<Longrightarrow> \<not> errors_is e k) \<Longrightarrow> never k (io_lift r)"
  by (auto simp: never_def io_try_def split: prod.splits)

lemma never_check: "(\<And>s e s'. c s = (Some e, s') \<Longrightarrow> \<not> errors_is e k) \<Longrightarrow> never k (io_check c)"
  by (auto simp: never_def)

lemma never_if: "(b \<Longrightarrow> never k m) \<Longrightarrow> (\<not> b \<Longrightarrow> never k m') \<Longrightarrow> never k (if b then m else m')"
  by simp

lemma never_option:
  "(x = None \<Longrightarrow> never k m) \<Longrightarrow> (\<And>y. x = Some y \<Longrightarrow> never k (f y)) \<Longrightarrow>
     never k (case x of None \<Rightarrow> m | Some y \<Rightarrow> f y)"
  by (simp split: option.splits)

lemma never_sum:
  "(\<And>e. x = Inl e \<Longrightarrow> never k (g e)) \<Longrightarrow> (\<And>y. x = Inr y \<Longrightarrow> never k (f y)) \<Longrightarrow>
     never k (case x of Inl e \<Rightarrow> g e | Inr y \<Rightarrow> f y)"
  by (simp split: sum.splits)

lemma join_never:
  assumes "errors_join [a, b] = Some e" and "\<And>x. a = Some x \<Longrightarrow> \<not> errors_is x k" and "\<And>x. b = Some x \<Longrightarrow> \<not> errors_is x k"
  shows "\<not> errors_is e k"
  using assms by (cases a; cases b) auto

lemma join_members:
  assumes "errors_join es = Some e" and "errors_is e k"
  shows "\<exists>x. Some x \<in> set es \<and> errors_is x k"
proof -
  have "e = Wrap [] (List.map_filter id es)"
    using assms(1) by (auto simp: errors_join_def split: list.splits)
  then show ?thesis using assms(2) by (auto simp: List.map_filter_def list_ex_iff)
qed

lemma never_wrap: "never k m \<Longrightarrow> (\<And>e. \<not> errors_is e k \<Longrightarrow> \<not> errors_is (g e) k) \<Longrightarrow> never k (io_wrap g m)"
  by (auto simp: never_def)

lemma never_onerr:
  assumes "never k m" and "\<And>s e s'. c s = (Some e, s') \<Longrightarrow> \<not> errors_is e k"
  shows "never k (io_onerr c m)"
proof (rule neverI)
  fix s e s' assume eq: "io_onerr c m s = (Inl e, s')"
  obtain r s1 where m: "m s = (r, s1)" by (cases "m s")
  obtain e1 where r: "r = Inl e1" using eq m by (cases r) (auto simp: io_onerr_def)
  obtain ce s2 where c: "c s1 = (ce, s2)" by (cases "c s1")
  have j: "errors_join [Some e1, ce] = Some e"
    using eq m r c by (cases ce) (auto simp: io_onerr_def)
  have "\<not> errors_is e1 k" using neverD [OF assms(1)] m r by blast
  then show "\<not> errors_is e k" by (intro join_never [OF j]) (use assms(2) c in auto)
qed

lemma never_defer:
  assumes "never k m" and "\<And>s e s'. c s = (Some e, s') \<Longrightarrow> \<not> errors_is e k"
  shows "never k (io_defer c m)"
proof (rule neverI)
  fix s e s' assume eq: "io_defer c m s = (Inl e, s')"
  obtain r s1 where m: "m s = (r, s1)" by (cases "m s")
  obtain ce s2 where c: "c s1 = (ce, s2)" by (cases "c s1")
  have j: "errors_join [(case r of Inl e1 \<Rightarrow> Some e1 | Inr x \<Rightarrow> None), ce] = Some e"
    using eq m c by (cases r; cases ce) (auto simp: io_defer_def)
  show "\<not> errors_is e k"
    by (rule join_never [OF j]) (use neverD [OF assms(1), of s] assms(2) m c in \<open>auto split: sum.splits\<close>)
qed

text \<open>A closure's error is handed on as a value.\<close>

lemma never_bind_local:
  assumes "never k m" and "\<And>r u'. (\<And>e. r = Inl e \<Longrightarrow> \<not> errors_is e k) \<Longrightarrow> never k (f (r, u'))"
  shows "never k (io_bind (run_local u m) f)"
proof (rule neverI)
  fix s e s' assume "io_bind (run_local u m) f s = (Inl e, s')"
  then obtain q u' s1 where m: "m (s, u) = (q, (s1, u'))" and f: "f (q, u') s1 = (Inl e, s')"
    by (auto simp: io_bind_eq_Inl_iff)
  have "never k (f (q, u'))" by (rule assms(2)) (use neverD [OF assms(1)] m in blast)
  then show "\<not> errors_is e k" using f by (rule neverD)
qed

lemma never_bind_answer:
  assumes "never k m" and "\<And>s x s'. m s = (Inr x, s') \<Longrightarrow> never k (f x)"
  shows "never k (io_bind m f)"
  using assms unfolding never_def io_bind_eq_Inl_iff by blast

lemmas never_intros = never_bind never_simple never_if never_option never_sum

end
