(* ===== verification/HexKeys.thy ===== *)
theory HexKeys
  imports Prelude
begin

section \<open>Fixed-width hexadecimal and 64-bit integers\<close>

text \<open>
  The number formats of \<open>wire.go\<close>: lowercase hexadecimal of a fixed width (revisions,
  digests, identifiers), Go's \<open>encoding/hex\<close> and \<open>encoding/binary\<close> as the code uses
  them, and the wrap-around of \<open>int64\<close>. The lemmas show that fixed-width hexadecimal is a
  bijection with the numbers below \<open>16 ^ w\<close> that keeps the order.
\<close>

subsection \<open>int64\<close>

definition MaxInt64 :: int where
  "MaxInt64 = 2 ^ 63 - 1"

text \<open>Two's complement wrap-around, written at every \<open>int64\<close> operation that could leave the range.\<close>

definition i64 :: "int \<Rightarrow> int" where
  "i64 x = (x + 2 ^ 63) mod 2 ^ 64 - 2 ^ 63"

definition in_i64 :: "int \<Rightarrow> bool" where
  "in_i64 x \<longleftrightarrow> - (2 ^ 63) \<le> x \<and> x < 2 ^ 63"

lemma i64_id: "in_i64 x \<Longrightarrow> i64 x = x"
  by (simp add: i64_def in_i64_def)

lemma in_i64I: "0 \<le> x \<Longrightarrow> x \<le> 2 ^ 62 \<Longrightarrow> in_i64 x"
  by (simp add: in_i64_def)

lemma i64_range: "in_i64 (i64 x)"
  by (simp add: i64_def in_i64_def)

subsection \<open>Hexadecimal digits\<close>

definition hexDigits :: string where
  "hexDigits = ''0123456789abcdef''"

definition hexDigit :: "nat \<Rightarrow> char" where
  "hexDigit d = hexDigits ! d"

definition isHexDigit :: "char \<Rightarrow> bool" where
  "isHexDigit c \<longleftrightarrow> (CHR ''0'' \<le> c \<and> c \<le> CHR ''9'') \<or> (CHR ''a'' \<le> c \<and> c \<le> CHR ''f'')"

definition hexVal :: "char \<Rightarrow> nat" where
  "hexVal c = (if c \<le> CHR ''9'' then of_char c - 48 else of_char c - 87)"

lemma isHexDigit_iff: "isHexDigit c \<longleftrightarrow> c \<in> set hexDigits"
proof -
  have "isHexDigit c \<longleftrightarrow> (of_char c :: nat) \<in> {48..57} \<union> {97..102}"
    by (auto simp: isHexDigit_def less_eq_char_def)
  also have "\<dots> \<longleftrightarrow> (of_char c :: nat) \<in> of_char ` set hexDigits"
  proof -
    have "n \<in> {48..57} \<union> {97..102} \<longleftrightarrow> n \<in> {48,49,50,51,52,53,54,55,56,57,97,98,99,100,101,102}"
      for n :: nat
      by (simp, presburger)
    then show ?thesis by (simp add: hexDigits_def)
  qed
  also have "\<dots> \<longleftrightarrow> c \<in> set hexDigits"
    by (auto simp: image_iff dest: injD [OF inj_of_char])
  finally show ?thesis .
qed

lemma less_16_cases:
  "(d::nat) < 16 \<Longrightarrow> d = 0 \<or> d = 1 \<or> d = 2 \<or> d = 3 \<or> d = 4 \<or> d = 5 \<or> d = 6 \<or> d = 7 \<or>
     d = 8 \<or> d = 9 \<or> d = 10 \<or> d = 11 \<or> d = 12 \<or> d = 13 \<or> d = 14 \<or> d = 15"
  by arith

lemma hexVal_hexDigit [simp]: "d < 16 \<Longrightarrow> hexVal (hexDigit d) = d"
  by (drule less_16_cases)
     (elim disjE; simp add: hexVal_def hexDigit_def hexDigits_def less_eq_char_def)

lemma isHexDigit_hexDigit [simp]: "d < 16 \<Longrightarrow> isHexDigit (hexDigit d)"
  by (simp add: isHexDigit_iff hexDigit_def hexDigits_def nth_mem del: set_simps)

lemma hexDigit_hexVal [simp]: "isHexDigit c \<Longrightarrow> hexDigit (hexVal c) = c"
  by (auto simp: isHexDigit_iff hexDigits_def hexVal_def hexDigit_def less_eq_char_def)

lemma hexVal_less [simp]: "isHexDigit c \<Longrightarrow> hexVal c < 16"
  by (auto simp: isHexDigit_iff hexDigits_def hexVal_def less_eq_char_def)

lemma hexDigit_less_iff:
  assumes "a < 16" and "b < 16"
  shows "hexDigit a < hexDigit b \<longleftrightarrow> a < b"
proof -
  have code: "of_char (hexDigit d) = (if d < 10 then 48 + d else 87 + d)" if "d < 16" for d :: nat
    using less_16_cases [OF that] by (elim disjE; simp add: hexDigit_def hexDigits_def)
  show ?thesis
    using assms by (auto simp: less_char_def code)
qed

subsection \<open>Numbers as hexadecimal strings\<close>

text \<open>\<open>%x\<close> of a nonnegative number, and \<open>%0wx\<close>, which pads with zeros on the left.\<close>

fun hexStr :: "nat \<Rightarrow> string" where
  "hexStr n = (if n < 16 then [hexDigit n] else hexStr (n div 16) @ [hexDigit (n mod 16)])"

declare hexStr.simps [simp del]

definition padHex :: "nat \<Rightarrow> nat \<Rightarrow> string" where
  "padHex w n = replicate (w - length (hexStr n)) (CHR ''0'') @ hexStr n"

text \<open>The value of a digit string, as \<open>strconv.ParseInt(s, 16, 64)\<close> accumulates it.\<close>

definition hexNum :: "string \<Rightarrow> nat" where
  "hexNum s = foldl (\<lambda>v c. v * 16 + hexVal c) 0 s"

text \<open>The fixed-width digits, most significant first: what \<open>padHex\<close> computes below \<open>16 ^ w\<close>.\<close>

fun hexW :: "nat \<Rightarrow> nat \<Rightarrow> string" where
  "hexW 0 n = []"
| "hexW (Suc w) n = hexW w (n div 16) @ [hexDigit (n mod 16)]"

lemma length_hexW [simp]: "length (hexW w n) = w"
  by (induction w arbitrary: n) auto

lemma hexW_0: "hexW w 0 = replicate w (CHR ''0'')"
  by (induction w) (simp_all add: hexDigit_def hexDigits_def replicate_append_same)

lemma hexDigit_0: "hexDigit 0 = CHR ''0''"
  by (simp add: hexDigit_def hexDigits_def)

lemma padHex_eq_hexW:
  assumes "n < 16 ^ w" and "0 < w"
  shows "padHex w n = hexW w n"
  using assms
proof (induction n arbitrary: w rule: hexStr.induct)
  case (1 n)
  then obtain w' where w: "w = Suc w'" by (cases w) auto
  show ?case
  proof (cases "n < 16")
    case True
    then show ?thesis by (simp add: padHex_def hexStr.simps [of n] w hexW_0)
  next
    case False
    have bound: "n div 16 < 16 ^ w'" using "1.prems"(1) by (simp add: w less_mult_imp_div_less mult.commute)
    with False have "0 < w'" by (cases w') auto
    with "1.IH" [OF False bound] False show ?thesis
      by (simp add: padHex_def hexStr.simps [of n] w)
  qed
qed

lemma hexNum_snoc [simp]: "hexNum (s @ [c]) = hexNum s * 16 + hexVal c"
  by (simp add: hexNum_def)

lemma hexNum_Nil [simp]: "hexNum [] = 0"
  by (simp add: hexNum_def)

lemma hexNum_hexW [simp]: "n < 16 ^ w \<Longrightarrow> hexNum (hexW w n) = n"
proof (induction w arbitrary: n)
  case (Suc w)
  then have "n div 16 < 16 ^ w" by (simp add: less_mult_imp_div_less mult.commute)
  with Suc.IH [of "n div 16"] show ?case by simp
qed simp

lemma hexNum_less: "list_all isHexDigit s \<Longrightarrow> hexNum s < 16 ^ length s"
proof (induction s rule: rev_induct)
  case (snoc c s)
  then have "hexNum s + 1 \<le> 16 ^ length s" and "hexVal c < 16" by auto
  then have "hexNum s * 16 + hexVal c < (hexNum s + 1) * 16" by simp
  also have "\<dots> \<le> 16 ^ length s * 16" using \<open>hexNum s + 1 \<le> 16 ^ length s\<close> by (rule mult_le_mono1)
  finally show ?case by (simp add: mult.commute)
qed simp

lemma hexW_hexNum [simp]: "list_all isHexDigit s \<Longrightarrow> hexW (length s) (hexNum s) = s"
  by (induction s rule: rev_induct) auto

lemma isHexDigit_hexW [simp]: "list_all isHexDigit (hexW w n)"
  by (induction w arbitrary: n) auto

lemma hexW_inj: "a < 16 ^ w \<Longrightarrow> b < 16 ^ w \<Longrightarrow> hexW w a = hexW w b \<longleftrightarrow> a = b"
  by (metis hexNum_hexW)

subsection \<open>Fixed-width hexadecimal keeps the order\<close>

lemma append_less_same_length:
  fixes xs ys :: "'a::linorder list"
  assumes "length xs = length ys"
  shows "xs @ us < ys @ vs \<longleftrightarrow> xs < ys \<or> (xs = ys \<and> us < vs)"
  using assms by (induction xs ys rule: list_induct2) auto

lemma digit_less_iff:
  fixes p q r t :: nat
  assumes "r < 16" and "t < 16"
  shows "p * 16 + r < q * 16 + t \<longleftrightarrow> p < q \<or> (p = q \<and> r < t)"
  using assms by auto

lemma hexW_less_iff:
  assumes "a < 16 ^ w" and "b < 16 ^ w"
  shows "hexW w a < hexW w b \<longleftrightarrow> a < b"
  using assms
proof (induction w arbitrary: a b)
  case (Suc w)
  have ab: "a div 16 < 16 ^ w" "b div 16 < 16 ^ w"
    using Suc.prems by (simp_all add: less_mult_imp_div_less mult.commute)
  have "hexW (Suc w) a < hexW (Suc w) b \<longleftrightarrow>
      a div 16 < b div 16 \<or> (a div 16 = b div 16 \<and> a mod 16 < b mod 16)"
    using ab by (simp add: append_less_same_length Suc.IH hexW_inj hexDigit_less_iff)
  also have "\<dots> \<longleftrightarrow> a < b"
    using digit_less_iff [of "a mod 16" "b mod 16" "a div 16" "b div 16"] by simp
  finally show ?case .
qed simp

end
