(* ===== verification/Json.thy ===== *)
theory Json
  imports Prelude
begin

section \<open>JSON trees and the required-field check\<close>

text \<open>
  \<open>wire.go\<close> decodes its envelopes in two passes: \<open>requiredFields\<close> walks the JSON text
  along the Go type and rejects null, missing, duplicate and case-variant fields, then
  \<open>json.Unmarshal\<close> fills the struct. Both passes are modelled on syntax trees; each node
  keeps the text it was parsed from, which is what a \<open>json.RawMessage\<close> field receives.
  The passage between texts and trees is \<open>encoding/json\<close>'s and is a parameter (field
  \<open>json_parse\<close> and \<open>json_print\<close> of the platform record of theory \<open>Wire\<close>).
\<close>

subsection \<open>Trees\<close>

datatype json = Json (raw: string) (jval: jval)
and jval = JNull | JBool bool | JNum string | JStr string
  | JArr "json list" | JObj "(string \<times> json) list"

text \<open>What \<open>json.Marshal\<close> is given: structs are objects in field order, raw messages are text.\<close>

datatype jout = ONull | OStr string | ONum nat | ORaw string
  | OArr "jout list" | OObj "(string \<times> jout) list"

text \<open>The Go types \<open>requiredFields\<close> reflects on.\<close>

datatype gotype = TRaw | TPtr gotype | TStruct "(string \<times> gotype) list" | TSlice gotype
  | TString | TUint8

subsection \<open>UTF-8\<close>

text \<open>
  The number of continuation bytes that a first byte calls for, and the range of the second
  byte; \<^const>\<open>None\<close> for a byte that starts no sequence (\<open>unicode/utf8\<close>).
\<close>

definition utf8Tail :: "nat \<Rightarrow> (nat \<times> nat \<times> nat) option" where
  "utf8Tail n =
     (if n < 0x80 then Some (0, 0, 0)
      else if 0xC2 \<le> n \<and> n \<le> 0xDF then Some (1, 0x80, 0xBF)
      else if n = 0xE0 then Some (2, 0xA0, 0xBF)
      else if n = 0xED then Some (2, 0x80, 0x9F)
      else if 0xE1 \<le> n \<and> n \<le> 0xEF then Some (2, 0x80, 0xBF)
      else if n = 0xF0 then Some (3, 0x90, 0xBF)
      else if n = 0xF4 then Some (3, 0x80, 0x8F)
      else if 0xF1 \<le> n \<and> n \<le> 0xF3 then Some (3, 0x80, 0xBF)
      else None)"

subsection \<open>strings.EqualFold against an ASCII field name\<close>

text \<open>
  Simple case folding of UTF-8 text. Apart from the letters A to Z, the runes that fold to
  ASCII are U+017F (bytes C5 BF, to \<open>s\<close>) and U+212A (bytes E2 84 AA, to \<open>k\<close>); the other
  non-ASCII runes fold among themselves and never equal an ASCII name.
\<close>

function (sequential) foldCase :: "string \<Rightarrow> string" where
  "foldCase [] = []"
| "foldCase (c # cs) =
     (if CHR ''A'' \<le> c \<and> c \<le> CHR ''Z'' then char_of (of_char c + 32 :: nat) # foldCase cs
      else if c = CHR 0xC5 \<and> take 1 cs = [CHR 0xBF] then CHR ''s'' # foldCase (drop 1 cs)
      else if c = CHR 0xE2 \<and> take 2 cs = [CHR 0x84, CHR 0xAA] then CHR ''k'' # foldCase (drop 2 cs)
      else c # foldCase cs)"
  by pat_completeness auto
termination by (relation "measure length") auto

definition equalFold :: "string \<Rightarrow> string \<Rightarrow> bool" where
  "equalFold a b \<longleftrightarrow> foldCase a = foldCase b"

subsection \<open>requiredFields\<close>

fun firstError :: "goerr option list \<Rightarrow> goerr option" where
  "firstError [] = None"
| "firstError (Some e # es) = Some e"
| "firstError (None # es) = firstError es"

lemma firstError_None_iff [simp]: "firstError es = None \<longleftrightarrow> (\<forall>e\<in>set es. e = None)"
  by (induction es rule: firstError.induct) auto

lemma firstError_SomeD: "firstError es = Some e \<Longrightarrow> Some e \<in> set es"
  by (induction es rule: firstError.induct) auto

text \<open>
  The struct case reads all members first (rejecting duplicates), then visits the type's
  fields in order: a member whose name is a case variant of the field is refused, then the
  field must be present, then its value is checked.
\<close>

fun requiredFields :: "gotype \<Rightarrow> json \<Rightarrow> goerr option"
and requiredMembers :: "(string \<times> gotype) list \<Rightarrow> (string \<times> json) list \<Rightarrow> goerr option" where
  "requiredFields TRaw j = None"
| "requiredFields (TPtr t) j = (if jval j = JNull then None else requiredFields t j)"
| "requiredFields (TStruct fs) j =
     (case jval j of
        JNull \<Rightarrow> Some (corrupt ''null required field'')
      | JObj ms \<Rightarrow>
          (if \<not> distinct (map fst ms) then Some (corrupt ''duplicate JSON field'')
           else requiredMembers fs ms)
      | _ \<Rightarrow> Some (corrupt ''invalid JSON object''))"
| "requiredFields (TSlice t) j =
     (case jval j of
        JNull \<Rightarrow> Some (corrupt ''null required field'')
      | JArr js \<Rightarrow> firstError (map (requiredFields t) js)
      | _ \<Rightarrow> Some (corrupt ''invalid JSON array''))"
| "requiredFields TString j =
     (if jval j = JNull then Some (corrupt ''null required field'') else None)"
| "requiredFields TUint8 j =
     (if jval j = JNull then Some (corrupt ''null required field'') else None)"
| "requiredMembers [] ms = None"
| "requiredMembers ((name, t) # fs) ms =
     (if list_ex (\<lambda>m. fst m \<noteq> name \<and> equalFold (fst m) name) ms
      then Some (corrupt ''noncanonical JSON field name'')
      else (case map_of ms name of
              None \<Rightarrow> Some (corrupt (''missing field '' @ name))
            | Some j \<Rightarrow> (case requiredFields t j of
                           Some e \<Rightarrow> Some e
                         | None \<Rightarrow> requiredMembers fs ms)))"

text \<open>Every failure of the check is a corruption error.\<close>

lemma requiredFields_corrupt:
  "requiredFields t j = Some e \<Longrightarrow> errors_is e ErrCorrupt"
  "requiredMembers fs ms = Some e' \<Longrightarrow> errors_is e' ErrCorrupt"
proof (induction t j and fs ms arbitrary: e and e' rule: requiredFields_requiredMembers.induct)
  case (4 t j)
  then show ?case
    by (auto split: jval.splits dest!: firstError_SomeD)
qed (auto split: jval.splits if_splits option.splits)

text \<open>What a passed check says of a struct: each field is there, once, and passes in turn.\<close>

lemma requiredMembers_field:
  assumes "requiredMembers fs ms = None" and "(name, t) \<in> set fs"
  obtains j where "map_of ms name = Some j" and "requiredFields t j = None"
  using assms by (induction fs) (auto split: if_splits option.splits)

subsection \<open>json.Unmarshal into the field types of the envelopes\<close>

text \<open>
  A null leaves the Go zero value in place; \<open>requiredFields\<close> has excluded it where the type
  is not a pointer. A \<open>uint8\<close> takes only an unsigned decimal integer literal below 256.
\<close>

definition isDecDigit :: "char \<Rightarrow> bool" where
  "isDecDigit c \<longleftrightarrow> CHR ''0'' \<le> c \<and> c \<le> CHR ''9''"

definition decNum :: "string \<Rightarrow> nat" where
  "decNum s = foldl (\<lambda>v c. v * 10 + (of_char c - 48)) 0 s"

fun decStr :: "nat \<Rightarrow> string" where
  "decStr n = (if n < 10 then [char_of (48 + n)] else decStr (n div 10) @ [char_of (48 + n mod 10)])"

declare decStr.simps [simp del]

lemma decNum_decStr [simp]: "decNum (decStr n) = n"
proof (induction n rule: decStr.induct)
  case (1 n)
  have d: "of_char (char_of (48 + d) :: char) = 48 + d" if "d < 10" for d :: nat
    using that by simp
  show ?case
  proof (cases "n < 10")
    case True
    then show ?thesis by (simp add: decStr.simps [of n] decNum_def d)
  next
    case False
    have "decNum (decStr n) = decNum (decStr (n div 10)) * 10 + n mod 10"
      using False by (simp add: decStr.simps [of n] decNum_def d)
    with 1 False show ?thesis by simp
  qed
qed

lemma isDecDigit_decStr [simp]: "list_all isDecDigit (decStr n)"
proof (induction n rule: decStr.induct)
  case (1 n)
  have d: "isDecDigit (char_of (48 + d))" if "d < 10" for d :: nat
    using that by (simp add: isDecDigit_def less_eq_char_def)
  show ?case
    by (cases "n < 10") (use 1 in \<open>simp_all add: decStr.simps [of n] d\<close>)
qed

lemma decStr_nonempty [simp]: "decStr n \<noteq> []"
  by (simp add: decStr.simps [of n])

definition unmarshalString :: "json \<Rightarrow> string option" where
  "unmarshalString j = (case jval j of JStr s \<Rightarrow> Some s | JNull \<Rightarrow> Some [] | _ \<Rightarrow> None)"

definition unmarshalUint8 :: "json \<Rightarrow> nat option" where
  "unmarshalUint8 j =
     (case jval j of
        JNum t \<Rightarrow> (if t \<noteq> [] \<and> list_all isDecDigit t \<and> decNum t < 256 then Some (decNum t) else None)
      | JNull \<Rightarrow> Some 0
      | _ \<Rightarrow> None)"

definition unmarshalSlice :: "(json \<Rightarrow> 'b option) \<Rightarrow> json \<Rightarrow> 'b list option" where
  "unmarshalSlice f j =
     (case jval j of JArr js \<Rightarrow> those (map f js) | JNull \<Rightarrow> Some [] | _ \<Rightarrow> None)"

text \<open>A member of an object; an absent member leaves the zero value \<open>z\<close>.\<close>

definition unmarshalField :: "string \<Rightarrow> (json \<Rightarrow> 'b option) \<Rightarrow> 'b \<Rightarrow> json \<Rightarrow> 'b option" where
  "unmarshalField name f z j =
     (case jval j of
        JObj ms \<Rightarrow> (case map_of ms name of Some v \<Rightarrow> f v | None \<Rightarrow> Some z)
      | _ \<Rightarrow> None)"

subsection \<open>The tree of a marshalled value\<close>

text \<open>
  The tree one reads back from a marshalled value, given the text \<open>pr\<close> prints for a subtree
  and the tree \<open>rd\<close> of a raw message.
\<close>

fun readback :: "(jout \<Rightarrow> string) \<Rightarrow> (string \<Rightarrow> jval) \<Rightarrow> jout \<Rightarrow> json" where
  "readback pr rd ONull = Json (pr ONull) JNull"
| "readback pr rd (OStr s) = Json (pr (OStr s)) (JStr s)"
| "readback pr rd (ONum n) = Json (pr (ONum n)) (JNum (decStr n))"
| "readback pr rd (ORaw t) = Json t (rd t)"
| "readback pr rd (OArr xs) = Json (pr (OArr xs)) (JArr (map (readback pr rd) xs))"
| "readback pr rd (OObj ms) =
     Json (pr (OObj ms)) (JObj (map (\<lambda>m. (fst m, readback pr rd (snd m))) ms))"

end
