(* ===== verification/Wire.thy ===== *)
theory Wire
  imports HexKeys Json
begin

unbundle bit_operations_syntax

section \<open>The wire model: references, commits, keys and their validation (wire.go)\<close>

text \<open>
  The structs of \<open>wire.go\<close>, the key grammar, and the validation functions that every read
  path runs before trusting stored bytes. Revisions are Go \<open>int64\<close> values: mathematical
  integers with the wrap-around written out by \<open>i64\<close> where the code does arithmetic on
  unchecked values.
\<close>

subsection \<open>Structs\<close>

record previous =
  prev_Key :: string
  prev_RecordHash :: string

record objectRef =
  Level :: nat
  Start :: string
  End :: string
  Key :: string
  SHA256 :: string
  FirstPrevHash :: string
  LastRecordHash :: string

record frontierLevel =
  f_Level :: nat
  Refs :: "objectRef list"

record commit =
  Format :: string
  c_Revision :: string
  c_CommitID :: string
  Previous :: "previous option"
  c_Event :: string
  c_RecordHash :: string
  c_Frontier :: "frontierLevel list"

record projection =
  p_Revision :: string
  p_CommitID :: string
  PreviousRecordHash :: string
  p_RecordHash :: string
  p_Event :: string

text \<open>
  What the code uses of its libraries: SHA-256, \<open>encoding/json\<close> on texts (\<open>json_parse\<close> is
  \<^const>\<open>None\<close> where the text is not exactly one JSON value, \<open>json_print\<close> is \<open>json.Marshal\<close>,
  \<^const>\<open>None\<close> where a raw message is not valid JSON), the tokens \<open>jsontext.Decoder\<close> delivers from
  a text with their offsets and whether they end in a clean EOF, the codec of the
  application's event type, and the zstd package: the header size, checksum flag and skippable
  flag that \<open>Header.Decode\<close> finds, the bytes a decoder delivers with the error that ends them,
  and the encoder.
\<close>

datatype jtok = BeginObject | EndObject | BeginArray | EndArray | TokString string | TokLiteral

type_synonym lexed = "(jtok \<times> nat \<times> nat) list"

record 'a platform =
  sha256 :: "bytes \<Rightarrow> bytes"
  json_parse :: "bytes \<Rightarrow> json option"
  json_print :: "jout \<Rightarrow> bytes option"
  marshal_item :: "'a \<Rightarrow> goerr + bytes"
  unmarshal_batch :: "bytes \<Rightarrow> goerr + 'a list"
  json_lex :: "bytes \<Rightarrow> lexed \<times> bool"
  zstd_header :: "bytes \<Rightarrow> (nat \<times> bool \<times> bool) option"
  zstd_decode :: "bytes \<Rightarrow> goerr + (bytes \<times> goerr option)"
  zstd_encode :: "bytes \<Rightarrow> bytes"

text \<open>
  \<open>Log[T]\<close>: the configuration Open validated. The store and the temporary files are the
  world of the actions; \<open>lg_id\<close> is the identity of the handle, which \<open>checkSnapshot\<close>
  compares as a pointer.
\<close>

record 'a log =
  lg_id :: nat
  plat :: "'a platform"
  prefix :: string
  maxRetries :: int
  maxEvent :: int

subsection \<open>Constants\<close>

definition commitFormat :: string where "commitFormat = ''lokv/commit/v3''"
definition segmentFormat :: string where "segmentFormat = ''lokv/segment/v3''"
definition zeroHash :: string where "zeroHash = replicate 64 (CHR ''0'')"

definition MaxRevision :: int where "MaxRevision = 2 ^ 53 - 1"

text \<open>The longest generated key suffix after the prefix's slash.\<close>

definition maxPrefixBytes :: int where
  "maxPrefixBytes =
     1024 - (int (length ''/v1/tree/f/'') + 16 + 1 + 16 + 1 + 64 + int (length ''.json.zst''))"

subsection \<open>Revisions and hex strings\<close>

definition hexRevision :: "int \<Rightarrow> string" where
  "hexRevision r = (if r < 0 then ''-'' @ padHex 15 (nat (- r)) else padHex 16 (nat r))"

text \<open>The Go loop ranges over runes; a byte outside ASCII never forms an accepted rune.\<close>

definition validHex :: "string \<Rightarrow> nat \<Rightarrow> bool" where
  "validHex s n \<longleftrightarrow> length s = n \<and> list_all isHexDigit s"

definition parseHexInt64 :: "string \<Rightarrow> goerr + int" where
  "parseHexInt64 s =
     ebind (fail_if (\<not> validHex s 16) (corrupt ''invalid revision'')) (\<lambda>_.
     ebind (fail_if (int (hexNum s) > MaxInt64) (corrupt ''revision exceeds int64 range'')) (\<lambda>_.
     Inr (int (hexNum s))))"

definition parseRevision :: "string \<Rightarrow> goerr + int" where
  "parseRevision s =
     ebind (parseHexInt64 s) (\<lambda>r.
     ebind (fail_if (r \<le> 0 \<or> r > MaxRevision) (corrupt ''revision out of range'')) (\<lambda>_.
     Inr r))"

subsection \<open>Keys\<close>

definition logPrefix :: "'a log \<Rightarrow> string" where
  "logPrefix lg = prefix lg @ ''v1/log/''"

definition logKey :: "'a log \<Rightarrow> int \<Rightarrow> string" where
  "logKey lg r = logPrefix lg @ hexRevision (i64 (MaxInt64 - r)) @ ''.json''"

definition hasPrefix :: "string \<Rightarrow> string \<Rightarrow> bool" where
  "hasPrefix s p \<longleftrightarrow> take (length p) s = p"

definition hasSuffix :: "string \<Rightarrow> string \<Rightarrow> bool" where
  "hasSuffix s p \<longleftrightarrow> length p \<le> length s \<and> drop (length s - length p) s = p"

definition parseLogKey :: "'a log \<Rightarrow> string \<Rightarrow> goerr + int" where
  "parseLogKey lg key =
     ebind (fail_if (\<not> hasPrefix key (logPrefix lg)) (corrupt ''foreign commit key'')) (\<lambda>_.
     let s = drop (length (logPrefix lg)) key in
     ebind (fail_if (length s \<noteq> 21 \<or> \<not> hasSuffix s ''.json'') (corrupt ''invalid commit key'')) (\<lambda>_.
     ebind (parseHexInt64 (take 16 s)) (\<lambda>r0.
     let r = i64 (MaxInt64 - r0) in
     ebind (fail_if (r \<le> 0 \<or> r > MaxRevision)
              (corrupt ''commit key encodes revision out of range'')) (\<lambda>_.
     Inr r))))"

definition treeKey :: "'a log \<Rightarrow> objectRef \<Rightarrow> string" where
  "treeKey lg ref =
     prefix lg @ ''v1/tree/'' @ hexStr (Level ref) @ ''/'' @ Start ref @ ''-'' @ End ref @ ''-'' @
     SHA256 ref @ ''.json.zst''"

subsection \<open>Hashes\<close>

definition hexEncode :: "bytes \<Rightarrow> string" where
  "hexEncode b = concat (map (\<lambda>c. [hexDigit (of_char c div 16), hexDigit (of_char c mod 16)]) b)"

text \<open>
  \<open>hex.DecodeString\<close> also takes uppercase digits and returns the bytes decoded before the
  first error, which the callers use (they drop the error).
\<close>

definition fromHexChar :: "char \<Rightarrow> nat option" where
  "fromHexChar c =
     (if isHexDigit c then Some (hexVal c)
      else if CHR ''A'' \<le> c \<and> c \<le> CHR ''F'' then Some (of_char c - 55) else None)"

fun hexDecode :: "string \<Rightarrow> bytes" where
  "hexDecode (a # b # cs) =
     (case fromHexChar a of
        None \<Rightarrow> []
      | Some x \<Rightarrow> (case fromHexChar b of None \<Rightarrow> [] | Some y \<Rightarrow> char_of (16 * x + y) # hexDecode cs))"
| "hexDecode _ = []"

definition be64 :: "int \<Rightarrow> bytes" where
  "be64 x = map (\<lambda>i. char_of (nat (x mod 2 ^ 64) div 256 ^ i mod 256)) (rev [0..<8])"

text \<open>\<open>copy\<close> into a zeroed array of \<open>n\<close> bytes.\<close>

definition copyInto :: "nat \<Rightarrow> bytes \<Rightarrow> bytes" where
  "copyInto n b = take n (b @ replicate n (CHR 0x00))"

text \<open>A SHA-256 sum is an array of 32 bytes.\<close>

definition sum256 :: "'a log \<Rightarrow> bytes \<Rightarrow> bytes" where
  "sum256 lg b = copyInto 32 (sha256 (plat lg) b)"

definition digest :: "'a log \<Rightarrow> bytes \<Rightarrow> string" where
  "digest lg b = hexEncode (sum256 lg b)"

text \<open>The bytes \<open>recordHash\<close> feeds to SHA-256, in the order of its \<open>h.Write\<close> calls.\<close>

definition recordPreimage :: "int \<Rightarrow> string \<Rightarrow> string \<Rightarrow> bytes \<Rightarrow> bytes" where
  "recordPreimage r cid prev event =
     ''lokv-record-v1'' @ [CHR 0x00] @ be64 r @ hexDecode cid @ hexDecode prev @
     be64 (int (length event)) @ event"

definition recordHash :: "'a log \<Rightarrow> int \<Rightarrow> string \<Rightarrow> string \<Rightarrow> bytes \<Rightarrow> string" where
  "recordHash lg r cid prev event = hexEncode (sum256 lg (recordPreimage r cid prev event))"

definition project :: "commit \<Rightarrow> projection" where
  "project c =
     \<lparr>p_Revision = c_Revision c, p_CommitID = c_CommitID c,
      PreviousRecordHash = (case Previous c of None \<Rightarrow> zeroHash | Some p \<Rightarrow> prev_RecordHash p),
      p_RecordHash = c_RecordHash c, p_Event = c_Event c\<rparr>"

subsection \<open>Decoding the JSON envelopes\<close>

definition previousType :: gotype where
  "previousType = TStruct [(''key'', TString), (''record_hash'', TString)]"

definition objectRefType :: gotype where
  "objectRefType = TStruct
     [(''level'', TUint8), (''start'', TString), (''end'', TString), (''key'', TString),
      (''sha256'', TString), (''first_prev_hash'', TString), (''last_record_hash'', TString)]"

definition frontierLevelType :: gotype where
  "frontierLevelType = TStruct [(''level'', TUint8), (''refs'', TSlice objectRefType)]"

definition commitType :: gotype where
  "commitType = TStruct
     [(''format'', TString), (''revision'', TString), (''commit_id'', TString),
      (''previous'', TPtr previousType), (''event'', TRaw), (''record_hash'', TString),
      (''frontier'', TSlice frontierLevelType)]"

definition projectionType :: gotype where
  "projectionType = TStruct
     [(''revision'', TString), (''commit_id'', TString), (''previous_record_hash'', TString),
      (''record_hash'', TString), (''event'', TRaw)]"

definition previousOf :: "json \<Rightarrow> previous option" where
  "previousOf j =
     Option.bind (unmarshalField ''key'' unmarshalString [] j) (\<lambda>k.
     Option.bind (unmarshalField ''record_hash'' unmarshalString [] j) (\<lambda>h.
       Some \<lparr>prev_Key = k, prev_RecordHash = h\<rparr>))"

definition objectRefOf :: "json \<Rightarrow> objectRef option" where
  "objectRefOf j =
     Option.bind (unmarshalField ''level'' unmarshalUint8 0 j) (\<lambda>l.
     Option.bind (unmarshalField ''start'' unmarshalString [] j) (\<lambda>s.
     Option.bind (unmarshalField ''end'' unmarshalString [] j) (\<lambda>e.
     Option.bind (unmarshalField ''key'' unmarshalString [] j) (\<lambda>k.
     Option.bind (unmarshalField ''sha256'' unmarshalString [] j) (\<lambda>h.
     Option.bind (unmarshalField ''first_prev_hash'' unmarshalString [] j) (\<lambda>f.
     Option.bind (unmarshalField ''last_record_hash'' unmarshalString [] j) (\<lambda>r.
       Some \<lparr>Level = l, Start = s, End = e, Key = k, SHA256 = h, FirstPrevHash = f,
             LastRecordHash = r\<rparr>)))))))"

definition frontierLevelOf :: "json \<Rightarrow> frontierLevel option" where
  "frontierLevelOf j =
     Option.bind (unmarshalField ''level'' unmarshalUint8 0 j) (\<lambda>l.
     Option.bind (unmarshalField ''refs'' (unmarshalSlice objectRefOf) [] j) (\<lambda>rs.
       Some \<lparr>f_Level = l, Refs = rs\<rparr>))"

definition unmarshalPointer :: "(json \<Rightarrow> 'b option) \<Rightarrow> json \<Rightarrow> 'b option option" where
  "unmarshalPointer f j = (if jval j = JNull then Some None else map_option Some (f j))"

definition commitOf :: "json \<Rightarrow> commit option" where
  "commitOf j =
     Option.bind (unmarshalField ''format'' unmarshalString [] j) (\<lambda>fm.
     Option.bind (unmarshalField ''revision'' unmarshalString [] j) (\<lambda>r.
     Option.bind (unmarshalField ''commit_id'' unmarshalString [] j) (\<lambda>i.
     Option.bind (unmarshalField ''previous'' (unmarshalPointer previousOf) None j) (\<lambda>p.
     Option.bind (unmarshalField ''event'' (\<lambda>v. Some (raw v)) [] j) (\<lambda>e.
     Option.bind (unmarshalField ''record_hash'' unmarshalString [] j) (\<lambda>h.
     Option.bind (unmarshalField ''frontier'' (unmarshalSlice frontierLevelOf) [] j) (\<lambda>f.
       Some \<lparr>Format = fm, c_Revision = r, c_CommitID = i, Previous = p, c_Event = e,
             c_RecordHash = h, c_Frontier = f\<rparr>)))))))"

definition projectionOf :: "json \<Rightarrow> projection option" where
  "projectionOf j =
     Option.bind (unmarshalField ''revision'' unmarshalString [] j) (\<lambda>r.
     Option.bind (unmarshalField ''commit_id'' unmarshalString [] j) (\<lambda>i.
     Option.bind (unmarshalField ''previous_record_hash'' unmarshalString [] j) (\<lambda>p.
     Option.bind (unmarshalField ''record_hash'' unmarshalString [] j) (\<lambda>h.
     Option.bind (unmarshalField ''event'' (\<lambda>v. Some (raw v)) [] j) (\<lambda>e.
       Some \<lparr>p_Revision = r, p_CommitID = i, PreviousRecordHash = p, p_RecordHash = h,
             p_Event = e\<rparr>)))))"

text \<open>\<open>decodeJSON\<close> on a parsed value, for the type \<open>t\<close> and its unmarshaller \<open>f\<close>.\<close>

definition decodeTree :: "gotype \<Rightarrow> (json \<Rightarrow> 'b option) \<Rightarrow> json \<Rightarrow> goerr + 'b" where
  "decodeTree t f j =
     (case requiredFields t j of
        Some e \<Rightarrow> Inl e
      | None \<Rightarrow> (case f j of None \<Rightarrow> Inl (corrupt ''invalid JSON envelope'') | Some x \<Rightarrow> Inr x))"

definition decodeJSON :: "'a log \<Rightarrow> gotype \<Rightarrow> (json \<Rightarrow> 'b option) \<Rightarrow> bytes \<Rightarrow> goerr + 'b" where
  "decodeJSON lg t f b =
     (case json_parse (plat lg) b of
        None \<Rightarrow> Inl (corrupt ''invalid JSON object'')
      | Some j \<Rightarrow> decodeTree t f j)"

subsection \<open>Encoding: the structs as json.Marshal sees them\<close>

definition outPrevious :: "previous \<Rightarrow> jout" where
  "outPrevious p = OObj [(''key'', OStr (prev_Key p)), (''record_hash'', OStr (prev_RecordHash p))]"

definition outRef :: "objectRef \<Rightarrow> jout" where
  "outRef r = OObj
     [(''level'', ONum (Level r)), (''start'', OStr (Start r)), (''end'', OStr (End r)),
      (''key'', OStr (Key r)), (''sha256'', OStr (SHA256 r)),
      (''first_prev_hash'', OStr (FirstPrevHash r)), (''last_record_hash'', OStr (LastRecordHash r))]"

definition outFrontierLevel :: "frontierLevel \<Rightarrow> jout" where
  "outFrontierLevel f = OObj [(''level'', ONum (f_Level f)), (''refs'', OArr (map outRef (Refs f)))]"

definition outCommit :: "commit \<Rightarrow> jout" where
  "outCommit c = OObj
     [(''format'', OStr (Format c)), (''revision'', OStr (c_Revision c)),
      (''commit_id'', OStr (c_CommitID c)),
      (''previous'', (case Previous c of None \<Rightarrow> ONull | Some p \<Rightarrow> outPrevious p)),
      (''event'', ORaw (c_Event c)), (''record_hash'', OStr (c_RecordHash c)),
      (''frontier'', OArr (map outFrontierLevel (c_Frontier c)))]"

definition outProjection :: "projection \<Rightarrow> jout" where
  "outProjection p = OObj
     [(''revision'', OStr (p_Revision p)), (''commit_id'', OStr (p_CommitID p)),
      (''previous_record_hash'', OStr (PreviousRecordHash p)),
      (''record_hash'', OStr (p_RecordHash p)), (''event'', ORaw (p_Event p))]"

subsection \<open>Validation\<close>

text \<open>
  \<open>json.Marshal(p.Event)\<close> compacts and HTML-escapes the raw message; the event must be
  stable under it.
\<close>

definition validateProjection :: "'a log \<Rightarrow> projection \<Rightarrow> goerr + int" where
  "validateProjection lg p =
     ebind (parseRevision (p_Revision p)) (\<lambda>r.
     ebind (fail_if (\<not> validHex (p_CommitID p) 32 \<or> \<not> validHex (PreviousRecordHash p) 64 \<or>
                     \<not> validHex (p_RecordHash p) 64)
              (corrupt ''invalid record hash or ID'')) (\<lambda>_.
     ebind (fail_if (r = 1 \<and> PreviousRecordHash p \<noteq> zeroHash)
              (corrupt ''invalid genesis hash'')) (\<lambda>_.
     ebind (fail_if (length (p_Event p) < 3 \<or> hd (p_Event p) \<noteq> CHR ''['' \<or>
                     last (p_Event p) \<noteq> CHR '']'')
              (corrupt ''event must be a nonempty batch array'')) (\<lambda>_.
     ebind (fail_if (json_print (plat lg) (ORaw (p_Event p)) \<noteq> Some (p_Event p))
              (corrupt ''noncanonical event JSON'')) (\<lambda>_.
     ebind (fail_if (recordHash lg r (p_CommitID p) (PreviousRecordHash p) (p_Event p) \<noteq> p_RecordHash p)
              (corrupt ''record hash mismatch'')) (\<lambda>_.
     Inr r))))))"

text \<open>\<open>int64(1) << (4 * level)\<close>, the shift count computed in \<open>uint8\<close>.\<close>

definition levelSize :: "nat \<Rightarrow> int" where
  "levelSize level = i64 (push_bit ((4 * level) mod 256) 1)"

text \<open>The remainder is Go's truncated \<open>%\<close>; its left operand is nonnegative here.\<close>

definition validateRef :: "'a log \<Rightarrow> objectRef \<Rightarrow> goerr + (int \<times> int)" where
  "validateRef lg ref =
     ebind (fail_if (Level ref > 15) (corrupt ''invalid reference level'')) (\<lambda>_.
     ebind (parseRevision (Start ref)) (\<lambda>start.
     ebind (parseRevision (End ref)) (\<lambda>end.
     let size = levelSize (Level ref) in
     ebind (fail_if (i64 (start - 1) mod size \<noteq> 0 \<or> start > i64 (MaxRevision - i64 (size - 1)) \<or>
                     end \<noteq> i64 (start + i64 (size - 1)))
              (corrupt ''invalid reference range'')) (\<lambda>_.
     ebind (fail_if (\<not> validHex (SHA256 ref) 64 \<or> \<not> validHex (FirstPrevHash ref) 64 \<or>
                     \<not> validHex (LastRecordHash ref) 64)
              (corrupt ''invalid reference digest'')) (\<lambda>_.
     let key = (if Level ref = 0 then logKey lg start else treeKey lg ref) in
     ebind (fail_if (Key ref \<noteq> key) (corrupt ''reference key mismatch'')) (\<lambda>_.
     Inr (start, end)))))))"

text \<open>
  \<open>validateFrontier\<close> in three parts, as its body has them: spreading the levels over an
  array of 16, checking the references of one level against the running \<open>next\<close> revision
  and \<open>chain\<close> hash, and the descent over the levels.
\<close>

fun collectLevels ::
  "frontierLevel list \<Rightarrow> int \<Rightarrow> objectRef list list \<Rightarrow> goerr + objectRef list list" where
  "collectLevels [] lastLevel levels = Inr levels"
| "collectLevels (f # fs) lastLevel levels =
     ebind (fail_if (int (f_Level f) \<le> lastLevel \<or> f_Level f > 15 \<or> Refs f = [] \<or> length (Refs f) > 15)
              (corrupt ''noncanonical frontier levels'')) (\<lambda>_.
     collectLevels fs (int (f_Level f)) (levels[f_Level f := Refs f]))"

fun checkRefs ::
  "'a log \<Rightarrow> nat \<Rightarrow> int \<Rightarrow> objectRef list \<Rightarrow> int \<times> string \<Rightarrow> goerr + (int \<times> string)" where
  "checkRefs lg level revision [] acc = Inr acc"
| "checkRefs lg level revision (ref # refs) acc =
     ebind (validateRef lg ref) (\<lambda>se.
     ebind (fail_if (Level ref \<noteq> level \<or> fst se \<noteq> fst acc \<or> snd se \<ge> revision \<or>
                     FirstPrevHash ref \<noteq> snd acc)
              (corrupt ''frontier partition or chain mismatch'')) (\<lambda>_.
     checkRefs lg level revision refs (i64 (snd se + 1), LastRecordHash ref)))"

definition nibble :: "int \<Rightarrow> nat \<Rightarrow> int" where
  "nibble n level = drop_bit (4 * level) n AND 15"

fun checkLevels ::
  "'a log \<Rightarrow> objectRef list list \<Rightarrow> int \<Rightarrow> nat list \<Rightarrow> int \<times> string \<Rightarrow> goerr + (int \<times> string)" where
  "checkLevels lg levels revision [] acc = Inr acc"
| "checkLevels lg levels revision (level # ls) acc =
     ebind (fail_if (int (length (levels ! level)) \<noteq> nibble (i64 (revision - 1)) level)
              (corrupt ''frontier digit mismatch'')) (\<lambda>_.
     ebind (checkRefs lg level revision (levels ! level) acc) (\<lambda>acc'.
     checkLevels lg levels revision ls acc'))"

definition validateFrontier ::
  "'a log \<Rightarrow> frontierLevel list \<Rightarrow> int \<Rightarrow> string \<Rightarrow> goerr + unit" where
  "validateFrontier lg frontier revision prevHash =
     ebind (fail_if (revision \<le> 0 \<or> revision > MaxRevision) (corrupt ''revision out of range'')) (\<lambda>_.
     ebind (collectLevels frontier (-1) (replicate 16 [])) (\<lambda>levels.
     ebind (checkLevels lg levels revision (rev [0..<16]) (1, zeroHash)) (\<lambda>nc.
     fail_if (fst nc \<noteq> revision \<or> snd nc \<noteq> prevHash) (corrupt ''frontier boundary mismatch''))))"

definition decodeCommit :: "'a log \<Rightarrow> string \<Rightarrow> bytes \<Rightarrow> goerr + commit" where
  "decodeCommit lg key body =
     ebind (parseLogKey lg key) (\<lambda>r.
     ebind (decodeJSON lg commitType commitOf body) (\<lambda>c.
     ebind (fail_if (Format c \<noteq> commitFormat \<or> c_Revision c \<noteq> hexRevision r)
              (corrupt ''commit format or revision mismatch'')) (\<lambda>_.
     ebind (if r = 1
            then fail_if (Previous c \<noteq> None) (corrupt ''genesis has predecessor'')
            else fail_if (case Previous c of None \<Rightarrow> True | Some p \<Rightarrow> prev_Key p \<noteq> logKey lg (i64 (r - 1)))
                   (corrupt ''invalid predecessor key'')) (\<lambda>_.
     ebind (validateProjection lg (project c)) (\<lambda>_.
     ebind (validateFrontier lg (c_Frontier c) r (PreviousRecordHash (project c))) (\<lambda>_.
     Inr c))))))"

end
