(* ===== verification/StoreApi.thy ===== *)
theory StoreApi
  imports Wire
begin

section \<open>The Store interface (store.go) and the world of the actions\<close>

text \<open>
  \<open>store.go\<close> declares the interface every storage adapter provides. A \<open>world\<close> bundles the
  three store operations with the other things the core asks of its surroundings: the
  context, random bytes, operations on temporary files, and whether the platform is Windows. Each is a function of a state
  of any type, which also holds whatever else may happen between two calls: other writers,
  faults, cancellation.
\<close>

subsection \<open>Streams and worlds\<close>

text \<open>
  A reader returned by Get: the bytes that reading to the end delivers, the number of Read
  calls this takes after the first, the error that ends the reading (\<^const>\<open>None\<close> for a
  clean EOF), and the error of closing it.
\<close>

record stream =
  s_bytes :: bytes
  s_reads :: nat
  s_rerr :: "goerr option"
  s_cerr :: "goerr option"

record 's world =
  w_ctx :: "'s \<Rightarrow> goerr option \<times> 's"
  w_list :: "string \<Rightarrow> int \<Rightarrow> ('s, string list) io"
  w_get :: "string \<Rightarrow> ('s, stream) io"
  w_create :: "string \<Rightarrow> bytes \<Rightarrow> 's \<Rightarrow> goerr option \<times> 's"
  w_rand :: "nat \<Rightarrow> ('s, bytes) io"
  w_tmp :: "string \<Rightarrow> 's \<Rightarrow> goerr option \<times> 's"
  w_windows :: bool

text \<open>
  What one Read call reports besides its bytes: more to come, EOF, or an error. A stream delivers
  its bytes, at most as many as asked for at a time, and then its end.
\<close>

datatype rstatus = More | Eof | Fail goerr

definition bodyRead :: "nat \<Rightarrow> stream \<Rightarrow> (bytes \<times> rstatus) \<times> stream" where
  "bodyRead n b =
     (if s_bytes b = [] then (([], case s_rerr b of None \<Rightarrow> Eof | Some e \<Rightarrow> Fail e), b)
      else ((take n (s_bytes b), More), b\<lparr>s_bytes := drop n (s_bytes b)\<rparr>))"

text \<open>An error value read as data, as in \<open>errors.Join(..., ctx.Err())\<close>.\<close>

definition io_poll :: "('s \<Rightarrow> goerr option \<times> 's) \<Rightarrow> ('s, goerr option) io" where
  "io_poll c s = (case c s of (r, s') \<Rightarrow> (Inr r, s'))"

lemma io_poll_eq_iff [simp]: "io_poll c s = (r, s') \<longleftrightarrow> (\<exists>e. c s = (e, s') \<and> r = Inr e)"
  by (auto simp: io_poll_def split: prod.splits)

subsection \<open>Relations kept by the reading operations\<close>

text \<open>
  \<open>world_rel R W\<close>: every operation of the world except Create moves the state to an
  \<open>R\<close>-later one. What the core composes from these operations then does too; the lemmas
  below and in the theories that follow say so once, for "the objects only grow" as well as
  for "the log's invariant is kept".
\<close>

locale world_rel = state_preorder R for R :: "'s \<Rightarrow> 's \<Rightarrow> bool" +
  fixes W :: "'s world"
  assumes r_ctx: "w_ctx W s = (ce, s') \<Longrightarrow> R s s'"
    and r_list: "w_list W p n s = (lr, s') \<Longrightarrow> R s s'"
    and r_get: "w_get W k s = (gr, s') \<Longrightarrow> R s s'"
    and r_rand: "w_rand W m s = (rr, s') \<Longrightarrow> R s s'"
    and r_tmp: "w_tmp W q s = (te, s') \<Longrightarrow> R s s'"
begin

lemma rel_poll:
  "(\<And>s r s'. c s = (r, s') \<Longrightarrow> R s s') \<Longrightarrow> io_rel R (io_poll c)"
  by (auto simp: io_rel_def io_poll_def split: prod.splits)

lemma rel_ctx: "io_rel R (io_check (w_ctx W))"
  by (intro rel_check r_ctx)

lemma rel_tmp: "io_rel R (io_check (w_tmp W q))"
  by (intro rel_check r_tmp)

lemma rel_poll_ctx: "io_rel R (io_poll (w_ctx W))"
  by (intro rel_poll r_ctx)

lemma rel_poll_tmp: "io_rel R (io_poll (w_tmp W q))"
  by (intro rel_poll r_tmp)

lemma rel_list: "io_rel R (w_list W p n)"
  by (intro io_relI r_list)

lemma rel_get: "io_rel R (w_get W k)"
  by (intro io_relI r_get)

lemma rel_rand: "io_rel R (w_rand W m)"
  by (intro io_relI r_rand)

text \<open>A step that leaves the state alone.\<close>

lemma rel_pure: "io_rel R (\<lambda>s. (f s, s))"
  by (simp add: io_rel_def R_refl)

lemmas rel_intros = rel_ret rel_fail rel_lift rel_bind rel_wrap rel_try rel_local rel_if
  rel_option rel_sum rel_pure rel_ctx rel_tmp rel_poll_ctx rel_poll_tmp rel_list rel_get rel_rand

end

subsection \<open>The contract\<close>

text \<open>
  A listing taken while the store grew from \<open>m\<close> to \<open>m'\<close>: strictly ascending complete keys
  with the prefix, at most \<open>n\<close>, all present at the end, and no key present at the start is
  missed unless the limit was reached before it.
\<close>

definition is_listing ::
  "string \<Rightarrow> int \<Rightarrow> (string \<rightharpoonup> bytes) \<Rightarrow> (string \<rightharpoonup> bytes) \<Rightarrow> string list \<Rightarrow> bool" where
  "is_listing p n m m' ks \<longleftrightarrow>
     sorted_wrt (<) ks \<and> (\<forall>k\<in>set ks. hasPrefix k p \<and> k \<in> dom m') \<and> int (length ks) \<le> n \<and>
     (\<forall>k\<in>dom m. hasPrefix k p \<longrightarrow> k \<in> set ks \<or> (int (length ks) = n \<and> (\<forall>k'\<in>set ks. k' < k)))"

definition grows :: "('s \<Rightarrow> string \<rightharpoonup> bytes) \<Rightarrow> ('s \<Rightarrow> bool) \<Rightarrow> 's \<Rightarrow> 's \<Rightarrow> bool" where
  "grows objs good s s' \<longleftrightarrow> (good s \<longrightarrow> good s' \<and> objs s \<subseteq>\<^sub>m objs s')"

lemma growsI: "(good s \<Longrightarrow> good s' \<and> objs s \<subseteq>\<^sub>m objs s') \<Longrightarrow> grows objs good s s'"
  by (simp add: grows_def)

text \<open>
  The Store contract of \<open>store.go\<close>, for a store whose published objects are \<open>objs s\<close>:
  values are never changed or removed, whatever happens during a call; a complete read
  returns the published value; \<open>ErrNotFound\<close> is returned only for a key that was absent;
  a successful Create found the key absent and published exactly the value; a Create that
  reports \<open>ErrExists\<close> does so once the winner is visible; List is as above. Nothing is
  assumed of calls that fail otherwise: an ambiguous Create may or may not have published.
\<close>

locale object_store =
  fixes W :: "'s world"
    and objs :: "'s \<Rightarrow> string \<rightharpoonup> bytes"
    and good :: "'s \<Rightarrow> bool"
  assumes ctx_grows: "w_ctx W s = (ce, s') \<Longrightarrow> grows objs good s s'"
    and list_grows: "w_list W p n s = (lr, s') \<Longrightarrow> grows objs good s s'"
    and get_grows: "w_get W k s = (gr, s') \<Longrightarrow> grows objs good s s'"
    and create_grows: "w_create W k v s = (ce, s') \<Longrightarrow> grows objs good s s'"
    and rand_grows: "w_rand W m s = (rr, s') \<Longrightarrow> grows objs good s s'"
    and tmp_grows: "w_tmp W q s = (ce, s') \<Longrightarrow> grows objs good s s'"
    and list_ok: "w_list W p n s = (Inr ks, s') \<Longrightarrow> good s \<Longrightarrow> is_listing p n (objs s) (objs s') ks"
    and get_ok: "w_get W k s = (Inr st, s') \<Longrightarrow> good s \<Longrightarrow> s_rerr st = None \<Longrightarrow>
      objs s' k = Some (s_bytes st)"
    and get_absent: "w_get W k s = (Inl e, s') \<Longrightarrow> good s \<Longrightarrow> errors_is e ErrNotFound \<Longrightarrow>
      objs s k = None"
    and create_ok: "w_create W k v s = (None, s') \<Longrightarrow> good s \<Longrightarrow>
      objs s k = None \<and> objs s' k = Some v"
    and create_exists: "w_create W k v s = (Some e, s') \<Longrightarrow> good s \<Longrightarrow> errors_is e ErrExists \<Longrightarrow>
      objs s' k \<noteq> None"

sublocale object_store \<subseteq> grow: world_rel "grows objs good" W
  by unfold_locales
    (auto simp: grows_def intro: map_le_trans
      dest: ctx_grows list_grows get_grows rand_grows tmp_grows)

context object_store
begin

lemma grow_create: "io_rel (grows objs good) (io_poll (w_create W k v))"
  by (intro grow.rel_poll create_grows)

text \<open>Two consequences used throughout: the invariant and the objects are kept by an action.\<close>

lemma grow_good: "io_rel (grows objs good) m \<Longrightarrow> m s = (r, s') \<Longrightarrow> good s \<Longrightarrow> good s'"
  by (auto dest!: io_relD simp: grows_def)

lemma grow_objs: "io_rel (grows objs good) m \<Longrightarrow> m s = (r, s') \<Longrightarrow> good s \<Longrightarrow> objs s \<subseteq>\<^sub>m objs s'"
  by (auto dest!: io_relD simp: grows_def)

text \<open>The contract also holds under a stronger invariant that every operation keeps.\<close>

lemma strengthen:
  assumes imp: "\<And>s. good' s \<Longrightarrow> good s"
    and "\<And>s ce s'. w_ctx W s = (ce, s') \<Longrightarrow> good' s \<Longrightarrow> good' s'"
    and "\<And>p n s lr s'. w_list W p n s = (lr, s') \<Longrightarrow> good' s \<Longrightarrow> good' s'"
    and "\<And>k s gr s'. w_get W k s = (gr, s') \<Longrightarrow> good' s \<Longrightarrow> good' s'"
    and "\<And>k v s ce s'. w_create W k v s = (ce, s') \<Longrightarrow> good' s \<Longrightarrow> good' s'"
    and "\<And>m s rr s'. w_rand W m s = (rr, s') \<Longrightarrow> good' s \<Longrightarrow> good' s'"
    and "\<And>q s ce s'. w_tmp W q s = (ce, s') \<Longrightarrow> good' s \<Longrightarrow> good' s'"
  shows "object_store W objs good'"
proof -
  have g: "grows objs good' s s'" if "grows objs good s s'" "good' s \<Longrightarrow> good' s'" for s s'
    using that imp by (auto simp: grows_def)
  show ?thesis
  proof
    show "grows objs good' s s'" if "w_ctx W s = (ce, s')" for s ce s'
      by (rule g [OF ctx_grows [OF that] assms(2) [OF that]])
    show "grows objs good' s s'" if "w_list W p n s = (lr, s')" for p n s lr s'
      by (rule g [OF list_grows [OF that] assms(3) [OF that]])
    show "grows objs good' s s'" if "w_get W k s = (gr, s')" for k s gr s'
      by (rule g [OF get_grows [OF that] assms(4) [OF that]])
    show "grows objs good' s s'" if "w_create W k v s = (ce, s')" for k v s ce s'
      by (rule g [OF create_grows [OF that] assms(5) [OF that]])
    show "grows objs good' s s'" if "w_rand W m s = (rr, s')" for m s rr s'
      by (rule g [OF rand_grows [OF that] assms(6) [OF that]])
    show "grows objs good' s s'" if "w_tmp W q s = (te, s')" for q s te s'
      by (rule g [OF tmp_grows [OF that] assms(7) [OF that]])
    show "is_listing p n (objs s) (objs s') ks" if "w_list W p n s = (Inr ks, s')" "good' s" for p n s ks s'
      by (rule list_ok [OF that(1) imp [OF that(2)]])
    show "objs s' k = Some (s_bytes st)"
      if "w_get W k s = (Inr st, s')" "good' s" "s_rerr st = None" for k s st s'
      by (rule get_ok [OF that(1) imp [OF that(2)] that(3)])
    show "objs s k = None"
      if "w_get W k s = (Inl e, s')" "good' s" "errors_is e ErrNotFound" for k s e s'
      by (rule get_absent [OF that(1) imp [OF that(2)] that(3)])
    show "objs s k = None \<and> objs s' k = Some v"
      if "w_create W k v s = (None, s')" "good' s" for k v s s'
      by (rule create_ok [OF that(1) imp [OF that(2)]])
    show "objs s' k \<noteq> None"
      if "w_create W k v s = (Some e, s')" "good' s" "errors_is e ErrExists" for k v s e s'
      by (rule create_exists [OF that(1) imp [OF that(2)] that(3)])
  qed
qed

end

subsection \<open>Running in a larger state\<close>

text \<open>
  Callbacks of the core keep state of their own (the local variables a Go closure captures,
  the application value a State folds into). \<open>lift_world W\<close> is the same world beside such a
  component, which its operations leave alone.
\<close>

definition lift_op :: "('s \<Rightarrow> 'r \<times> 's) \<Rightarrow> 's \<times> 'u \<Rightarrow> 'r \<times> ('s \<times> 'u)" where
  "lift_op f x = (case f (fst x) of (r, s') \<Rightarrow> (r, (s', snd x)))"

definition lift_world :: "'s world \<Rightarrow> ('s \<times> 'u) world" where
  "lift_world W =
     \<lparr>w_ctx = lift_op (w_ctx W), w_list = (\<lambda>p n. lift_op (w_list W p n)),
      w_get = (\<lambda>k. lift_op (w_get W k)), w_create = (\<lambda>k v. lift_op (w_create W k v)),
      w_rand = (\<lambda>n. lift_op (w_rand W n)), w_tmp = (\<lambda>q. lift_op (w_tmp W q)),
      w_windows = w_windows W\<rparr>"

lemma lift_op_eq_iff:
  "lift_op f x = (r, y) \<longleftrightarrow> f (fst x) = (r, fst y) \<and> snd y = snd x"
  by (cases y) (auto simp: lift_op_def split: prod.splits)

lemma lifted_rel:
  assumes "world_rel R W"
  shows "world_rel (\<lambda>x y. R (fst x) (fst y)) (lift_world W)"
proof -
  note pre = world_rel.axioms(1) [OF assms]
  note ops = world_rel.r_ctx [OF assms] world_rel.r_list [OF assms] world_rel.r_get [OF assms]
    world_rel.r_rand [OF assms] world_rel.r_tmp [OF assms]
  show ?thesis
    using state_preorder.R_refl [OF pre] state_preorder.R_trans [OF pre] ops
    by unfold_locales (auto simp: lift_world_def lift_op_eq_iff)
qed

context object_store
begin

lemma lifted_store:
  "object_store (lift_world W) (\<lambda>x. objs (fst x)) (\<lambda>x. good (fst x))"
  using ctx_grows list_grows get_grows create_grows rand_grows tmp_grows
  by unfold_locales
     (auto simp: lift_world_def lift_op_eq_iff grows_def
        dest: list_ok get_ok get_absent create_ok create_exists)

end

end
