(* ===== verification/KeyFacts.thy ===== *)
theory KeyFacts
  imports Wire
begin

section \<open>The key grammar is exact and orders revisions backwards\<close>

text \<open>
  Facts about the key and number formats of theory \<open>Wire\<close>: the parsers accept exactly what
  the printers produce, keys sort by descending revision, generated keys fit the length
  budget, and the input of the record hash determines the record.
\<close>

abbreviation valid_rev :: "int \<Rightarrow> bool" where
  "valid_rev r \<equiv> 1 \<le> r \<and> r \<le> MaxRevision"

named_theorems bounds \<open>numeric constants of the format\<close>

lemmas [bounds] = MaxRevision_def MaxInt64_def

lemma i64_reverse [simp]: "valid_rev r \<Longrightarrow> i64 (MaxInt64 - r) = MaxInt64 - r"
  by (rule i64_id) (simp add: in_i64_def bounds)

lemma valid_rev_bounds:
  assumes "valid_rev r"
  shows "0 \<le> r" "r < 2 ^ 64" "0 \<le> MaxInt64 - r" "MaxInt64 - r < 2 ^ 64" "MaxInt64 - r \<le> MaxInt64"
    "r \<le> MaxInt64"
  using assms by (simp_all add: bounds)

lemma i64_small: "- (2 ^ 60) \<le> x \<Longrightarrow> x \<le> 2 ^ 61 \<Longrightarrow> i64 x = x"
  by (rule i64_id) (simp add: in_i64_def)

subsection \<open>Revisions\<close>

lemma hexRevision_eq: "0 \<le> r \<Longrightarrow> r < 2 ^ 64 \<Longrightarrow> hexRevision r = hexW 16 (nat r)"
  by (simp add: hexRevision_def padHex_eq_hexW nat_less_iff)

lemma hexRevision_reverse:
  "valid_rev r \<Longrightarrow> hexRevision (MaxInt64 - r) = hexW 16 (nat (MaxInt64 - r))"
  by (rule hexRevision_eq [OF valid_rev_bounds(3,4)])

lemma hexRevision_valid: "valid_rev r \<Longrightarrow> hexRevision r = hexW 16 (nat r)"
  by (rule hexRevision_eq [OF valid_rev_bounds(1,2)])

lemma parseHexInt64_iff:
  "parseHexInt64 s = Inr r \<longleftrightarrow> 0 \<le> r \<and> r \<le> MaxInt64 \<and> s = hexRevision r"
proof
  assume "parseHexInt64 s = Inr r"
  then have s: "length s = 16" "list_all isHexDigit s" and r: "r = int (hexNum s)" "r \<le> MaxInt64"
    by (auto simp: parseHexInt64_def validHex_def ebind_eq_Inr_iff)
  from s(2) have "hexW (length s) (hexNum s) = s" by (rule hexW_hexNum)
  with s(1) r show "0 \<le> r \<and> r \<le> MaxInt64 \<and> s = hexRevision r"
    by (simp add: hexRevision_eq bounds)
next
  assume r: "0 \<le> r \<and> r \<le> MaxInt64 \<and> s = hexRevision r"
  then have s: "s = hexW 16 (nat r)" and n: "nat r < 16 ^ 16"
    by (simp_all add: hexRevision_eq bounds nat_less_iff)
  have "validHex s 16" unfolding s validHex_def by simp
  moreover have "hexNum s = nat r" unfolding s by (rule hexNum_hexW [OF n])
  ultimately show "parseHexInt64 s = Inr r"
    using r by (simp add: parseHexInt64_def fail_if_def)
qed

lemma parseRevision_iff: "parseRevision s = Inr r \<longleftrightarrow> valid_rev r \<and> s = hexRevision r"
proof
  assume "parseRevision s = Inr r"
  then show "valid_rev r \<and> s = hexRevision r"
    by (auto simp: parseRevision_def ebind_eq_Inr_iff parseHexInt64_iff)
next
  assume r: "valid_rev r \<and> s = hexRevision r"
  then have "parseHexInt64 s = Inr r" by (simp add: parseHexInt64_iff valid_rev_bounds)
  with r show "parseRevision s = Inr r" by (simp add: parseRevision_def fail_if_def)
qed

lemma parseRevision_hexRevision [simp]: "valid_rev r \<Longrightarrow> parseRevision (hexRevision r) = Inr r"
  by (simp add: parseRevision_iff)

lemma hexRevision_inj: "valid_rev a \<Longrightarrow> valid_rev b \<Longrightarrow> hexRevision a = hexRevision b \<longleftrightarrow> a = b"
  by (metis parseRevision_iff Inr_inject)

lemma parseHexInt64_Inl: "parseHexInt64 s = Inl e \<Longrightarrow> errors_is e ErrCorrupt"
  by (auto simp: parseHexInt64_def ebind_eq_Inl_iff)

lemma parseRevision_Inl: "parseRevision s = Inl e \<Longrightarrow> errors_is e ErrCorrupt"
  by (auto simp: parseRevision_def ebind_eq_Inl_iff parseHexInt64_Inl)

subsection \<open>Commit keys\<close>

lemma logKey_eq:
  "valid_rev r \<Longrightarrow> logKey lg r = logPrefix lg @ hexW 16 (nat (MaxInt64 - r)) @ ''.json''"
  by (simp add: logKey_def hexRevision_reverse)

lemma hasPrefix_append [simp]: "hasPrefix (p @ s) p"
  by (simp add: hasPrefix_def)

lemma hasPrefixE:
  assumes "hasPrefix s p"
  obtains t where "s = p @ t"
  using assms by (metis hasPrefix_def append_take_drop_id)

lemma hasSuffix_iff: "hasSuffix s p \<longleftrightarrow> (\<exists>t. s = t @ p)"
  by (auto simp: hasSuffix_def) (metis append_take_drop_id)

lemma parseLogKey_logKey:
  assumes "valid_rev r"
  shows "parseLogKey lg (logKey lg r) = Inr r"
proof -
  let ?h = "hexRevision (MaxInt64 - r)"
  have h: "length ?h = 16" using assms by (simp add: hexRevision_reverse)
  have "parseHexInt64 ?h = Inr (MaxInt64 - r)"
    using assms by (simp add: parseHexInt64_iff valid_rev_bounds)
  moreover have "i64 r = r" using assms by (intro i64_small) (simp_all add: bounds)
  ultimately show ?thesis
    using assms h by (simp add: parseLogKey_def logKey_def Let_def hasSuffix_iff fail_if_def)
qed

lemma parseLogKey_Inr:
  assumes "parseLogKey lg key = Inr r"
  shows "valid_rev r \<and> key = logKey lg r"
proof -
  from assms have "hasPrefix key (logPrefix lg)"
    by (auto simp: parseLogKey_def ebind_eq_Inr_iff)
  then obtain s where key: "key = logPrefix lg @ s" by (rule hasPrefixE)
  with assms obtain r0 where len: "length s = 21" and suf: "hasSuffix s ''.json''"
    and p: "parseHexInt64 (take 16 s) = Inr r0" and r: "r = i64 (MaxInt64 - r0)" "valid_rev r"
    by (auto simp: parseLogKey_def Let_def ebind_eq_Inr_iff)
  from p have r0: "0 \<le> r0" "r0 \<le> MaxInt64" "take 16 s = hexRevision r0"
    by (simp_all add: parseHexInt64_iff)
  then have "i64 (MaxInt64 - r0) = MaxInt64 - r0"
    by (intro i64_id) (simp add: in_i64_def bounds)
  with r have "r0 = MaxInt64 - r" by simp
  then have "r0 = i64 (MaxInt64 - r)" using r(2) by simp
  moreover from suf len have "s = take 16 s @ ''.json''"
    by (auto simp: hasSuffix_iff)
  ultimately show ?thesis using r(2) r0(3) key by (simp add: logKey_def)
qed

lemma logKey_less_iff:
  assumes "valid_rev a" and "valid_rev b"
  shows "logKey lg a < logKey lg b \<longleftrightarrow> b < a"
proof -
  have app: "p @ x < p @ y \<longleftrightarrow> x < y" for p x y :: string
    by (simp add: append_less_same_length)
  have "logKey lg a < logKey lg b \<longleftrightarrow>
      hexW 16 (nat (MaxInt64 - a)) < hexW 16 (nat (MaxInt64 - b))"
    using assms by (simp add: logKey_eq app append_less_same_length)
  also have "\<dots> \<longleftrightarrow> nat (MaxInt64 - a) < nat (MaxInt64 - b)"
    using assms by (intro hexW_less_iff) (simp_all add: bounds nat_less_iff)
  also have "\<dots> \<longleftrightarrow> b < a" using assms by (simp add: bounds)
  finally show ?thesis .
qed

lemma logKey_inj: "valid_rev a \<Longrightarrow> valid_rev b \<Longrightarrow> logKey lg a = logKey lg b \<longleftrightarrow> a = b"
  by (metis parseLogKey_logKey Inr_inject)

lemma logKey_hasPrefix [simp]: "hasPrefix (logKey lg r) (logPrefix lg)"
  by (simp add: logKey_def)

subsection \<open>Tree keys\<close>

lemma hexStr_less16: "n < 16 \<Longrightarrow> hexStr n = [hexDigit n]"
  by (simp add: hexStr.simps)

lemma treeKey_not_log: "\<not> hasPrefix (treeKey lg ref) (logPrefix lg)"
  by (simp add: hasPrefix_def treeKey_def logPrefix_def)

lemma treeKey_ne_logKey [simp]: "treeKey lg ref \<noteq> logKey lg r"
  by (metis treeKey_not_log logKey_hasPrefix)

lemma length_treeKey:
  assumes "Level ref \<le> 15" and "length (Start ref) = 16" and "length (End ref) = 16"
    and "length (SHA256 ref) = 64"
  shows "length (treeKey lg ref) = length (prefix lg) + 117"
  using assms by (simp add: treeKey_def hexStr_less16)

lemma length_logKey: "valid_rev r \<Longrightarrow> length (logKey lg r) = length (prefix lg) + 28"
  by (simp add: logKey_eq logPrefix_def)

lemma maxPrefixBytes_eq: "maxPrefixBytes = 906"
  by (simp add: maxPrefixBytes_def)

subsection \<open>Hexadecimal bytes\<close>

lemma length_hexEncode [simp]: "length (hexEncode b) = 2 * length b"
  by (induction b) (simp_all add: hexEncode_def)

lemma hexEncode_Nil [simp]: "hexEncode [] = []"
  by (simp add: hexEncode_def)

lemma hexEncode_Cons [simp]:
  "hexEncode (c # b) = hexDigit (of_char c div 16) # hexDigit (of_char c mod 16) # hexEncode b"
  by (simp add: hexEncode_def)

lemma of_char_div16 [simp]: "(of_char (c::char) :: nat) div 16 < 16"
  by (simp add: less_mult_imp_div_less)

lemma validHex_hexEncode [simp]: "list_all isHexDigit (hexEncode b)"
  by (induction b) simp_all

lemma fromHexChar_hexDigit [simp]: "d < 16 \<Longrightarrow> fromHexChar (hexDigit d) = Some d"
  by (simp add: fromHexChar_def)

lemma hexDecode_hexEncode [simp]: "hexDecode (hexEncode b) = b"
  by (induction b) simp_all

lemma hexEncode_inj: "hexEncode a = hexEncode b \<longleftrightarrow> a = b"
  by (metis hexDecode_hexEncode)

lemma hexEncode_hexDecode:
  assumes "list_all isHexDigit s" and "even (length s)"
  shows "hexEncode (hexDecode s) = s"
  using assms
proof (induction s rule: hexDecode.induct)
  case (1 a b cs)
  have v: "(of_char (char_of (16 * hexVal a + hexVal b) :: char) :: nat) = 16 * hexVal a + hexVal b"
  proof -
    have "hexVal a < 16" "hexVal b < 16" using 1 by simp_all
    then have "16 * hexVal a + hexVal b < 256" by simp
    then show ?thesis by simp
  qed
  have "fromHexChar a = Some (hexVal a)" "fromHexChar b = Some (hexVal b)"
    using 1 by (simp_all add: fromHexChar_def)
  with 1 v show ?case by simp
qed auto

lemma hexDecode_length:
  "list_all isHexDigit s \<Longrightarrow> even (length s) \<Longrightarrow> length (hexDecode s) = length s div 2"
  by (metis hexEncode_hexDecode length_hexEncode nonzero_mult_div_cancel_left zero_neq_numeral)

lemma hexDecode_inj:
  assumes "validHex a (2 * n)" and "validHex b (2 * n)"
  shows "hexDecode a = hexDecode b \<longleftrightarrow> a = b"
  using assms by (metis validHex_def hexEncode_hexDecode dvd_triv_left)

subsection \<open>Big-endian integers\<close>

lemma length_be64 [simp]: "length (be64 x) = 8"
  by (simp add: be64_def)

definition of_be :: "bytes \<Rightarrow> nat" where
  "of_be b = foldl (\<lambda>v c. v * 256 + of_char c) 0 b"

lemma of_be_be64: "0 \<le> x \<Longrightarrow> x < 2 ^ 64 \<Longrightarrow> of_be (be64 x) = nat x"
proof -
  assume x: "0 \<le> x" "x < 2 ^ 64"
  define n where "n = nat x"
  have n: "n < 256 ^ 8" using x by (simp add: n_def nat_less_iff)
  have step: "m div 256 * 256 + m mod 256 = m" for m :: nat by simp
  have "n div 256 ^ 7 < 256" using n by (simp add: less_mult_imp_div_less)
  then have 7: "n div 72057594037927936 mod 256 = n div 72057594037927936" by simp
  have "of_be (be64 x) = n"
    using x 7 step [of n] step [of "n div 256"] step [of "n div 65536"] step [of "n div 16777216"]
      step [of "n div 4294967296"] step [of "n div 1099511627776"] step [of "n div 281474976710656"]
    by (simp add: be64_def of_be_def n_def [symmetric] upt_rec of_char_of div_mult2_eq [symmetric])
  then show ?thesis by (simp add: n_def)
qed

lemma be64_inj: "0 \<le> a \<Longrightarrow> a < 2 ^ 64 \<Longrightarrow> 0 \<le> b \<Longrightarrow> b < 2 ^ 64 \<Longrightarrow> be64 a = be64 b \<longleftrightarrow> a = b"
  by (metis of_be_be64 nat_eq_iff2 nat_0_le)

subsection \<open>The record hash input determines the record\<close>

lemma recordPreimage_inj:
  assumes "valid_rev r" "valid_rev r'"
    and "validHex i 32" "validHex i' 32" "validHex h 64" "validHex h' 64"
  shows "recordPreimage r i h e = recordPreimage r' i' h' e' \<longleftrightarrow> r = r' \<and> i = i' \<and> h = h' \<and> e = e'"
proof
  have len: "length (hexDecode i) = length (hexDecode i')" "length (hexDecode h) = length (hexDecode h')"
    using assms by (simp_all add: validHex_def hexDecode_length)
  assume "recordPreimage r i h e = recordPreimage r' i' h' e'"
  then have "be64 r = be64 r'" "hexDecode i = hexDecode i'" "hexDecode h = hexDecode h'" "e = e'"
    using len by (auto simp: recordPreimage_def)
  then show "r = r' \<and> i = i' \<and> h = h' \<and> e = e'"
    using assms be64_inj [of r r'] hexDecode_inj [of i 16 i'] hexDecode_inj [of h 32 h']
    by (simp add: bounds)
qed simp

lemma length_copyInto [simp]: "length (copyInto n b) = n"
  by (simp add: copyInto_def)

lemma copyInto_id [simp]: "length b = n \<Longrightarrow> copyInto n b = b"
  by (simp add: copyInto_def)

lemma validHex_digest [simp]: "validHex (digest lg b) 64"
  by (simp add: validHex_def digest_def sum256_def)

lemma validHex_recordHash [simp]: "validHex (recordHash lg r c p e) 64"
  by (simp add: validHex_def recordHash_def sum256_def)

end
