(* ===== verification/Memstore.thy ===== *)
theory Memstore
  imports StoreApi KeyFacts
begin

section \<open>The in-memory store (memstore/memstore.go)\<close>

text \<open>
  \<open>memstore.Store\<close> keeps a map of objects and a sorted slice of their keys. Its operations
  are modelled on a pair of the context's state (polled by a parameter \<open>pc\<close>) and the store's
  fields; the mutex makes each locked section one step. The invariant is that the slice is
  strictly sorted and holds exactly the map's keys, from which List, a binary search
  followed by a bounded walk, is shown to return the first keys of the prefix.
\<close>

subsection \<open>State and sources\<close>

record memstore =
  objects :: "string \<rightharpoonup> bytes"
  keys :: "string list"

text \<open>
  A \<open>SizeReaderAt\<close>: the size it reports, the bytes its reads deliver from offset zero, and
  the error that ends them if any.
\<close>

record source =
  src_size :: int
  src_data :: bytes
  src_err :: "goerr option"

definition bytes_source :: "bytes \<Rightarrow> source" where
  "bytes_source b = \<lparr>src_size = int (length b), src_data = b, src_err = None\<rparr>"

type_synonym 'c mst = "'c \<times> memstore"

definition onCtx :: "('c \<Rightarrow> goerr option \<times> 'c) \<Rightarrow> 'c mst \<Rightarrow> goerr option \<times> 'c mst" where
  "onCtx pc x = (case pc (fst x) of (e, c') \<Rightarrow> (e, (c', snd x)))"

subsection \<open>sort.Search\<close>

function searchLoop :: "(nat \<Rightarrow> bool) \<Rightarrow> nat \<Rightarrow> nat \<Rightarrow> nat" where
  "searchLoop f i j =
     (if i < j then
        (let h = (i + j) div 2 in if \<not> f h then searchLoop f (h + 1) j else searchLoop f i h)
      else i)"
  by pat_completeness auto
termination by (relation "measure (\<lambda>(f, i, j). j - i)") auto

declare searchLoop.simps [simp del]

definition searchStrings :: "string list \<Rightarrow> string \<Rightarrow> nat" where
  "searchStrings ks x = searchLoop (\<lambda>i. ks ! i \<ge> x) 0 (length ks)"

subsection \<open>Operations\<close>

text \<open>The loop of List over the keys from the found position on.\<close>

fun listLoop :: "string list \<Rightarrow> string \<Rightarrow> int \<Rightarrow> string list \<Rightarrow> string list" where
  "listLoop [] p limit acc = acc"
| "listLoop (k # ks) p limit acc =
     (if int (length acc) < limit \<and> hasPrefix k p then listLoop ks p limit (acc @ [k]) else acc)"

definition memList :: "('c \<Rightarrow> goerr option \<times> 'c) \<Rightarrow> string \<Rightarrow> int \<Rightarrow> ('c mst, string list) io" where
  "memList pc p limit =
     io_bind (io_check (onCtx pc)) (\<lambda>_.
     io_bind (io_lift (fail_if (limit \<le> 0) (Msg ''memstore: limit must be positive''))) (\<lambda>_.
     (\<lambda>(c, m). (Inr (listLoop (drop (searchStrings (keys m) p) (keys m)) p limit []), (c, m)))))"

text \<open>The reader of Get polls the context on each Read.\<close>

definition memReader :: "('c \<Rightarrow> goerr option \<times> 'c) \<Rightarrow> bytes \<Rightarrow> ('c mst, stream) io" where
  "memReader pc b =
     io_bind (io_poll (onCtx pc)) (\<lambda>e. case e of
       None \<Rightarrow> io_ret \<lparr>s_bytes = b, s_reads = 1, s_rerr = None, s_cerr = None\<rparr>
     | Some err \<Rightarrow> io_ret \<lparr>s_bytes = [], s_reads = 0, s_rerr = Some err, s_cerr = None\<rparr>)"

definition memGet :: "('c \<Rightarrow> goerr option \<times> 'c) \<Rightarrow> string \<Rightarrow> ('c mst, stream) io" where
  "memGet pc key =
     io_bind (io_check (onCtx pc)) (\<lambda>_.
     io_bind (\<lambda>x. (Inr (objects (snd x) key), x)) (\<lambda>r. case r of
       None \<Rightarrow> io_fail (Sentinel ErrNotFound)
     | Some b \<Rightarrow> memReader pc b))"

text \<open>\<open>append(keys, "")\<close>, \<open>copy(keys[i+1:], keys[i:])\<close>, \<open>keys[i] = key\<close>.\<close>

definition insertKey :: "string list \<Rightarrow> string \<Rightarrow> string list" where
  "insertKey ks key =
     (let i = searchStrings ks key;
          ks1 = ks @ [''''];
          ks2 = take (i + 1) ks1 @ take (length ks1 - (i + 1)) (drop i ks1)
      in ks2[i := key])"

definition memPut :: "string \<Rightarrow> bytes \<Rightarrow> 'c mst \<Rightarrow> goerr option \<times> 'c mst" where
  "memPut key b x =
     (case objects (snd x) key of
        Some _ \<Rightarrow> (Some (Sentinel ErrExists), x)
      | None \<Rightarrow>
          (None, (fst x, \<lparr>objects = (objects (snd x))(key \<mapsto> b), keys = insertKey (keys (snd x)) key\<rparr>)))"

text \<open>\<open>io.ReadAll\<close> of the section \<open>[0, size)\<close> of the source.\<close>

definition readSource :: "('c \<Rightarrow> goerr option \<times> 'c) \<Rightarrow> source \<Rightarrow> ('c mst, bytes) io" where
  "readSource pc v =
     io_bind (io_check (onCtx pc)) (\<lambda>_. case src_err v of
       Some e \<Rightarrow> io_fail e
     | None \<Rightarrow> io_ret (take (nat (src_size v)) (src_data v)))"

definition memCreate ::
  "('c \<Rightarrow> goerr option \<times> 'c) \<Rightarrow> string \<Rightarrow> source option \<Rightarrow> ('c mst, unit) io" where
  "memCreate pc key value =
     io_bind (io_check (onCtx pc)) (\<lambda>_. case value of
       None \<Rightarrow> io_fail (Msg ''memstore: invalid value size'')
     | Some v \<Rightarrow>
         io_bind (io_lift (fail_if (src_size v < 0) (Msg ''memstore: invalid value size''))) (\<lambda>_.
         io_bind (readSource pc v) (\<lambda>b.
         io_bind (io_lift (fail_if (int (length b) \<noteq> src_size v) (Sentinel UnexpectedEOF))) (\<lambda>_.
         io_bind (io_check (onCtx pc)) (\<lambda>_.
         io_bind (io_check (onCtx pc)) (\<lambda>_.
         io_check (memPut key b)))))))"

subsection \<open>The binary search\<close>

text \<open>\<open>r\<close> separates the indices of \<open>[i, j)\<close> where \<open>f\<close> fails from those where it holds.\<close>

definition cut :: "(nat \<Rightarrow> bool) \<Rightarrow> nat \<Rightarrow> nat \<Rightarrow> nat \<Rightarrow> bool" where
  "cut f i j r \<longleftrightarrow> i \<le> r \<and> r \<le> j \<and> (\<forall>k\<in>{i..<r}. \<not> f k) \<and> (\<forall>k\<in>{r..<j}. f k)"

lemma cut_left: "cut f i h r \<Longrightarrow> h \<le> j \<Longrightarrow> \<forall>k\<in>{h..<j}. f k \<Longrightarrow> cut f i j r"
  unfolding cut_def by (meson atLeastLessThan_iff le_trans not_le_imp_less)

lemma cut_right: "cut f (Suc h) j r \<Longrightarrow> i \<le> h \<Longrightarrow> \<forall>k\<in>{i..h}. \<not> f k \<Longrightarrow> cut f i j r"
  unfolding cut_def
  by (meson atLeastLessThan_iff atLeastAtMost_iff le_SucI le_trans not_less_eq_eq)

lemma searchLoop_cut:
  assumes "\<forall>a b. a \<le> b \<and> b < n \<and> f a \<longrightarrow> f b" and "i \<le> j" and "j \<le> n"
  shows "cut f i j (searchLoop f i j)"
  using assms
proof (induction f i j rule: searchLoop.induct)
  case (1 f i j)
  let ?h = "(i + j) div 2"
  show ?case
  proof (cases "i < j")
    case False
    then have "searchLoop f i j = i" by (subst searchLoop.simps) simp
    with False 1(4) show ?thesis by (simp add: cut_def)
  next
    case True
    then have h: "i \<le> ?h" "?h < j" by auto
    show ?thesis
    proof (cases "f ?h")
      case t: True
      have eq: "searchLoop f i j = searchLoop f i ?h"
        using True t searchLoop.simps [of f i j] by (simp only: Let_def if_True not_True_eq_False if_False)
      have "\<forall>k\<in>{?h..<j}. f k"
        using 1(3) t 1(5) by (meson atLeastLessThan_iff order_less_le_trans)
      moreover have "cut f i ?h (searchLoop f i ?h)"
        using 1(2) [OF True refl] t 1(3,5) h by simp
      ultimately show ?thesis
        unfolding eq using h(2) by (meson cut_left less_imp_le)
    next
      case f: False
      have eq: "searchLoop f i j = searchLoop f (?h + 1) j"
        using True f searchLoop.simps [of f i j] by (simp only: Let_def if_True not_False_eq_True)
      have "\<forall>k\<in>{i..?h}. \<not> f k"
        using 1(3) f h 1(5) by (meson atLeastAtMost_iff order_less_le_trans)
      moreover have "cut f (Suc ?h) j (searchLoop f (?h + 1) j)"
        using 1(1) [OF True refl] f 1(3,5) h by simp
      ultimately show ?thesis
        unfolding eq Suc_eq_plus1 [symmetric] using h(1) by (meson cut_right)
    qed
  qed
qed

lemma searchStrings_cut:
  assumes "sorted_wrt (<) ks"
  shows "cut (\<lambda>i. x \<le> ks ! i) 0 (length ks) (searchStrings ks x)"
proof -
  have "x \<le> ks ! b" if ab: "a \<le> b" "b < length ks" and x: "x \<le> ks ! a" for a b
  proof -
    have "ks ! a \<le> ks ! b"
    proof (cases "a = b")
      case False
      then have "ks ! a < ks ! b" using ab by (intro sorted_wrt_nth_less [OF assms]) auto
      then show ?thesis by (rule less_imp_le)
    qed simp
    with x show ?thesis by (rule order_trans)
  qed
  then show ?thesis
    unfolding searchStrings_def by (intro searchLoop_cut [of "length ks"]) blast+
qed

lemma searchStrings_spec:
  assumes "sorted_wrt (<) ks"
  shows "searchStrings ks x \<le> length ks"
    and "k \<in> set (take (searchStrings ks x) ks) \<Longrightarrow> k < x"
    and "k \<in> set (drop (searchStrings ks x) ks) \<Longrightarrow> x \<le> k"
proof -
  note c = searchStrings_cut [OF assms, of x, unfolded cut_def]
  show l: "searchStrings ks x \<le> length ks" using c by blast
  show "k < x" if "k \<in> set (take (searchStrings ks x) ks)"
  proof -
    from that obtain i where "k = ks ! i" "i < searchStrings ks x"
      by (auto simp: in_set_conv_nth)
    then show ?thesis using c by (metis atLeastLessThan_iff le0 not_le)
  qed
  show "x \<le> k" if "k \<in> set (drop (searchStrings ks x) ks)"
  proof -
    from that l obtain i where "k = ks ! (searchStrings ks x + i)" "searchStrings ks x + i < length ks"
      by (auto simp: in_set_conv_nth less_diff_conv add.commute)
    then show ?thesis using c by (metis atLeastLessThan_iff le_add1)
  qed
qed

subsection \<open>The invariant\<close>

definition mem_ok :: "memstore \<Rightarrow> bool" where
  "mem_ok m \<longleftrightarrow> sorted_wrt (<) (keys m) \<and> set (keys m) = dom (objects m)"

lemma insertKey_eq:
  assumes "searchStrings ks key \<le> length ks"
  shows "insertKey ks key = take (searchStrings ks key) ks @ key # drop (searchStrings ks key) ks"
proof -
  define as bs where "as = take (searchStrings ks key) ks" and "bs = drop (searchStrings ks key) ks"
  have ks: "ks = as @ bs" and i: "searchStrings (as @ bs) key = length as"
    using assms by (simp_all add: as_def bs_def)
  have "insertKey (as @ bs) key = as @ key # bs"
    unfolding insertKey_def Let_def i by (cases bs) simp_all
  then show ?thesis by (simp add: as_def bs_def)
qed

lemma insertKey_sorted:
  assumes "sorted_wrt (<) ks" and "key \<notin> set ks"
  shows "sorted_wrt (<) (insertKey ks key)" and "set (insertKey ks key) = insert key (set ks)"
proof -
  let ?i = "searchStrings ks key"
  note s = searchStrings_spec [OF assms(1), where x = key]
  note eq = insertKey_eq [OF s(1)]
  have ks: "ks = take ?i ks @ drop ?i ks" by simp
  have app: "sorted_wrt (<) (take ?i ks @ drop ?i ks)" using assms(1) by simp
  show "set (insertKey ks key) = insert key (set ks)"
    unfolding eq by (subst (5) ks) (auto simp del: append_take_drop_id)
  have "key < k" if "k \<in> set (drop ?i ks)" for k
    using s(3) [OF that] that assms(2) by (metis in_set_dropD order_le_less)
  then show "sorted_wrt (<) (insertKey ks key)"
    using app s(2) unfolding eq sorted_wrt_append by force
qed

lemma memPut_ok: "mem_ok (snd x) \<Longrightarrow> mem_ok (snd (snd (memPut key b x)))"
  using insertKey_sorted [of "keys (snd x)" key]
  by (auto simp: memPut_def mem_ok_def dom_def split: option.splits)

subsection \<open>Listing\<close>

lemma listLoop_eq:
  "listLoop ks p limit acc =
     acc @ take (nat (limit - int (length acc))) (takeWhile (\<lambda>k. hasPrefix k p) ks)"
proof (induction ks arbitrary: acc)
  case (Cons k ks)
  show ?case
  proof (cases "int (length acc) < limit \<and> hasPrefix k p")
    case True
    then have "nat (limit - int (length acc)) = Suc (nat (limit - int (length (acc @ [k]))))"
      by auto
    then show ?thesis using True Cons.IH [of "acc @ [k]"] by simp
  next
    case False
    then show ?thesis by auto
  qed
qed simp

lemma hasPrefix_le: "hasPrefix k p \<Longrightarrow> p \<le> k"
  by (auto elim!: hasPrefixE simp: list_le_def list_less_def intro: lexord_append_rightI neq_Nil_conv [THEN iffD1])

text \<open>The keys with a prefix are contiguous in the order, so the walk may stop at the first other one.\<close>

lemma take_mono_lex: "(a::string) \<le> b \<Longrightarrow> take n a \<le> take n b"
proof (induction n arbitrary: a b)
  case (Suc n)
  show ?case
  proof (cases a)
    case (Cons x xs)
    with Suc.prems obtain y ys where "b = y # ys" by (cases b) auto
    with Cons Suc show ?thesis by auto
  qed simp
qed simp

lemma hasPrefix_between:
  assumes "p \<le> k" and "k \<le> k'" and "hasPrefix k' p"
  shows "hasPrefix k p"
  using take_mono_lex [OF assms(1), of "length p"] take_mono_lex [OF assms(2), of "length p"] assms(3)
  by (auto simp: hasPrefix_def)

lemma takeWhile_prefix:
  assumes "sorted_wrt (<) ks" and "\<forall>k\<in>set ks. p \<le> k"
  shows "takeWhile (\<lambda>k. hasPrefix k p) ks = filter (\<lambda>k. hasPrefix k p) ks"
  using assms
proof (induction ks)
  case (Cons k ks)
  have "\<not> hasPrefix k' p" if "\<not> hasPrefix k p" "k' \<in> set ks" for k'
    using hasPrefix_between [of p k k'] Cons.prems that by (auto dest: less_imp_le)
  then have "\<not> hasPrefix k p \<Longrightarrow> filter (\<lambda>k. hasPrefix k p) ks = []"
    by (auto simp: filter_empty_conv)
  with Cons show ?case by auto
qed simp

lemma list_keys_eq:
  assumes "sorted_wrt (<) ks"
  shows "listLoop (drop (searchStrings ks p) ks) p limit [] =
    take (nat limit) (filter (\<lambda>k. hasPrefix k p) ks)"
proof -
  let ?i = "searchStrings ks p"
  have "filter (\<lambda>k. hasPrefix k p) (take ?i ks) = []"
    using searchStrings_spec(2) [OF assms, of _ p] hasPrefix_le
    by (fastforce simp: filter_empty_conv)
  moreover have "takeWhile (\<lambda>k. hasPrefix k p) (drop ?i ks) = filter (\<lambda>k. hasPrefix k p) (drop ?i ks)"
    using assms searchStrings_spec(3) [OF assms, of _ p]
    by (intro takeWhile_prefix) (auto simp: sorted_wrt_drop)
  ultimately have "filter (\<lambda>k. hasPrefix k p) ks = takeWhile (\<lambda>k. hasPrefix k p) (drop ?i ks)"
    by (metis append_self_conv2 append_take_drop_id filter_append)
  then show ?thesis by (simp add: listLoop_eq)
qed

lemma sorted_wrt_take_less:
  assumes "sorted_wrt (<) (ks :: 'a::order list)" and "k \<in> set ks" and "k \<notin> set (take n ks)"
  shows "length (take n ks) = n" and "\<forall>k'\<in>set (take n ks). k' < k"
proof -
  have in_drop: "k \<in> set (drop n ks)"
    using assms(2,3) by (metis Un_iff append_take_drop_id set_append)
  show "length (take n ks) = n" using in_drop by (cases "n \<le> length ks") auto
  have "sorted_wrt (<) (take n ks @ drop n ks)" using assms(1) by simp
  then show "\<forall>k'\<in>set (take n ks). k' < k" using in_drop unfolding sorted_wrt_append by blast
qed

lemma first_keys_listing:
  assumes "sorted_wrt (<) ks" and "set ks = dom m" and "0 < n"
  shows "is_listing p n m m (take (nat n) (filter (\<lambda>k. hasPrefix k p) ks))"
proof -
  let ?fs = "filter (\<lambda>k. hasPrefix k p) ks"
  have s: "sorted_wrt (<) ?fs" using assms(1) by (rule sorted_wrt_filter)
  have "k \<in> set (take (nat n) ?fs) \<or>
      int (length (take (nat n) ?fs)) = n \<and> (\<forall>k'\<in>set (take (nat n) ?fs). k' < k)"
    if "k \<in> dom m" "hasPrefix k p" for k
    using sorted_wrt_take_less [OF s, of k "nat n"] that assms(2,3) by force
  then show ?thesis
    using assms(2,3) s unfolding is_listing_def
    by (auto dest: in_set_takeD simp: sorted_wrt_take)
qed

end
