(* ===== verification/MemWorld.thy ===== *)
theory MemWorld
  imports Memstore
begin

section \<open>The in-memory store as a world\<close>

text \<open>
  The world the library runs in when its store is \<open>memstore.Store\<close>: the context may be
  cancelled after some number of polls, other handles may create objects before any store
  call, the reply of a call may be lost after it took effect, and the disk may be full.
  A schedule in the state decides which; every schedule satisfies the Store contract.
\<close>

datatype env_event = Quiet | Other string bytes | LostReply

record env =
  ctx_left :: "nat option"
  events :: "env_event list"
  rng :: nat
  disk_left :: "nat option"

type_synonym mem_state = "env \<times> memstore"

definition env_ctx :: "env \<Rightarrow> goerr option \<times> env" where
  "env_ctx e =
     (case ctx_left e of
        None \<Rightarrow> (None, e)
      | Some 0 \<Rightarrow> (Some (Sentinel Canceled), e)
      | Some (Suc n) \<Rightarrow> (None, e\<lparr>ctx_left := Some n\<rparr>))"

text \<open>One turn of the environment; the flag says that the reply of the call is lost.\<close>

definition env_turn :: "mem_state \<Rightarrow> bool \<times> mem_state" where
  "env_turn x =
     (case events (fst x) of
        [] \<Rightarrow> (False, x)
      | ev # evs \<Rightarrow>
          (let x1 = ((fst x)\<lparr>events := evs\<rparr>, snd x) in
           case ev of
             Quiet \<Rightarrow> (False, x1)
           | Other k v \<Rightarrow> (False, snd (memPut k v x1))
           | LostReply \<Rightarrow> (True, x1)))"

definition lost_reply :: goerr where
  "lost_reply = Msg ''connection reset''"

definition lossy :: "(mem_state, 'r) io \<Rightarrow> (mem_state, 'r) io" where
  "lossy m x =
     (case env_turn x of (lost, x1) \<Rightarrow>
        (case m x1 of (r, x2) \<Rightarrow> ((if lost then Inl lost_reply else r), x2)))"

definition err_of :: "goerr + unit \<Rightarrow> goerr option" where
  "err_of r = (case r of Inl e \<Rightarrow> Some e | Inr _ \<Rightarrow> None)"

definition mem_create :: "string \<Rightarrow> bytes \<Rightarrow> mem_state \<Rightarrow> goerr option \<times> mem_state" where
  "mem_create k v x =
     (case lossy (memCreate env_ctx k (Some (bytes_source v))) x of (r, x') \<Rightarrow> (err_of r, x'))"

definition mem_rand :: "nat \<Rightarrow> (mem_state, bytes) io" where
  "mem_rand n x =
     (Inr (take n (rev (be64 (int (rng (fst x)))) @ replicate n (CHR 0x00))),
      ((fst x)\<lparr>rng := Suc (rng (fst x))\<rparr>, snd x))"

definition mem_tmp :: "string \<Rightarrow> mem_state \<Rightarrow> goerr option \<times> mem_state" where
  "mem_tmp q x =
     (case disk_left (fst x) of
        None \<Rightarrow> (None, x)
      | Some 0 \<Rightarrow> (Some (Msg ''no space left on device''), x)
      | Some (Suc n) \<Rightarrow> (None, ((fst x)\<lparr>disk_left := Some n\<rparr>, snd x)))"

definition mem_world :: "mem_state world" where
  "mem_world =
     \<lparr>w_ctx = onCtx env_ctx, w_list = (\<lambda>p n. lossy (memList env_ctx p n)),
      w_get = (\<lambda>k. lossy (memGet env_ctx k)), w_create = mem_create,
      w_rand = mem_rand, w_tmp = mem_tmp, w_windows = False\<rparr>"

definition mem_objs :: "mem_state \<Rightarrow> string \<rightharpoonup> bytes" where
  "mem_objs x = objects (snd x)"

definition mem_good :: "mem_state \<Rightarrow> bool" where
  "mem_good x = mem_ok (snd x)"

text \<open>The empty store, nothing scheduled.\<close>

definition calm :: env where
  "calm = \<lparr>ctx_left = None, events = [], rng = 0, disk_left = None\<rparr>"

definition mem_empty :: mem_state where
  "mem_empty = (calm, \<lparr>objects = Map.empty, keys = []\<rparr>)"

lemma mem_good_empty [simp]: "mem_good mem_empty"
  by (simp add: mem_good_def mem_ok_def mem_empty_def)

subsection \<open>Each operation only adds objects\<close>

abbreviation mgrows :: "mem_state \<Rightarrow> mem_state \<Rightarrow> bool" where
  "mgrows \<equiv> grows mem_objs mem_good"

lemma mgrows_same: "snd x' = snd x \<Longrightarrow> mgrows x x'"
  by (simp add: grows_def mem_objs_def mem_good_def)

interpretation mgrow: state_preorder mgrows
  by unfold_locales (auto simp: grows_def intro: map_le_trans)

text \<open>Reading operations leave the store alone.\<close>

interpretation same: state_preorder "\<lambda>x x'. snd x' = snd x"
  by unfold_locales auto

lemma onCtx_state: "onCtx pc x = (e, x') \<Longrightarrow> snd x' = snd x"
  by (auto simp: onCtx_def split: prod.splits)

lemma onCtx_ok: "onCtx env_ctx x = (None, x') \<Longrightarrow> snd x' = snd x"
  by (rule onCtx_state)

lemma onCtx_err: "onCtx env_ctx x = (Some e, x') \<Longrightarrow> e = Sentinel Canceled \<and> snd x' = snd x"
  by (auto simp: onCtx_def env_ctx_def split: prod.splits option.splits nat.splits)

lemma memPut_grows: "mgrows x (snd (memPut k v x))"
  unfolding grows_def mem_objs_def mem_good_def
  by (auto simp: memPut_ok) (auto simp: memPut_def map_le_def dom_def split: option.splits)

lemma env_turn_grows: "env_turn x = (b, x') \<Longrightarrow> mgrows x x'"
proof (cases "events (fst x)")
  case Nil
  then show "env_turn x = (b, x') \<Longrightarrow> mgrows x x'"
    by (auto simp: env_turn_def mgrow.R_refl)
next
  case (Cons ev evs)
  let ?x1 = "((fst x)\<lparr>events := evs\<rparr>, snd x)"
  have x1: "mgrows x ?x1" by (rule mgrows_same) simp
  assume "env_turn x = (b, x')"
  with Cons consider "x' = ?x1" | k v where "x' = snd (memPut k v ?x1)"
    by (cases ev) (auto simp: env_turn_def)
  then show "mgrows x x'"
    using x1 memPut_grows mgrow.R_trans by cases blast+
qed

lemma lossy_grows:
  assumes "\<And>x r x'. m x = (r, x') \<Longrightarrow> mgrows x x'" and "lossy m x = (r, x')"
  shows "mgrows x x'"
proof -
  obtain lost x1 where t: "env_turn x = (lost, x1)" by (cases "env_turn x")
  obtain r' x2 where m: "m x1 = (r', x2)" by (cases "m x1")
  have "x' = x2" using assms(2) t m by (simp add: lossy_def)
  then show ?thesis using env_turn_grows [OF t] assms(1) [OF m] mgrow.R_trans by blast
qed

lemma lossy_Inr:
  assumes "lossy m x = (Inr v, x')"
  obtains x1 where "env_turn x = (False, x1)" and "m x1 = (Inr v, x')"
  using assms by (auto simp: lossy_def split: prod.splits if_splits)

lemma lossy_Inl:
  assumes "lossy m x = (Inl e, x')"
  obtains "e = lost_reply" | x1 where "env_turn x = (False, x1)" and "m x1 = (Inl e, x')"
  using assms by (auto simp: lossy_def split: prod.splits if_splits)

lemma same_check: "io_rel (\<lambda>x x'. snd x' = snd x) (io_check (onCtx pc))"
  by (intro same.rel_check onCtx_state)

lemma same_poll: "io_rel (\<lambda>x x'. snd x' = snd x) (io_poll (onCtx pc))"
  by (rule io_relI) (metis io_poll_eq_iff onCtx_state)

lemma memList_state: "memList pc p n x = (r, x') \<Longrightarrow> snd x' = snd x"
  unfolding memList_def
  by (erule io_relD [rotated], intro same.rel_bind same_check same.rel_lift)
     (auto intro!: io_relI)

lemma memReader_state: "memReader pc b x = (r, x') \<Longrightarrow> snd x' = snd x"
  unfolding memReader_def
  by (erule io_relD [rotated], intro same.rel_bind same.rel_option same.rel_ret same_poll)

lemma memGet_state: "memGet pc k x = (r, x') \<Longrightarrow> snd x' = snd x"
  unfolding memGet_def
  by (erule io_relD [rotated], intro same.rel_bind same_check same.rel_option same.rel_fail)
     (auto intro!: io_relI dest: memReader_state)

lemma memCreate_cases:
  assumes "memCreate env_ctx k (Some (bytes_source v)) x = (r, x')"
  obtains "snd x' = snd x" and "r = Inl (Sentinel Canceled)"
    | x1 where "snd x1 = snd x" and "memPut k v x1 = (err_of r, x')"
  using assms
  by (cases r)
     (auto simp: memCreate_def readSource_def bytes_source_def err_of_def
        io_bind_eq_Inr_iff io_bind_eq_Inl_iff dest!: onCtx_ok onCtx_err)

lemma memCreate_grows:
  "memCreate env_ctx k (Some (bytes_source v)) x = (r, x') \<Longrightarrow> mgrows x x'"
  by (erule memCreate_cases) (metis mgrows_same memPut_grows mgrow.R_trans snd_conv)+

subsection \<open>The contract holds\<close>

lemma mem_get_Inr:
  assumes "memGet pc k x = (Inr st, x')" and "s_rerr st = None"
  shows "objects (snd x) k = Some (s_bytes st)"
  using assms
  by (auto simp: memGet_def memReader_def io_bind_eq_Inr_iff split: option.splits dest!: onCtx_state)

lemma mem_get_Inl:
  assumes "memGet env_ctx k x = (Inl e, x')" and "errors_is e ErrNotFound"
  shows "objects (snd x) k = None"
  using assms
  by (auto simp: memGet_def memReader_def io_bind_eq_Inl_iff split: option.splits
      dest!: onCtx_ok onCtx_err)

lemma mem_list_Inr:
  assumes "memList pc p n x = (Inr ks, x')" and "mem_ok (snd x)"
  shows "is_listing p n (objects (snd x)) (objects (snd x)) ks"
  using assms first_keys_listing [of "keys (snd x)" "objects (snd x)" n p]
  by (auto simp: memList_def io_bind_eq_Inr_iff mem_ok_def list_keys_eq dest!: onCtx_state)

lemma is_listing_earlier: "is_listing p n m m' ks \<Longrightarrow> m0 \<subseteq>\<^sub>m m \<Longrightarrow> is_listing p n m0 m' ks"
  using map_le_implies_dom_le [of m0 m] unfolding is_listing_def by blast

interpretation mem: object_store mem_world mem_objs mem_good
proof unfold_locales
  show "mgrows s s'" if "w_ctx mem_world s = (ce, s')" for s ce s'
    using that by (auto simp: mem_world_def dest: onCtx_state intro: mgrows_same)
  show "mgrows s s'" if "w_list mem_world p n s = (lr, s')" for p n s lr s'
    using that memList_state [of env_ctx p n]
    by (auto simp: mem_world_def intro!: mgrows_same elim!: lossy_grows [rotated])
  show "mgrows s s'" if "w_get mem_world k s = (gr, s')" for k s gr s'
    using that memGet_state [of env_ctx k]
    by (auto simp: mem_world_def intro!: mgrows_same elim!: lossy_grows [rotated])
  show "mgrows s s'" if "w_create mem_world k v s = (ce, s')" for k v s ce s'
    using that memCreate_grows [of k v]
    by (auto simp: mem_world_def mem_create_def split: prod.splits elim!: lossy_grows [rotated])
  show "mgrows s s'" if "w_rand mem_world m s = (rr, s')" for m s rr s'
    using that by (auto simp: mem_world_def mem_rand_def intro: mgrows_same)
  show "mgrows s s'" if "w_tmp mem_world q s = (ce, s')" for q s ce s'
    using that by (auto simp: mem_world_def mem_tmp_def intro: mgrows_same split: option.splits nat.splits)
next
  fix p n s ks s'
  assume l: "w_list mem_world p n s = (Inr ks, s')" and g: "mem_good s"
  from l obtain x1 where t: "env_turn s = (False, x1)" and m: "memList env_ctx p n x1 = (Inr ks, s')"
    by (auto simp: mem_world_def elim: lossy_Inr)
  have "mem_ok (snd x1)" "mem_objs s \<subseteq>\<^sub>m mem_objs x1"
    using env_turn_grows [OF t] g by (auto simp: grows_def mem_good_def)
  then show "is_listing p n (mem_objs s) (mem_objs s') ks"
    using mem_list_Inr [OF m] memList_state [OF m] is_listing_earlier by (simp add: mem_objs_def)
next
  fix k s st s'
  assume get: "w_get mem_world k s = (Inr st, s')" and ok: "s_rerr st = None"
  from get obtain x1 where m: "memGet env_ctx k x1 = (Inr st, s')"
    by (auto simp: mem_world_def elim: lossy_Inr)
  show "mem_objs s' k = Some (s_bytes st)"
    using mem_get_Inr [OF m ok] memGet_state [OF m] by (simp add: mem_objs_def)
next
  fix k s e s'
  assume get: "w_get mem_world k s = (Inl e, s')" and "mem_good s" and e: "errors_is e ErrNotFound"
  from get e obtain x1 where t: "env_turn s = (False, x1)" and m: "memGet env_ctx k x1 = (Inl e, s')"
    by (auto simp: mem_world_def lost_reply_def elim: lossy_Inl)
  have "mem_objs s \<subseteq>\<^sub>m mem_objs x1"
    using env_turn_grows [OF t] \<open>mem_good s\<close> by (simp add: grows_def)
  then show "mem_objs s k = None"
    using mem_get_Inl [OF m e] by (force simp: mem_objs_def map_le_def dom_def)
next
  fix k v s s'
  assume c: "w_create mem_world k v s = (None, s')" and g: "mem_good s"
  from c obtain x1 where t: "env_turn s = (False, x1)"
      and m: "memCreate env_ctx k (Some (bytes_source v)) x1 = (Inr (), s')"
    by (auto simp: mem_world_def mem_create_def err_of_def split: prod.splits sum.splits elim!: lossy_Inr)
  have le: "mem_objs s \<subseteq>\<^sub>m mem_objs x1"
    using env_turn_grows [OF t] g by (simp add: grows_def)
  from m obtain x2 where "snd x2 = snd x1" "memPut k v x2 = (None, s')"
    by (auto elim!: memCreate_cases simp: err_of_def)
  then have "mem_objs x1 k = None" "mem_objs s' k = Some v"
    by (auto simp: memPut_def mem_objs_def split: option.splits)
  then show "mem_objs s k = None \<and> mem_objs s' k = Some v"
    using le by (force simp: map_le_def dom_def)
next
  fix k v s e s'
  assume c: "w_create mem_world k v s = (Some e, s')" and e: "errors_is e ErrExists"
  from c e obtain x1 where m: "memCreate env_ctx k (Some (bytes_source v)) x1 = (Inl e, s')"
    by (auto simp: mem_world_def mem_create_def err_of_def lost_reply_def
        split: prod.splits sum.splits elim!: lossy_Inl)
  from m e obtain x2 where "memPut k v x2 = (Some e, s')"
    by (auto elim!: memCreate_cases simp: err_of_def)
  then show "mem_objs s' k \<noteq> None"
    by (auto simp: memPut_def mem_objs_def split: option.splits)
qed

subsection \<open>Nothing scheduled\<close>

text \<open>
  In a quiet state no call fails for a reason of the environment, so each operation is the
  store's own function.
\<close>

definition quiet :: "mem_state \<Rightarrow> bool" where
  "quiet x \<longleftrightarrow> ctx_left (fst x) = None \<and> events (fst x) = [] \<and> disk_left (fst x) = None"

lemma quiet_ctx: "quiet x \<Longrightarrow> w_ctx mem_world x = (None, x)"
  by (cases x) (simp add: quiet_def mem_world_def onCtx_def env_ctx_def)

lemma quiet_onCtx: "quiet x \<Longrightarrow> onCtx env_ctx x = (None, x)"
  using quiet_ctx by (simp add: mem_world_def)

lemma quiet_tmp: "quiet x \<Longrightarrow> w_tmp mem_world q x = (None, x)"
  by (simp add: quiet_def mem_world_def mem_tmp_def)

lemma quiet_lossy: "quiet x \<Longrightarrow> lossy m x = m x"
  by (cases "m x") (simp add: quiet_def lossy_def env_turn_def)

lemma quiet_get:
  "quiet x \<Longrightarrow> w_get mem_world k x =
     (case objects (snd x) k of
        None \<Rightarrow> (Inl (Sentinel ErrNotFound), x)
      | Some b \<Rightarrow> (Inr \<lparr>s_bytes = b, s_reads = 1, s_rerr = None, s_cerr = None\<rparr>, x))"
  by (auto simp: mem_world_def quiet_lossy memGet_def memReader_def io_bind_def io_check_def io_poll_def
      quiet_onCtx split: option.splits)

lemma quiet_list:
  "quiet x \<Longrightarrow> mem_ok (snd x) \<Longrightarrow> 0 < n \<Longrightarrow> w_list mem_world p n x =
     (Inr (take (nat n) (filter (\<lambda>k. hasPrefix k p) (keys (snd x)))), x)"
  by (cases x) (auto simp: mem_world_def quiet_lossy memList_def io_bind_def io_check_def fail_if_def
      quiet_onCtx mem_ok_def list_keys_eq)

lemma quiet_create:
  "quiet x \<Longrightarrow> w_create mem_world k v x = memPut k v x"
  by (cases "memPut k v x"; cases "fst (memPut k v x)")
     (auto simp: mem_world_def mem_create_def quiet_lossy memCreate_def readSource_def bytes_source_def
        io_bind_def io_check_def fail_if_def quiet_onCtx err_of_def)

lemma quiet_rand:
  "w_rand mem_world n x =
     (Inr (take n (rev (be64 (int (rng (fst x)))) @ replicate n (CHR 0x00))),
      ((fst x)\<lparr>rng := Suc (rng (fst x))\<rparr>, snd x))"
  by (simp add: mem_world_def mem_rand_def)

lemma quiet_rng [simp]: "quiet ((fst x)\<lparr>rng := n\<rparr>, m) \<longleftrightarrow> quiet x"
  by (simp add: quiet_def)

lemma quiet_env [simp]: "quiet (fst x, m) \<longleftrightarrow> quiet x"
  by (simp add: quiet_def)

end
