(* ===== verification/Frontier.thy ===== *)
theory Frontier
  imports KeyFacts
begin

section \<open>The radix-16 frontier: what validation establishes\<close>

text \<open>
  \<open>validateRef\<close> and \<open>validateFrontier\<close> (wire.go) characterised without machine arithmetic:
  a frontier passes exactly when it is the canonical sparse form of sixteen levels whose
  reference counts are the hexadecimal digits of the number of preceding records and whose
  references, read from the highest level down, tile the preceding revisions and link their
  boundary hashes. The executable checks and this description are proved equivalent, and
  everything later about frontiers is proved on the description.
\<close>

subsection \<open>References\<close>

lemma power16_bounds:
  assumes "l \<le> 15"
  shows "1 \<le> (16::int) ^ l" and "(16::int) ^ l \<le> 2 ^ 60"
proof -
  show "1 \<le> (16::int) ^ l" by simp
  have "(16::int) ^ l \<le> 16 ^ 15" using assms by (intro power_increasing) simp_all
  then show "(16::int) ^ l \<le> 2 ^ 60" by simp
qed

lemma levelSize_eq:
  assumes "l \<le> 15"
  shows "levelSize l = 16 ^ l"
proof -
  have "push_bit (4 * l) (1::int) = 16 ^ l"
    by (simp add: push_bit_eq_mult power_mult)
  moreover have "i64 (16 ^ l) = 16 ^ l"
  proof (rule i64_id)
    have "(16::int) ^ l \<le> 2 ^ 62" using power16_bounds(2) [OF assms] by simp
    then show "in_i64 (16 ^ l)" by (intro in_i64I) simp_all
  qed
  ultimately show ?thesis using assms by (simp add: levelSize_def)
qed

text \<open>The hash and key part of the check.\<close>

definition ref_fields_ok :: "'a log \<Rightarrow> objectRef \<Rightarrow> int \<Rightarrow> bool" where
  "ref_fields_ok lg ref start \<longleftrightarrow>
     validHex (SHA256 ref) 64 \<and> validHex (FirstPrevHash ref) 64 \<and> validHex (LastRecordHash ref) 64 \<and>
     Key ref = (if Level ref = 0 then logKey lg start else treeKey lg ref)"

lemma validateRef_iff:
  "validateRef lg ref = Inr (s, e) \<longleftrightarrow>
     Level ref \<le> 15 \<and> 1 \<le> s \<and> 16 ^ Level ref dvd s - 1 \<and> e = s + 16 ^ Level ref - 1 \<and>
     e \<le> MaxRevision \<and> Start ref = hexRevision s \<and> End ref = hexRevision e \<and>
     ref_fields_ok lg ref s"
  (is "?L \<longleftrightarrow> ?R")
proof (cases "Level ref \<le> 15")
  case False
  then show ?thesis by (simp add: validateRef_def ebind_eq_Inr_iff)
next
  case True
  define q :: int where "q = 16 ^ Level ref"
  have q: "1 \<le> q" "q \<le> 2 ^ 60" using power16_bounds [OF True] by (simp_all add: q_def)
  have sz: "levelSize (Level ref) = q" using True by (simp add: q_def levelSize_eq)
  have q1: "i64 (q - 1) = q - 1" using q by (intro i64_id) (simp add: in_i64_def)
  have q2: "i64 (MaxRevision - (q - 1)) = MaxRevision - (q - 1)"
    using q by (intro i64_id) (simp add: in_i64_def bounds)
  have s1: "i64 (s - 1) = s - 1" "i64 (s + (q - 1)) = s + (q - 1)" if "valid_rev s"
    using that q by (intro i64_id; simp add: in_i64_def bounds)+
  have L: "?L \<longleftrightarrow> valid_rev s \<and> Start ref = hexRevision s \<and> valid_rev e \<and> End ref = hexRevision e \<and>
      (s - 1) mod q = 0 \<and> s \<le> MaxRevision - (q - 1) \<and>
      e = s + (q - 1) \<and> ref_fields_ok lg ref s"
    using True by (auto simp: validateRef_def Let_def ebind_eq_Inr_iff parseRevision_iff
        ref_fields_ok_def sz q1 q2 s1)
  have R: "?R \<longleftrightarrow> 1 \<le> s \<and> q dvd s - 1 \<and> e = s + q - 1 \<and> e \<le> MaxRevision \<and>
      Start ref = hexRevision s \<and> End ref = hexRevision e \<and> ref_fields_ok lg ref s"
    using True by (simp add: q_def)
  have "valid_rev s \<and> valid_rev e \<and> s \<le> MaxRevision - (q - 1) \<and> e = s + (q - 1) \<longleftrightarrow>
      1 \<le> s \<and> e = s + q - 1 \<and> e \<le> MaxRevision"
    using q by auto
  then show ?thesis unfolding L R mod_eq_0_iff_dvd by blast
qed

text \<open>A passed check gives a start and end; a failed one is corruption.\<close>

lemma validateRef_Inl: "validateRef lg ref = Inl e \<Longrightarrow> errors_is e ErrCorrupt"
  by (auto simp: validateRef_def Let_def ebind_eq_Inl_iff parseRevision_Inl)

lemma validateRef_facts:
  assumes "validateRef lg ref = Inr (s, e)"
  shows "Level ref \<le> 15" "valid_rev s" "valid_rev e" "s \<le> e" "e = s + 16 ^ Level ref - 1"
    "16 ^ Level ref dvd s - 1" "Start ref = hexRevision s" "End ref = hexRevision e"
    "ref_fields_ok lg ref s"
proof -
  from assms have *: "Level ref \<le> 15" "1 \<le> s" "16 ^ Level ref dvd s - 1"
    "e = s + 16 ^ Level ref - 1" "e \<le> MaxRevision" "Start ref = hexRevision s"
    "End ref = hexRevision e" "ref_fields_ok lg ref s"
    by (simp_all add: validateRef_iff)
  moreover have "(1::int) \<le> 16 ^ Level ref" by simp
  ultimately show "Level ref \<le> 15" "valid_rev s" "valid_rev e" "s \<le> e"
    "e = s + 16 ^ Level ref - 1" "16 ^ Level ref dvd s - 1" "Start ref = hexRevision s"
    "End ref = hexRevision e" "ref_fields_ok lg ref s"
    by linarith+
qed

subsection \<open>Chains of references\<close>

text \<open>
  \<open>chained lg refs (n, h) (n', h')\<close>: the references are valid, the first starts at revision
  \<open>n\<close> after a record with hash \<open>h\<close>, each continues its predecessor, and the last ends just
  before \<open>n'\<close> with record hash \<open>h'\<close>.
\<close>

fun chained :: "'a log \<Rightarrow> objectRef list \<Rightarrow> int \<times> string \<Rightarrow> int \<times> string \<Rightarrow> bool" where
  "chained lg [] a b \<longleftrightarrow> a = b"
| "chained lg (ref # refs) a b \<longleftrightarrow>
     (case validateRef lg ref of
        Inl _ \<Rightarrow> False
      | Inr (s, e) \<Rightarrow> s = fst a \<and> FirstPrevHash ref = snd a \<and>
                     chained lg refs (e + 1, LastRecordHash ref) b)"

lemma chained_Cons_iff:
  "chained lg (ref # refs) a b \<longleftrightarrow>
     (\<exists>e. validateRef lg ref = Inr (fst a, e) \<and> FirstPrevHash ref = snd a \<and>
          chained lg refs (e + 1, LastRecordHash ref) b)"
  by (auto split: sum.splits)

declare chained.simps(2) [simp del]

lemma chained_append:
  "chained lg (xs @ ys) a c \<longleftrightarrow> (\<exists>b. chained lg xs a b \<and> chained lg ys b c)"
  by (induction xs arbitrary: a) (auto simp: chained_Cons_iff)

lemma chained_det: "chained lg xs a b \<Longrightarrow> chained lg xs a b' \<Longrightarrow> b = b'"
  by (induction xs arbitrary: a) (auto simp: chained_Cons_iff)

lemma chained_le: "chained lg xs a b \<Longrightarrow> fst a \<le> fst b"
proof (induction xs arbitrary: a)
  case (Cons x xs)
  then obtain e where "validateRef lg x = Inr (fst a, e)" and "e + 1 \<le> fst b"
    by (fastforce simp: chained_Cons_iff)
  with validateRef_facts(4) show ?case by fastforce
qed simp

lemma chained_end_less:
  "chained lg xs a b \<Longrightarrow> x \<in> set xs \<Longrightarrow> validateRef lg x = Inr (s, e) \<Longrightarrow> fst a \<le> s \<and> e < fst b"
proof (induction xs arbitrary: a)
  case (Cons y ys)
  then obtain e' where y: "validateRef lg y = Inr (fst a, e')"
    and ys: "chained lg ys (e' + 1, LastRecordHash y) b"
    by (auto simp: chained_Cons_iff)
  show ?case
  proof (cases "x = y")
    case True
    with y Cons.prems(3) have "s = fst a" "e = e'" by simp_all
    with chained_le [OF ys] show ?thesis by simp
  next
    case False
    with Cons.prems have "x \<in> set ys" by simp
    from Cons.IH [OF ys this Cons.prems(3)] validateRef_facts(4) [OF y] show ?thesis by simp
  qed
qed simp

lemma chained_valid: "chained lg xs a b \<Longrightarrow> x \<in> set xs \<Longrightarrow> \<exists>s e. validateRef lg x = Inr (s, e)"
  by (induction xs arbitrary: a) (auto simp: chained_Cons_iff)

text \<open>The boundaries of a nonempty chain are those of its first and last references.\<close>

lemma chained_ends:
  assumes "chained lg xs a b" and "xs \<noteq> []"
  obtains s e s' e' where "validateRef lg (hd xs) = Inr (s, e)" and "validateRef lg (last xs) = Inr (s', e')"
    and "a = (s, FirstPrevHash (hd xs))" and "b = (e' + 1, LastRecordHash (last xs))"
proof -
  have "\<exists>s e s' e'. validateRef lg (hd xs) = Inr (s, e) \<and> validateRef lg (last xs) = Inr (s', e') \<and>
      a = (s, FirstPrevHash (hd xs)) \<and> b = (e' + 1, LastRecordHash (last xs))"
    using assms
  proof (induction xs arbitrary: a)
    case (Cons x xs)
    then obtain e where x: "validateRef lg x = Inr (fst a, e)" "FirstPrevHash x = snd a"
      and xs: "chained lg xs (e + 1, LastRecordHash x) b"
      by (auto simp: chained_Cons_iff)
    show ?case
    proof (cases "xs = []")
      case True
      with x xs show ?thesis by (auto simp: prod_eq_iff)
    next
      case False
      with Cons.IH [OF xs] x show ?thesis by (auto simp: prod_eq_iff)
    qed
  qed simp
  with that show ?thesis by blast
qed

subsection \<open>Coverage\<close>

definition ref_span :: "'a log \<Rightarrow> objectRef \<Rightarrow> int set" where
  "ref_span lg ref = (case validateRef lg ref of Inl _ \<Rightarrow> {} | Inr (s, e) \<Rightarrow> {s..e})"

lemma chained_span: "chained lg xs a b \<Longrightarrow> (\<Union>x\<in>set xs. ref_span lg x) = {fst a..<fst b}"
proof (induction xs arbitrary: a)
  case (Cons x xs)
  then obtain e where x: "validateRef lg x = Inr (fst a, e)"
    and xs: "chained lg xs (e + 1, LastRecordHash x) b"
    by (auto simp: chained_Cons_iff)
  have "(\<Union>x\<in>set (x # xs). ref_span lg x) = {fst a..e} \<union> {e + 1..<fst b}"
    using Cons.IH [OF xs] x by (simp add: ref_span_def)
  also have "\<dots> = {fst a..<fst b}"
    using chained_le [OF xs] validateRef_facts(4) [OF x] by (auto simp: not_le)
  finally show ?case .
qed simp

lemma chained_disjoint:
  assumes "chained lg xs a b" and "i < j" and "j < length xs"
  shows "ref_span lg (xs ! i) \<inter> ref_span lg (xs ! j) = {}"
  using assms
proof (induction xs arbitrary: a i j)
  case (Cons x xs)
  then obtain e where x: "validateRef lg x = Inr (fst a, e)"
    and xs: "chained lg xs (e + 1, LastRecordHash x) b"
    by (auto simp: chained_Cons_iff)
  from Cons.prems obtain j' where j: "j = Suc j'" "j' < length xs" by (cases j) auto
  show ?case
  proof (cases i)
    case 0
    have "ref_span lg (xs ! j') \<subseteq> {e + 1..<fst b}"
      using chained_span [OF xs] j(2) by (auto dest: nth_mem)
    with 0 j x show ?thesis by (auto simp: ref_span_def)
  next
    case (Suc i')
    with Cons.prems j Cons.IH [OF xs, of i' j'] show ?thesis by simp
  qed
qed simp

subsection \<open>Sixteen levels and their sparse form\<close>

definition frontierOf :: "objectRef list list \<Rightarrow> frontierLevel list" where
  "frontierOf levels =
     map (\<lambda>l. \<lparr>f_Level = l, Refs = levels ! l\<rparr>) (filter (\<lambda>l. levels ! l \<noteq> []) [0..<16])"

text \<open>The order in which a scan visits the references: highest level first.\<close>

definition frontierRefs :: "frontierLevel list \<Rightarrow> objectRef list" where
  "frontierRefs f = concat (map Refs (rev f))"

definition levelRefs :: "objectRef list list \<Rightarrow> objectRef list" where
  "levelRefs levels = concat (map ((!) levels) (rev [0..<16]))"

lemma frontierRefs_frontierOf [simp]: "frontierRefs (frontierOf levels) = levelRefs levels"
proof -
  have "concat (map ((!) levels) (rev (filter (\<lambda>l. levels ! l \<noteq> []) ls))) =
      concat (map ((!) levels) (rev ls))" for ls
    by (induction ls) auto
  from this [of "[0..<16]"] show ?thesis
    by (simp add: frontierRefs_def frontierOf_def levelRefs_def rev_map comp_def)
qed

lemma collectLevels_sound:
  assumes "collectLevels f (int k - 1) lv = Inr lv'" and "length lv = 16" and "k \<le> 16"
    and "\<forall>l. k \<le> l \<and> l < 16 \<longrightarrow> lv ! l = []"
  shows "length lv' = 16 \<and> (\<forall>l<k. lv' ! l = lv ! l) \<and> (\<forall>l. k \<le> l \<and> l < 16 \<longrightarrow> length (lv' ! l) \<le> 15) \<and>
    f = map (\<lambda>l. \<lparr>f_Level = l, Refs = lv' ! l\<rparr>) (filter (\<lambda>l. lv' ! l \<noteq> []) [k..<16])"
  using assms
proof (induction f arbitrary: k lv)
  case Nil
  then have "filter (\<lambda>l. lv ! l \<noteq> []) [k..<16] = []" by (auto simp: filter_empty_conv)
  with Nil show ?case by simp
next
  case (Cons x f)
  let ?l = "f_Level x"
  from Cons.prems(1) have x: "k \<le> ?l" "?l \<le> 15" "Refs x \<noteq> []" "length (Refs x) \<le> 15"
    and rest: "collectLevels f (int (Suc ?l) - 1) (lv[?l := Refs x]) = Inr lv'"
    by (auto simp: ebind_eq_Inr_iff)
  have "\<forall>l. Suc ?l \<le> l \<and> l < 16 \<longrightarrow> (lv[?l := Refs x]) ! l = []"
    using Cons.prems x by auto
  with Cons.IH [OF rest] Cons.prems x
  have IH: "length lv' = 16" "\<forall>l<Suc ?l. lv' ! l = (lv[?l := Refs x]) ! l"
    "\<forall>l. Suc ?l \<le> l \<and> l < 16 \<longrightarrow> length (lv' ! l) \<le> 15"
    "f = map (\<lambda>l. \<lparr>f_Level = l, Refs = lv' ! l\<rparr>) (filter (\<lambda>l. lv' ! l \<noteq> []) [Suc ?l..<16])"
    by auto
  have at: "lv' ! ?l = Refs x" using IH(2) x Cons.prems(2) by simp
  have below: "lv' ! l = []" if "k \<le> l" "l < ?l" for l
    using IH(2) that x Cons.prems by simp
  have split: "[k..<16] = [k..<?l] @ ?l # [Suc ?l..<16]"
  proof -
    have "[k..<16] = [k..<?l] @ [?l..<16]" using x upt_add_eq_append [of k ?l "16 - ?l"] by simp
    also have "[?l..<16] = ?l # [Suc ?l..<16]" using x by (simp add: upt_conv_Cons)
    finally show ?thesis .
  qed
  have none: "filter (\<lambda>l. lv' ! l \<noteq> []) [k..<?l] = []"
    using below by (auto simp: filter_empty_conv)
  have list: "x # f = map (\<lambda>l. \<lparr>f_Level = l, Refs = lv' ! l\<rparr>) (filter (\<lambda>l. lv' ! l \<noteq> []) [k..<16])"
    unfolding split using none at x IH(4) by simp
  have len: "length (lv' ! l) \<le> 15" if "k \<le> l" "l < 16" for l
    using that IH(3) at below x by (cases l ?l rule: linorder_cases) auto
  have keep: "lv' ! l = lv ! l" if "l < k" for l
    using that IH(2) x by simp
  from IH(1) keep len list show ?case by blast
qed

lemma collectLevels_complete:
  assumes "length lv = 16" and "length lv' = 16" and "k \<le> 16"
    and "\<forall>l<k. lv ! l = lv' ! l" and "\<forall>l. k \<le> l \<and> l < 16 \<longrightarrow> lv ! l = [] \<and> length (lv' ! l) \<le> 15"
    and "j \<le> k"
  shows "collectLevels (map (\<lambda>l. \<lparr>f_Level = l, Refs = lv' ! l\<rparr>) (filter (\<lambda>l. lv' ! l \<noteq> []) [k..<16]))
           (int j - 1) lv = Inr lv'"
  using assms
proof (induction "16 - k" arbitrary: k lv j)
  case 0
  then have "k = 16" by simp
  with 0 have "lv = lv'" by (intro nth_equalityI) simp_all
  with \<open>k = 16\<close> show ?case by simp
next
  case (Suc m)
  then have k: "k < 16" "m = 16 - Suc k" "[k..<16] = k # [Suc k..<16]" by (simp_all add: upt_conv_Cons)
  let ?lv = "lv[k := lv' ! k]"
  have upd: "\<forall>l<Suc k. ?lv ! l = lv' ! l"
    "\<forall>l. Suc k \<le> l \<and> l < 16 \<longrightarrow> ?lv ! l = [] \<and> length (lv' ! l) \<le> 15"
    using Suc.prems k(1) by (auto simp: nth_list_update less_Suc_eq)
  show ?case
  proof (cases "lv' ! k = []")
    case True
    have "lv = ?lv" using Suc.prems True k(1) by (metis list_update_id order_refl)
    with Suc.hyps(1) [OF k(2), of lv j] Suc.prems upd k True show ?thesis by simp
  next
    case False
    have "collectLevels (map (\<lambda>l. \<lparr>f_Level = l, Refs = lv' ! l\<rparr>)
        (filter (\<lambda>l. lv' ! l \<noteq> []) [Suc k..<16])) (int (Suc k) - 1) ?lv = Inr lv'"
      using Suc.hyps(1) [OF k(2), of ?lv "Suc k"] Suc.prems upd k(1) by simp
    moreover have "length (lv' ! k) \<le> 15" using Suc.prems k(1) by blast
    moreover have "\<not> int k \<le> int j - 1" "\<not> 15 < k" using Suc.prems k(1) by simp_all
    ultimately show ?thesis using False k by (simp add: linorder_not_less fail_if_def)
  qed
qed

lemma collectLevels_iff:
  "collectLevels f (-1) (replicate 16 []) = Inr lv \<longleftrightarrow>
     length lv = 16 \<and> (\<forall>l<16. length (lv ! l) \<le> 15) \<and> f = frontierOf lv"
proof
  assume "collectLevels f (-1) (replicate 16 []) = Inr lv"
  then show "length lv = 16 \<and> (\<forall>l<16. length (lv ! l) \<le> 15) \<and> f = frontierOf lv"
    using collectLevels_sound [of f 0 "replicate 16 []" lv] by (simp add: frontierOf_def)
next
  assume "length lv = 16 \<and> (\<forall>l<16. length (lv ! l) \<le> 15) \<and> f = frontierOf lv"
  then show "collectLevels f (-1) (replicate 16 []) = Inr lv"
    using collectLevels_complete [of "replicate 16 []" lv 0 0] by (simp add: frontierOf_def)
qed

subsection \<open>Hexadecimal digits of the revision count\<close>

definition digit :: "int \<Rightarrow> nat \<Rightarrow> int" where
  "digit n l = n div 16 ^ l mod 16"

lemma nibble_eq_digit: "nibble n l = digit n l"
proof -
  have "nibble n l = take_bit 4 (drop_bit (4 * l) n)"
    by (simp add: nibble_def take_bit_eq_mask mask_eq_exp_minus_1)
  then show ?thesis
    by (simp add: digit_def take_bit_eq_mod drop_bit_eq_div power_mult)
qed

lemma digit_range: "0 \<le> digit n l" "digit n l < 16"
  by (simp_all add: digit_def)

text \<open>All digits below \<open>l\<close> are 15 exactly when the number ends in \<open>16 ^ l - 1\<close>.\<close>

lemma digits_15_mod:
  assumes "\<forall>j<l. digit n j = 15"
  shows "n mod 16 ^ l = 16 ^ l - 1"
  using assms
proof (induction l)
  case (Suc l)
  then have IH: "n mod 16 ^ l = 16 ^ l - 1" and d: "n div 16 ^ l mod 16 = 15"
    by (simp_all add: digit_def)
  have "n mod (16 ^ l * 16) = 16 ^ l * (n div 16 ^ l mod 16) + n mod 16 ^ l"
    by (rule zmod_zmult2_eq) simp
  with IH d show ?case by (simp add: mult.commute)
qed simp

lemma succ_div_mod_16:
  fixes q :: int
  assumes "q mod 16 \<noteq> 15"
  shows "(q + 1) mod 16 = q mod 16 + 1" and "(q + 1) div 16 = q div 16"
proof -
  have q: "q + 1 = 16 * (q div 16) + (q mod 16 + 1)" by simp
  have lo: "0 \<le> q mod 16 + 1" by (simp add: add_increasing2)
  have "q mod 16 < 16" by simp
  with assms have hi: "q mod 16 + 1 < 16" by linarith
  show "(q + 1) mod 16 = q mod 16 + 1" by (rule int_mod_pos_eq [OF q lo hi])
  show "(q + 1) div 16 = q div 16" by (rule int_div_pos_eq [OF q lo hi])
qed

text \<open>Counting one more record is a carry: the effect of \<open>+ 1\<close> on the digits.\<close>

lemma digit_carry:
  assumes low: "\<forall>j<l. digit n j = 15" and here: "digit n l \<noteq> 15"
  shows "digit (n + 1) j = (if j < l then 0 else if j = l then digit n l + 1 else digit n j)"
proof -
  define q where "q = n div 16 ^ l"
  have m: "n mod 16 ^ l = 16 ^ l - 1" by (rule digits_15_mod [OF low])
  have n: "n + 1 = (q + 1) * 16 ^ l"
    using div_mult_mod_eq [of n "16 ^ l"] m by (simp add: q_def algebra_simps)
  have "q mod 16 \<noteq> 15" using here by (simp add: digit_def q_def)
  note q1 = succ_div_mod_16 [OF this]
  show ?thesis
  proof (cases j l rule: linorder_cases)
    case less
    then obtain k where l: "l = Suc (j + k)" using less_imp_Suc_add by blast
    have "(n + 1) div 16 ^ j = (q + 1) * 16 ^ k * 16"
      unfolding n l by (simp add: power_add mult.assoc)
    with less show ?thesis by (simp add: digit_def)
  next
    case equal
    then show ?thesis using q1(1) by (simp add: digit_def n q_def)
  next
    case greater
    then obtain k where j: "j = l + Suc k" using less_imp_Suc_add by auto
    have q: "(q + 1) div 16 ^ Suc k = q div 16 ^ Suc k"
      by (simp add: zdiv_zmult2_eq q1(2))
    have pw: "(16::int) ^ j = 16 ^ l * 16 ^ Suc k" by (simp only: j power_add)
    have dd: "m div 16 ^ j = m div 16 ^ l div 16 ^ Suc k" for m :: int
      unfolding pw by (rule zdiv_zmult2_eq) simp
    have "(n + 1) div 16 ^ j = (q + 1) div 16 ^ Suc k"
      unfolding dd by (simp add: n)
    also have "\<dots> = n div 16 ^ j"
      unfolding dd using q by (simp only: q_def)
    finally show ?thesis using greater by (simp add: digit_def)
  qed
qed

subsection \<open>validateFrontier, characterised\<close>

lemma checkRefs_iff:
  assumes "fst acc' \<le> revision" and "revision \<le> MaxRevision"
  shows "checkRefs lg level revision refs acc = Inr acc' \<longleftrightarrow>
    chained lg refs acc acc' \<and> (\<forall>ref\<in>set refs. Level ref = level)"
  using assms(1)
proof (induction refs arbitrary: acc)
  case (Cons ref refs)
  have i: "i64 (e + 1) = e + 1" if "validateRef lg ref = Inr (s, e)" for s e
    using validateRef_facts(3) [OF that] by (intro i64_small) (simp_all add: bounds)
  have less: "e < revision" if "validateRef lg ref = Inr (s, e)"
    "chained lg refs (e + 1, LastRecordHash ref) acc'" for s e
    using chained_le [OF that(2)] Cons.prems by simp
  show ?case
    using Cons.IH Cons.prems less
    by (auto simp: ebind_eq_Inr_iff chained_Cons_iff i prod_eq_iff)
qed auto

lemma checkRefs_le:
  "checkRefs lg level revision refs acc = Inr acc' \<Longrightarrow> revision \<le> MaxRevision \<Longrightarrow>
     fst acc \<le> revision \<Longrightarrow> fst acc' \<le> revision"
proof (induction refs arbitrary: acc)
  case (Cons ref refs)
  then obtain s e where v: "validateRef lg ref = Inr (s, e)" and "e < revision"
    and r: "checkRefs lg level revision refs (i64 (e + 1), LastRecordHash ref) = Inr acc'"
    by (auto simp: ebind_eq_Inr_iff)
  moreover have "i64 (e + 1) = e + 1"
    using validateRef_facts(3) [OF v] by (intro i64_small) (simp_all add: bounds)
  ultimately show ?case using Cons.IH [OF r] Cons.prems(2) by simp
qed simp

definition levels_ok :: "objectRef list list \<Rightarrow> int \<Rightarrow> nat list \<Rightarrow> bool" where
  "levels_ok levels n ls \<longleftrightarrow>
     (\<forall>l\<in>set ls. int (length (levels ! l)) = digit n l \<and> (\<forall>ref\<in>set (levels ! l). Level ref = l))"

lemma checkLevels_iff:
  assumes "valid_rev revision" and "fst acc' \<le> revision"
  shows "checkLevels lg levels revision ls acc = Inr acc' \<longleftrightarrow>
    levels_ok levels (revision - 1) ls \<and> chained lg (concat (map ((!) levels) ls)) acc acc'"
proof -
  have i: "i64 (revision - 1) = revision - 1"
    using assms(1) by (intro i64_small) (simp_all add: bounds)
  have max: "revision \<le> MaxRevision" using assms(1) by simp
  show ?thesis
  proof (induction ls arbitrary: acc)
    case (Cons l ls)
    have mid: "fst b \<le> revision" if "chained lg (concat (map ((!) levels) ls)) b acc'" for b
      using chained_le [OF that] assms(2) by simp
    have step: "checkRefs lg l revision (levels ! l) acc = Inr b \<and>
        chained lg (concat (map ((!) levels) ls)) b acc' \<longleftrightarrow>
        (\<forall>ref\<in>set (levels ! l). Level ref = l) \<and> chained lg (levels ! l) acc b \<and>
        chained lg (concat (map ((!) levels) ls)) b acc'" for b
      using checkRefs_iff [OF mid max] by blast
    have "checkLevels lg levels revision (l # ls) acc = Inr acc' \<longleftrightarrow>
        int (length (levels ! l)) = digit (revision - 1) l \<and> levels_ok levels (revision - 1) ls \<and>
        (\<exists>b. checkRefs lg l revision (levels ! l) acc = Inr b \<and>
             chained lg (concat (map ((!) levels) ls)) b acc')"
      by (auto simp: ebind_eq_Inr_iff i nibble_eq_digit Cons.IH)
    also have "\<dots> \<longleftrightarrow> levels_ok levels (revision - 1) (l # ls) \<and>
        chained lg (concat (map ((!) levels) (l # ls))) acc acc'"
      unfolding step by (auto simp: levels_ok_def chained_append)
    finally show ?case .
  qed (auto simp: levels_ok_def)
qed

theorem validateFrontier_iff:
  "validateFrontier lg f revision prev = Inr () \<longleftrightarrow>
     valid_rev revision \<and>
     (\<exists>levels. length levels = 16 \<and> f = frontierOf levels \<and>
        levels_ok levels (revision - 1) [0..<16] \<and>
        chained lg (levelRefs levels) (1, zeroHash) (revision, prev))"
proof (cases "valid_rev revision")
  case True
  have "validateFrontier lg f revision prev = Inr () \<longleftrightarrow>
      (\<exists>levels. length levels = 16 \<and> (\<forall>l<16. length (levels ! l) \<le> 15) \<and> f = frontierOf levels \<and>
        checkLevels lg levels revision (rev [0..<16]) (1, zeroHash) = Inr (revision, prev))"
    using True by (auto simp: validateFrontier_def ebind_eq_Inr_iff collectLevels_iff)
  also have "\<dots> \<longleftrightarrow> (\<exists>levels. length levels = 16 \<and> (\<forall>l<16. length (levels ! l) \<le> 15) \<and>
      f = frontierOf levels \<and> levels_ok levels (revision - 1) [0..<16] \<and>
      chained lg (levelRefs levels) (1, zeroHash) (revision, prev))"
    using True by (simp add: checkLevels_iff levelRefs_def levels_ok_def)
  also have "\<dots> \<longleftrightarrow> (\<exists>levels. length levels = 16 \<and> f = frontierOf levels \<and>
      levels_ok levels (revision - 1) [0..<16] \<and>
      chained lg (levelRefs levels) (1, zeroHash) (revision, prev))"
  proof -
    have "length (levels ! l) \<le> 15" if "levels_ok levels (revision - 1) [0..<16]" "l < 16" for levels l
      using that digit_range(2) [of "revision - 1" l] by (force simp: levels_ok_def)
    then show ?thesis by blast
  qed
  finally show ?thesis using True by simp
next
  case False
  then show ?thesis by (auto simp: validateFrontier_def ebind_eq_Inr_iff)
qed

lemma validateFrontierE:
  assumes "validateFrontier lg f revision prev = Inr u"
  obtains levels where "valid_rev revision" and "length levels = 16" and "f = frontierOf levels"
    and "levels_ok levels (revision - 1) [0..<16]"
    and "chained lg (levelRefs levels) (1, zeroHash) (revision, prev)"
  using assms validateFrontier_iff [of lg f revision prev] by (cases u) auto

lemma validateFrontier_chained:
  "validateFrontier lg f revision prev = Inr u \<Longrightarrow>
     chained lg (frontierRefs f) (1, zeroHash) (revision, prev)"
  by (auto elim!: validateFrontierE)

end
