(* ===== verification/Loading.thy ===== *)
theory Loading
  imports StoreApi KeyFacts Frontier
begin

section \<open>Opening a log and loading its roots (log.go)\<close>

text \<open>
  \<open>Open\<close>, the record and snapshot types, and the read operations that need one commit
  object only: \<open>openObject\<close>, \<open>get\<close>, \<open>LoadHead\<close>, \<open>LoadRevision\<close> and \<open>Head\<close>. The lemmas say which
  snapshot each returns in a store that other writers may extend while it runs.
\<close>

subsection \<open>Open\<close>

record config =
  cfg_Prefix :: string
  cfg_StoreNil :: bool
  MaxConflictRetries :: int
  MaxEventBytes :: int

definition trimSlash :: "string \<Rightarrow> string" where
  "trimSlash p = rev (dropWhile (\<lambda>c. c = CHR ''/'') (rev (dropWhile (\<lambda>c. c = CHR ''/'') p)))"

fun splitSlash :: "string \<Rightarrow> string list" where
  "splitSlash [] = [[]]"
| "splitSlash (c # cs) =
     (if c = CHR ''/'' then [] # splitSlash cs
      else (case splitSlash cs of [] \<Rightarrow> [[c]] | w # ws \<Rightarrow> (c # w) # ws))"

text \<open>\<open>utf8.ValidString\<close>, by the table of first bytes.\<close>

function (sequential) validUtf8 :: "nat list \<Rightarrow> bool" where
  "validUtf8 [] = True"
| "validUtf8 (n # ns) =
     (case utf8Tail n of
        None \<Rightarrow> False
      | Some (k, lo, hi) \<Rightarrow>
          length (take k ns) = k \<and>
          (k = 0 \<or> lo \<le> hd ns \<and> hd ns \<le> hi) \<and>
          list_all (\<lambda>m. 0x80 \<le> m \<and> m \<le> 0xBF) (take k ns) \<and>
          validUtf8 (drop k ns))"
  by pat_completeness auto
termination by (relation "measure length") auto

text \<open>\<open>unicode.IsControl\<close> over valid UTF-8: U+0000 to U+001F, U+007F, and U+0080 to U+009F.\<close>

fun hasControl :: "nat list \<Rightarrow> bool" where
  "hasControl [] = False"
| "hasControl (n # ns) \<longleftrightarrow>
     n < 0x20 \<or> n = 0x7F \<or> (n = 0xC2 \<and> (case ns of [] \<Rightarrow> False | m # _ \<Rightarrow> 0x80 \<le> m \<and> m \<le> 0x9F)) \<or>
     hasControl ns"

definition Open :: "nat \<Rightarrow> 'a platform \<Rightarrow> config \<Rightarrow> goerr + 'a log" where
  "Open ident pl cfg =
     ebind (fail_if (cfg_StoreNil cfg) (Msg ''lokv: nil store'')) (\<lambda>_.
     ebind (fail_if (MaxConflictRetries cfg < 0 \<or> MaxEventBytes cfg < 0)
              (Msg ''lokv: negative configuration limit'')) (\<lambda>_.
     let retries = (if MaxConflictRetries cfg = 0 then 32 else MaxConflictRetries cfg);
         limit = (if MaxEventBytes cfg = 0 then 2 ^ 20 else MaxEventBytes cfg);
         p = trimSlash (cfg_Prefix cfg) in
     ebind (fail_if (int (length p) > maxPrefixBytes) (Msg ''lokv: prefix is too long'')) (\<lambda>_.
     ebind (fail_if (\<not> validUtf8 (map of_char p) \<or> CHR 0x5C \<in> set p \<or> hasControl (map of_char p))
              (Msg ''lokv: invalid prefix'')) (\<lambda>_.
     ebind (fail_if (p \<noteq> [] \<and> list_ex (\<lambda>w. w = [] \<or> w = ''.'' \<or> w = ''..'') (splitSlash p))
              (Msg ''lokv: invalid prefix component'')) (\<lambda>_.
     Inr \<lparr>lg_id = ident, plat = pl, prefix = (if p = [] then [] else p @ ''/''),
          maxRetries = retries, maxEvent = limit\<rparr>)))))"

subsection \<open>Records and snapshots\<close>

record 'a recd =
  Revision :: int
  CommitID :: bytes
  Value :: "'a list"
  RecordHash :: bytes

text \<open>
  A loaded root. \<open>s_owner\<close> is the identity of the Log handle that made it. A \<open>Snapshot\<close> of Go's
  zero value has no owner, which no Log's identity equals. A nil pointer is \<^const>\<open>None\<close>.
\<close>

record 'a snap =
  s_owner :: nat
  s_commit :: commit
  s_body :: bytes
  s_record :: "'a recd"

definition zeroRecord :: "'a recd" where
  "zeroRecord = \<lparr>Revision = 0, CommitID = replicate 16 (CHR 0x00), Value = [],
     RecordHash = replicate 32 (CHR 0x00)\<rparr>"

definition snapRecord :: "'a snap option \<Rightarrow> 'a recd" where
  "snapRecord s = (case s of None \<Rightarrow> zeroRecord | Some sn \<Rightarrow> s_record sn)"

definition snapRevision :: "'a snap option \<Rightarrow> int" where
  "snapRevision s = (case s of None \<Rightarrow> 0 | Some sn \<Rightarrow> Revision (s_record sn))"

definition Empty :: "'a snap option \<Rightarrow> bool" where
  "Empty s \<longleftrightarrow> s = None"

text \<open>\<open>eventCodecError\<close> keeps the codec's error reachable and hides its text.\<close>

definition eventCodecError :: "string \<Rightarrow> goerr \<Rightarrow> goerr" where
  "eventCodecError opname e = Wrap (''lokv: cannot '' @ opname @ '' event'') [e]"

definition recordOf :: "'a log \<Rightarrow> projection \<Rightarrow> goerr + 'a recd" where
  "recordOf lg p =
     ebind (validateProjection lg p) (\<lambda>revision.
     case unmarshal_batch (plat lg) (p_Event p) of
       Inl e \<Rightarrow> Inl (Wrap '''' [Sentinel ErrCorrupt, eventCodecError ''unmarshal'' e])
     | Inr v \<Rightarrow> Inr \<lparr>Revision = revision, CommitID = copyInto 16 (hexDecode (p_CommitID p)), Value = v,
                     RecordHash = copyInto 32 (hexDecode (p_RecordHash p))\<rparr>)"

text \<open>\<open>fmt.Errorf("load %s: %w", key, err)\<close>.\<close>

definition wrapErr :: "string \<Rightarrow> (goerr + 'b) \<Rightarrow> goerr + 'b" where
  "wrapErr m r = (case r of Inl e \<Rightarrow> Inl (Wrap m [e]) | Inr x \<Rightarrow> Inr x)"

definition snapshot :: "'a log \<Rightarrow> string \<Rightarrow> bytes \<Rightarrow> goerr + 'a snap" where
  "snapshot lg key body =
     ebind (wrapErr (''load '' @ key) (decodeCommit lg key body)) (\<lambda>c.
     ebind (wrapErr (''load '' @ key) (recordOf lg (project c))) (\<lambda>r.
     Inr \<lparr>s_owner = lg_id lg, s_commit = c, s_body = body, s_record = r\<rparr>))"

definition checkSnapshot :: "'a log \<Rightarrow> 'a snap option \<Rightarrow> goerr + unit" where
  "checkSnapshot lg s =
     ebind (fail_if (case s of None \<Rightarrow> False | Some sn \<Rightarrow> s_owner sn \<noteq> lg_id lg)
              (Msg ''lokv: snapshot belongs to a different log or is uninitialized'')) (\<lambda>_.
     fail_if (s \<noteq> None \<and> (snapRevision s \<le> 0 \<or> snapRevision s > MaxRevision))
       (corrupt ''snapshot revision out of range''))"

subsection \<open>Fetching an object\<close>

definition openObject :: "'s world \<Rightarrow> string \<Rightarrow> bool \<Rightarrow> ('s, stream) io" where
  "openObject W key referenced =
     io_bind (io_check (w_ctx W)) (\<lambda>_.
     io_wrap (\<lambda>err. Wrap (''get '' @ key)
       [if referenced \<and> errors_is err ErrNotFound then Wrap '''' [Sentinel ErrCorrupt, err] else err])
       (w_get W key))"

text \<open>\<open>contextReader\<close>: every Read polls the context first.\<close>

fun pollTimes :: "'s world \<Rightarrow> nat \<Rightarrow> ('s, unit) io" where
  "pollTimes W 0 = io_ret ()"
| "pollTimes W (Suc n) = io_bind (io_check (w_ctx W)) (\<lambda>_. pollTimes W n)"

definition readStream :: "'s world \<Rightarrow> stream \<Rightarrow> ('s, bytes) io" where
  "readStream W st =
     io_bind (pollTimes W (Suc (s_reads st))) (\<lambda>_.
     io_lift (case s_rerr st of None \<Rightarrow> Inr (s_bytes st) | Some e \<Rightarrow> Inl e))"

text \<open>The error of a result, nil if it is none.\<close>

definition errOf :: "goerr + 'b \<Rightarrow> goerr option" where
  "errOf r = (case r of Inl e \<Rightarrow> Some e | Inr _ \<Rightarrow> None)"

lemma errOf_simps [simp]: "errOf (Inl e) = Some e" "errOf (Inr x) = None"
  by (simp_all add: errOf_def)

lemma errOf_None: "errOf r = None \<longleftrightarrow> (\<exists>x. r = Inr x)"
  by (cases r) auto

text \<open>A call of which only the error matters.\<close>

definition errPart :: "('s, 'a) io \<Rightarrow> 's \<Rightarrow> goerr option \<times> 's" where
  "errPart m s = (case m s of (r, s') \<Rightarrow> (errOf r, s'))"

lemma errPart_rel: "io_rel R m \<Longrightarrow> errPart m s = (e, s') \<Longrightarrow> R s s'"
  by (auto simp: errPart_def split: prod.splits dest: io_relD)

lemma errPart_Some: "errPart m s = (Some e, s') \<longleftrightarrow> m s = (Inl e, s')"
  by (auto simp: errPart_def errOf_def split: prod.splits sum.splits)

lemma errPart_never: "never k c \<Longrightarrow> errPart c s = (Some e, s') \<Longrightarrow> \<not> errors_is e k"
  by (auto simp: errPart_Some dest: neverD)

lemma never_onerr_part: "never k m \<Longrightarrow> never k c \<Longrightarrow> never k (io_onerr (errPart c) m)"
  by (rule never_onerr) (auto dest: errPart_never)

definition getObject :: "'s world \<Rightarrow> string \<Rightarrow> bool \<Rightarrow> ('s, bytes) io" where
  "getObject W key referenced =
     io_bind (openObject W key referenced) (\<lambda>st.
     io_bind (io_try (readStream W st)) (\<lambda>r.
     io_bind (io_poll (w_ctx W)) (\<lambda>ce.
     io_lift (case errors_join [errOf r, s_cerr st, ce] of
                Some e \<Rightarrow> Inl (Wrap (''get '' @ key) [e])
              | None \<Rightarrow> Inr (s_bytes st)))))"

subsection \<open>LoadHead, LoadRevision, Head\<close>

definition LoadHead :: "'s world \<Rightarrow> 'a log \<Rightarrow> ('s, 'a snap option) io" where
  "LoadHead W lg =
     io_bind (io_check (w_ctx W)) (\<lambda>_.
     io_bind (io_wrap (\<lambda>e. Wrap (''list '' @ logPrefix lg) [e]) (w_list W (logPrefix lg) 1)) (\<lambda>ks.
     case ks of
       [] \<Rightarrow> io_ret None
     | key # rest \<Rightarrow>
         io_bind (io_lift (fail_if (rest \<noteq> []) (corrupt ''store exceeded LIST limit''))) (\<lambda>_.
         io_bind (io_lift (parseLogKey lg key)) (\<lambda>_.
         io_bind (getObject W key True) (\<lambda>b.
         io_bind (io_lift (snapshot lg key b)) (\<lambda>s.
         io_ret (Some s)))))))"

definition LoadRevision :: "'s world \<Rightarrow> 'a log \<Rightarrow> int \<Rightarrow> ('s, 'a snap) io" where
  "LoadRevision W lg revision =
     io_bind (io_check (w_ctx W)) (\<lambda>_.
     io_bind (io_lift (fail_if (revision \<le> 0 \<or> revision > MaxRevision) (Sentinel ErrRange))) (\<lambda>_.
     io_bind (getObject W (logKey lg revision) False) (\<lambda>b.
     io_lift (snapshot lg (logKey lg revision) b))))"

definition Head :: "'s world \<Rightarrow> 'a log \<Rightarrow> ('s, 'a recd \<times> bool) io" where
  "Head W lg =
     io_bind (LoadHead W lg) (\<lambda>s.
     io_ret (case s of None \<Rightarrow> (zeroRecord, False) | Some _ \<Rightarrow> (snapRecord s, True)))"

subsection \<open>What decoding establishes\<close>

lemma decodeCommit_Inr:
  assumes "decodeCommit lg key body = Inr c"
  obtains r where "parseLogKey lg key = Inr r" and "valid_rev r" and "key = logKey lg r"
    and "decodeJSON lg commitType commitOf body = Inr c"
    and "Format c = commitFormat" and "c_Revision c = hexRevision r"
    and "validateProjection lg (project c) = Inr r"
    and "validateFrontier lg (c_Frontier c) r (PreviousRecordHash (project c)) = Inr ()"
    and "r = 1 \<Longrightarrow> Previous c = None"
    and "r \<noteq> 1 \<Longrightarrow> \<exists>p. Previous c = Some p \<and> prev_Key p = logKey lg (r - 1)"
proof -
  from assms obtain r r' where *: "parseLogKey lg key = Inr r"
      "decodeJSON lg commitType commitOf body = Inr c"
      "Format c = commitFormat" "c_Revision c = hexRevision r"
      "validateProjection lg (project c) = Inr r'"
      "validateFrontier lg (c_Frontier c) r (PreviousRecordHash (project c)) = Inr ()"
      "(if r = 1 then Previous c = None
        else \<exists>p. Previous c = Some p \<and> prev_Key p = logKey lg (i64 (r - 1)))"
    unfolding decodeCommit_def by (auto simp: ebind_eq_Inr_iff split: if_splits option.splits)
  from parseLogKey_Inr [OF *(1)] have r: "valid_rev r" "key = logKey lg r" by auto
  have "parseRevision (c_Revision c) = Inr r'"
    using *(5) by (auto simp: validateProjection_def project_def ebind_eq_Inr_iff)
  with *(4) r have "r' = r" by simp
  moreover have "i64 (r - 1) = r - 1"
    using r by (intro i64_small) (simp_all add: bounds)
  ultimately show ?thesis using that [of r] * r by (auto split: if_splits)
qed

lemma recordOf_Inr:
  assumes "recordOf lg p = Inr rc"
  shows "validateProjection lg p = Inr (Revision rc)"
    and "unmarshal_batch (plat lg) (p_Event p) = Inr (Value rc)"
    and "CommitID rc = copyInto 16 (hexDecode (p_CommitID p))"
    and "RecordHash rc = copyInto 32 (hexDecode (p_RecordHash p))"
  using assms
  by (cases "unmarshal_batch (plat lg) (p_Event p)"; auto simp: recordOf_def ebind_eq_Inr_iff)+

text \<open>A snapshot this log made: its private bytes decode to its commit and its record.\<close>

definition snap_ok :: "'a log \<Rightarrow> 'a snap \<Rightarrow> bool" where
  "snap_ok lg sn \<longleftrightarrow> snapshot lg (logKey lg (Revision (s_record sn))) (s_body sn) = Inr sn"

lemma wrapErr_Inr [simp]: "wrapErr m r = Inr x \<longleftrightarrow> r = Inr x"
  by (cases r) (auto simp: wrapErr_def)

lemma snapshot_Inr:
  assumes "snapshot lg key body = Inr sn"
  shows "valid_rev (Revision (s_record sn))" and "key = logKey lg (Revision (s_record sn))"
    and "s_body sn = body" and "s_owner sn = lg_id lg"
    and "decodeCommit lg key body = Inr (s_commit sn)"
    and "recordOf lg (project (s_commit sn)) = Inr (s_record sn)"
    and "snap_ok lg sn"
proof -
  from assms obtain c rc where *: "decodeCommit lg key body = Inr c"
      "recordOf lg (project c) = Inr rc"
      "sn = \<lparr>s_owner = lg_id lg, s_commit = c, s_body = body, s_record = rc\<rparr>"
    unfolding snapshot_def by (auto simp: ebind_eq_Inr_iff)
  from decodeCommit_Inr [OF *(1)] obtain r where r: "valid_rev r" "key = logKey lg r"
      "validateProjection lg (project c) = Inr r" by metis
  from recordOf_Inr(1) [OF *(2)] r(3) have "Revision rc = r" by simp
  with r * show v: "valid_rev (Revision (s_record sn))" and k: "key = logKey lg (Revision (s_record sn))"
    by simp_all
  show "s_body sn = body" "s_owner sn = lg_id lg" "decodeCommit lg key body = Inr (s_commit sn)"
    "recordOf lg (project (s_commit sn)) = Inr (s_record sn)"
    using * by simp_all
  show "snap_ok lg sn"
    unfolding snap_ok_def k [symmetric] using assms * by simp
qed

lemma snap_okD:
  assumes "snap_ok lg sn"
  shows "valid_rev (Revision (s_record sn))" and "s_owner sn = lg_id lg"
    and "decodeCommit lg (logKey lg (Revision (s_record sn))) (s_body sn) = Inr (s_commit sn)"
    and "recordOf lg (project (s_commit sn)) = Inr (s_record sn)"
  using snapshot_Inr [OF assms [unfolded snap_ok_def]] by blast+

lemma checkSnapshot_ok [simp]: "snap_ok lg sn \<Longrightarrow> checkSnapshot lg (Some sn) = Inr ()"
  using snap_okD [of lg sn] by (simp add: checkSnapshot_def snapRevision_def fail_if_def)

lemma checkSnapshot_None [simp]: "checkSnapshot lg None = Inr ()"
  by (simp add: checkSnapshot_def)

subsection \<open>Reading operations in a growing store\<close>

context world_rel
begin

lemma rel_pollTimes: "io_rel R (pollTimes W n)"
  by (induction n) (simp_all only: pollTimes.simps rel_intros)

lemma rel_openObject: "io_rel R (openObject W k b)"
  unfolding openObject_def by (intro rel_intros)

lemma rel_readStream: "io_rel R (readStream W st)"
  unfolding readStream_def by (intro rel_intros rel_pollTimes)

lemma rel_getObject: "io_rel R (getObject W k b)"
  unfolding getObject_def by (intro rel_intros rel_openObject rel_readStream)

lemma rel_LoadHead: "io_rel R (LoadHead W lg)"
  unfolding LoadHead_def by (auto split: list.splits intro!: rel_intros rel_getObject)

lemma rel_LoadRevision: "io_rel R (LoadRevision W lg r)"
  unfolding LoadRevision_def by (intro rel_intros rel_getObject)

end

context object_store
begin

lemma objs_mono: "grows objs good s s' \<Longrightarrow> good s \<Longrightarrow> objs s k = Some v \<Longrightarrow> objs s' k = Some v"
  by (auto simp: grows_def map_le_def dom_def)

lemma getObject_ok:
  assumes "getObject W k b s = (Inr v, s')" and "good s"
  shows "objs s' k = Some v"
proof -
  from assms(1) obtain st s1 s2 r ce
    where o: "openObject W k b s = (Inr st, s1)" and rd: "readStream W st s1 = (r, s2)"
      and p: "w_ctx W s2 = (ce, s')" and v: "v = s_bytes st"
      and j: "errors_join [errOf r, s_cerr st, ce] = None"
    unfolding getObject_def by (auto simp: io_bind_eq_Inr_iff split: option.splits)
  from o obtain s0 where c: "w_ctx W s = (None, s0)" and g: "w_get W k s0 = (Inr st, s1)"
    by (auto simp: openObject_def io_bind_eq_Inr_iff)
  have "good s0" using ctx_grows [OF c] assms(2) by (simp add: grows_def)
  moreover from j rd have "s_rerr st = None"
    by (auto simp: errors_join_None_iff errOf_None readStream_def io_bind_eq_Inr_iff split: option.splits)
  ultimately have "objs s1 k = Some v" using get_ok [OF g] v by simp
  moreover have "good s1" using get_grows [OF g] \<open>good s0\<close> by (simp add: grows_def)
  moreover have "grows objs good s1 s'"
    using io_relD [OF grow.rel_readStream rd] ctx_grows [OF p] grow.R_trans by blast
  ultimately show ?thesis using objs_mono by blast
qed

text \<open>
  LoadHead: an empty result means that no commit existed when it was called; a snapshot is a
  valid stored commit, and no commit that existed at the call is newer.
\<close>

lemma LoadHead_Inr:
  assumes "LoadHead W lg s = (Inr hd', s')" and "good s"
  shows "case hd' of
      None \<Rightarrow> (\<forall>r. valid_rev r \<longrightarrow> objs s (logKey lg r) = None)
    | Some sn \<Rightarrow> snap_ok lg sn \<and> objs s' (logKey lg (Revision (s_record sn))) = Some (s_body sn) \<and>
        (\<forall>r. valid_rev r \<longrightarrow> objs s (logKey lg r) \<noteq> None \<longrightarrow> r \<le> Revision (s_record sn))"
proof -
  from assms(1) obtain s0 ks s1 where c: "w_ctx W s = (None, s0)"
      and l: "w_list W (logPrefix lg) 1 s0 = (Inr ks, s1)"
      and k: "(case ks of [] \<Rightarrow> hd' = None \<and> s' = s1
         | key # rest \<Rightarrow> rest = [] \<and> (\<exists>b sn. getObject W key True s1 = (Inr b, s') \<and>
             snapshot lg key b = Inr sn \<and> hd' = Some sn))"
    unfolding LoadHead_def
    by (elim io_bind_InrE) (auto simp: io_bind_eq_Inr_iff split: list.splits)
  have g0: "good s0" "objs s \<subseteq>\<^sub>m objs s0" using ctx_grows [OF c] assms(2) by (auto simp: grows_def)
  have g1: "good s1" using list_grows [OF l] g0 by (auto simp: grows_def)
  note li = list_ok [OF l g0(1), unfolded is_listing_def]
  have listed: "logKey lg r \<in> set ks \<or> (length ks = 1 \<and> (\<forall>k'\<in>set ks. k' < logKey lg r))"
    if "objs s (logKey lg r) \<noteq> None" for r
    using li g0(2) that by (force simp: map_le_def dom_def)
  show ?thesis
  proof (cases ks)
    case Nil
    then show ?thesis using k listed by fastforce
  next
    case (Cons key rest)
    with k obtain b sn where r: "rest = []" and b: "getObject W key True s1 = (Inr b, s')"
        and sn: "snapshot lg key b = Inr sn" and h: "hd' = Some sn" by auto
    note f = snapshot_Inr [OF sn]
    have "r \<le> Revision (s_record sn)" if "valid_rev r" "objs s (logKey lg r) \<noteq> None" for r
      using listed [OF that(2)] Cons r f(2) logKey_less_iff [OF f(1) that(1), of lg] logKey_inj [OF that(1) f(1), of lg]
      by (auto)
    then show ?thesis using getObject_ok [OF b g1] f h by auto
  qed
qed

lemma LoadRevision_Inr:
  assumes "LoadRevision W lg r s = (Inr sn, s')" and "good s"
  shows "Revision (s_record sn) = r" and "snap_ok lg sn"
    and "objs s' (logKey lg r) = Some (s_body sn)"
proof -
  from assms(1) obtain s0 b where c: "w_ctx W s = (None, s0)" and r: "valid_rev r"
      and b: "getObject W (logKey lg r) False s0 = (Inr b, s')"
      and sn: "snapshot lg (logKey lg r) b = Inr sn"
    unfolding LoadRevision_def by (auto simp: io_bind_eq_Inr_iff)
  note f = snapshot_Inr [OF sn]
  show "Revision (s_record sn) = r" using logKey_inj [OF r f(1)] f(2) by auto
  show "snap_ok lg sn" by (rule f)
  have "good s0" using ctx_grows [OF c] assms(2) by (auto simp: grows_def)
  from getObject_ok [OF b this] f show "objs s' (logKey lg r) = Some (s_body sn)" by simp
qed

end

end
