(* ===== verification/TempFile.thy ===== *)
theory TempFile
  imports Loading
begin

section \<open>Temporary files (tempfile.go)\<close>

text \<open>
  The core spools downloads and merged records to temporary files. Outside Windows a file is
  unlinked as soon as it is made, so that nothing is left behind when the process ends; on Windows
  an open file keeps its name and Close removes it. The calls of the operating system are the
  world's \<open>w_tmp\<close> and may fail.

  The other theories keep only the content of such a file. \<open>newTemp\<close> and \<open>tempClose\<close> are the
  operations without the rest, which the lemmas here derive from the complete ones: the name of a
  file that \<open>newTempFileIn\<close> returned depends on the platform alone.
\<close>

subsection \<open>The file and its operations\<close>

text \<open>\<open>tf_name\<close> is nonempty while the file has a directory entry.\<close>

record tempFile =
  tf_file :: bytes
  tf_size :: int
  tf_name :: string

definition tempFileClose :: "'s world \<Rightarrow> tempFile \<Rightarrow> 's \<Rightarrow> goerr option \<times> 's" where
  "tempFileClose W f s =
     (case w_tmp W ''close'' s of
        (err, s1) \<Rightarrow>
          if tf_name f \<noteq> [] then (case w_tmp W ''remove'' s1 of (re, s2) \<Rightarrow> (errors_join [err, re], s2))
          else (err, s1))"

text \<open>The random part of the name that \<open>os.CreateTemp\<close> chooses does not matter and is left out.\<close>

definition newTempFileIn :: "'s world \<Rightarrow> string \<Rightarrow> ('s, tempFile) io" where
  "newTempFileIn W dir =
     io_bind (io_check (w_tmp W ''create'')) (\<lambda>_.
       let tmp = \<lparr>tf_file = [], tf_size = 0, tf_name = dir @ ''/lokv-''\<rparr> in
       if \<not> w_windows W then
         io_bind (io_onerr (tempFileClose W tmp) (io_check (w_tmp W ''remove''))) (\<lambda>_.
         io_ret (tmp\<lparr>tf_name := []\<rparr>))
       else io_ret tmp)"

text \<open>A write that reports no error wrote everything; one that fails wrote the \<open>n\<close> first bytes.\<close>

definition tempFileWrite :: "'s world \<Rightarrow> nat \<Rightarrow> bytes \<Rightarrow> tempFile \<Rightarrow> 's \<Rightarrow> (int \<times> goerr option) \<times> tempFile \<times> 's" where
  "tempFileWrite W n p f s =
     (case w_tmp W ''write'' s of
        (err, s1) \<Rightarrow>
          let b = (case err of None \<Rightarrow> p | Some e \<Rightarrow> take n p) in
          ((int (length b), err), f\<lparr>tf_file := tf_file f @ b, tf_size := tf_size f + int (length b)\<rparr>, s1))"

definition tempFileReadAt :: "'s world \<Rightarrow> nat \<Rightarrow> int \<Rightarrow> tempFile \<Rightarrow> ('s, bytes) io" where
  "tempFileReadAt W n off f =
     io_bind (io_check (w_tmp W ''read'')) (\<lambda>_. io_ret (take n (drop (nat off) (tf_file f))))"

text \<open>A write and a read through a context.\<close>

definition contextWrite :: "'s world \<Rightarrow> nat \<Rightarrow> bytes \<Rightarrow> tempFile \<Rightarrow> 's \<Rightarrow> (int \<times> goerr option) \<times> tempFile \<times> 's" where
  "contextWrite W n p f s =
     (case w_ctx W s of
        (Some e, s1) \<Rightarrow> ((0, Some e), f, s1)
      | (None, s1) \<Rightarrow> tempFileWrite W n p f s1)"

definition contextRead :: "'s world \<Rightarrow> (nat \<Rightarrow> 'r \<Rightarrow> (bytes \<times> rstatus) \<times> 'r) \<Rightarrow> nat \<Rightarrow> 'r \<Rightarrow> 's \<Rightarrow> (bytes \<times> rstatus) \<times> 'r \<times> 's" where
  "contextRead W rd n r s =
     (case w_ctx W s of
        (Some e, s1) \<Rightarrow> (([], Fail e), r, s1)
      | (None, s1) \<Rightarrow> (case rd n r of (out, r') \<Rightarrow> (out, r', s1)))"

subsection \<open>Without the file's own state\<close>

definition newTemp :: "'s world \<Rightarrow> ('s, unit) io" where
  "newTemp W = io_bind (newTempFileIn W []) (\<lambda>_. io_ret ())"

definition tempClose :: "'s world \<Rightarrow> 's \<Rightarrow> goerr option \<times> 's" where
  "tempClose W = tempFileClose W \<lparr>tf_file = [], tf_size = 0, tf_name = (if w_windows W then ''/lokv-'' else [])\<rparr>"

text \<open>A write through \<open>contextWriter\<close>.\<close>

definition tempWrite :: "'s world \<Rightarrow> ('s, unit) io" where
  "tempWrite W = io_bind (io_check (w_ctx W)) (\<lambda>_. io_check (w_tmp W ''write''))"

lemma tempFileClose_named:
  "(tf_name f = []) = (tf_name g = []) \<Longrightarrow> tempFileClose W f = tempFileClose W g"
  by (simp add: tempFileClose_def fun_eq_iff)

lemma newTempFileIn_Inr:
  "newTempFileIn W dir s = (Inr f, s') \<Longrightarrow>
     tf_file f = [] \<and> tf_size f = 0 \<and> (tf_name f = [] \<longleftrightarrow> \<not> w_windows W)"
  by (auto simp: newTempFileIn_def io_bind_eq_Inr_iff Let_def split: if_splits)

lemma newTemp_eq: "newTemp W = io_bind (newTempFileIn W dir) (\<lambda>_. io_ret ())"
proof -
  have eq: "tempFileClose W \<lparr>tf_file = [], tf_size = 0, tf_name = dir @ ''/lokv-''\<rparr> =
      tempFileClose W \<lparr>tf_file = [], tf_size = 0, tf_name = ''/lokv-''\<rparr>"
    by (rule tempFileClose_named) simp
  show ?thesis
    unfolding newTemp_def newTempFileIn_def Let_def eq append_Nil
    by (simp add: io_bind_def fun_eq_iff split: prod.splits sum.splits)
qed

lemma tempClose_eq:
  "(tf_name f = [] \<longleftrightarrow> \<not> w_windows W) \<Longrightarrow> tempFileClose W f = tempClose W"
  unfolding tempClose_def by (rule tempFileClose_named) simp

text \<open>The size is that of the content, which a write through a context extends.\<close>

lemma contextWrite_whole:
  assumes "contextWrite W n p f s = ((m, None), f', s')" and "tf_size f = int (length (tf_file f))"
  shows "tempWrite W s = (Inr (), s')" and "m = int (length p)" and "tf_file f' = tf_file f @ p"
    and "tf_size f' = int (length (tf_file f'))" and "tf_name f' = tf_name f"
  using assms
  by (auto simp: contextWrite_def tempFileWrite_def tempWrite_def io_bind_eq_Inr_iff Let_def
      split: prod.splits option.splits)

lemma tempFileReadAt_all:
  "tempFileReadAt W (length (tf_file f)) 0 f s = (Inr b, s') \<Longrightarrow> b = tf_file f"
  by (auto simp: tempFileReadAt_def io_bind_eq_Inr_iff)

subsection \<open>Reading operations keep a relation\<close>

context world_rel
begin

lemma rel_fileClose: "tempFileClose W f s = (r, s') \<Longrightarrow> R s s'"
  by (auto simp: tempFileClose_def split: prod.splits if_splits dest!: r_tmp intro: R_trans)

lemma rel_close: "tempClose W s = (r, s') \<Longrightarrow> R s s'"
  unfolding tempClose_def by (rule rel_fileClose)

lemma rel_newTemp: "io_rel R (newTemp W)"
  unfolding newTemp_def newTempFileIn_def Let_def
  by (intro rel_bind rel_if rel_ret rel_onerr rel_fileClose rel_tmp)

lemma rel_onerr_close: "io_rel R m \<Longrightarrow> io_rel R (io_onerr (tempClose W) m)"
  by (rule rel_onerr [OF rel_close])

lemma rel_defer_close: "io_rel R m \<Longrightarrow> io_rel R (io_defer (tempClose W) m)"
  by (rule rel_defer [OF rel_close])

lemma rel_tempWrite: "io_rel R (tempWrite W)"
  unfolding tempWrite_def by (intro rel_intros)

end

text \<open>With no failing call, creating and closing a file leaves the state alone.\<close>

lemma still_temp:
  assumes "\<And>q. w_tmp W q s = (None, s)"
  shows "newTemp W s = (Inr (), s)" and "tempClose W s = (None, s)"
  using assms
  by (simp_all add: newTemp_def newTempFileIn_def tempClose_def tempFileClose_def Let_def io_bind_def
      io_check_def io_onerr_def)

end
