(* ===== verification/Segment.thy ===== *)
theory Segment
  imports TempFile
begin

section \<open>Segments: temporary files, frames, parsing and creation (segment.go, objects.go)\<close>

text \<open>
  A segment is a zstd-compressed JSON object with the projections of \<open>16 ^ level\<close> commits. The
  theory models the byte-level frame check \<open>singleFrame\<close>, the token loop \<open>parseSegment\<close>, the
  spooling of records to temporary files, and the compaction \<open>createSegment\<close> that an append
  runs when a radix digit carries (\<open>carry\<close>).

  A temporary file is the sequence of bytes (or, for \<open>recordFile\<close>, of projections) written
  to it; its operations are those of \<open>TempFile\<close>, which the world may refuse. The four
  children that the code fetches concurrently are fetched in order. \<open>ctx.Err()\<close> called twice
  in a row is one poll, as a context's error does not change once set.
\<close>

subsection \<open>Download\<close>

definition copyBody :: "'s world \<Rightarrow> string \<Rightarrow> stream \<Rightarrow> ('s, bytes) io" where
  "copyBody W key st =
     io_bind (io_wrap (\<lambda>e. Wrap (''download '' @ key) [e])
       (io_bind (readStream W st) (\<lambda>b.
        io_bind (io_check (w_tmp W ''write'')) (\<lambda>_. io_ret b)))) (\<lambda>b.
     io_bind (io_check (w_ctx W)) (\<lambda>_. io_ret b))"

definition download :: "'s world \<Rightarrow> objectRef \<Rightarrow> ('s, bytes) io" where
  "download W ref =
     io_bind (openObject W (Key ref) True) (\<lambda>st.
     io_bind (io_try (newTemp W)) (\<lambda>f. case f of
       Inl e \<Rightarrow> io_defer (\<lambda>s. (s_cerr st, s)) (io_fail e)
     | Inr _ \<Rightarrow>
         io_onerr (tempClose W) (io_defer (\<lambda>s. (s_cerr st, s)) (copyBody W (Key ref) st))))"

subsection \<open>singleFrame\<close>

definition byteAt :: "bytes \<Rightarrow> int \<Rightarrow> nat" where
  "byteAt b i = of_char (b ! nat i)"

definition blockBits :: "bytes \<Rightarrow> int \<Rightarrow> nat" where
  "blockBits b pos =
     byteAt b pos OR push_bit 8 (byteAt b (pos + 1)) OR push_bit 16 (byteAt b (pos + 2))"

definition blockType :: "nat \<Rightarrow> nat" where
  "blockType bits = drop_bit 1 bits AND 3"

definition blockLength :: "nat \<Rightarrow> int" where
  "blockLength bits = (if blockType bits = 1 then 1 else int (drop_bit 3 bits))"

text \<open>The loop over the blocks of the frame; it returns the position after the last one.\<close>

function frameBlocks :: "'s world \<Rightarrow> bytes \<Rightarrow> int \<Rightarrow> ('s, int) io" where
  "frameBlocks W body pos =
     io_bind (io_check (w_ctx W)) (\<lambda>_.
     if pos > int (length body) - 3 then io_fail (corrupt ''truncated zstd block'')
     else
       io_bind (io_check (w_tmp W ''read'')) (\<lambda>_.
       let bits = blockBits body pos; pos1 = pos + 3; size = blockLength bits in
       if blockType bits = 3 then io_fail (corrupt ''reserved zstd block type'')
       else if size > int (length body) - pos1 then io_fail (corrupt ''truncated zstd block data'')
       else if bits AND 1 \<noteq> 0 then io_ret (pos1 + size)
       else frameBlocks W body (pos1 + size)))"
  by pat_completeness auto
termination
  by (relation "measure (\<lambda>(W, body, pos). nat (int (length body) - pos))")
     (auto simp: blockLength_def)

declare frameBlocks.simps [simp del]

definition singleFrame :: "'s world \<Rightarrow> 'a log \<Rightarrow> bytes \<Rightarrow> ('s, unit) io" where
  "singleFrame W lg body =
     io_bind (io_check (w_tmp W ''read'')) (\<lambda>_.
     case zstd_header (plat lg) (take 18 body) of
       None \<Rightarrow> io_fail (corrupt ''invalid zstd frame header'')
     | Some (headerSize, hasCheckSum, skippable) \<Rightarrow>
         if skippable then io_fail (corrupt ''invalid zstd frame header'')
         else
           io_bind (frameBlocks W body (int headerSize)) (\<lambda>pos.
           io_bind (io_lift (fail_if (hasCheckSum \<and> int (length body) - pos < 4)
                      (corrupt ''truncated zstd checksum''))) (\<lambda>_.
           io_lift (fail_if ((if hasCheckSum then pos + 4 else pos) \<noteq> int (length body))
                      (corrupt ''trailing zstd data'')))))"

definition decompress :: "'s world \<Rightarrow> 'a log \<Rightarrow> bytes \<Rightarrow> ('s, bytes \<times> goerr option) io" where
  "decompress W lg body =
     io_bind (singleFrame W lg body) (\<lambda>_.
     case zstd_decode (plat lg) body of
       Inl e \<Rightarrow> io_fail (corrupt ''invalid zstd stream'')
     | Inr d \<Rightarrow> io_ret d)"

subsection \<open>The token decoder\<close>

text \<open>
  \<open>ReadValue\<close> consumes the tokens of one value; the text between the first and the last of
  them is the raw value. Meeting a closing bracket first, or the end of the tokens, is an error.
\<close>

fun valueEnd :: "nat \<Rightarrow> lexed \<Rightarrow> (nat \<times> lexed) option" where
  "valueEnd d [] = None"
| "valueEnd d ((t, a, e) # ts) =
     (case t of
        BeginObject \<Rightarrow> valueEnd (Suc d) ts
      | BeginArray \<Rightarrow> valueEnd (Suc d) ts
      | EndObject \<Rightarrow> (case d of 0 \<Rightarrow> None | Suc 0 \<Rightarrow> Some (e, ts) | Suc d' \<Rightarrow> valueEnd d' ts)
      | EndArray \<Rightarrow> (case d of 0 \<Rightarrow> None | Suc 0 \<Rightarrow> Some (e, ts) | Suc d' \<Rightarrow> valueEnd d' ts)
      | _ \<Rightarrow> (if d = 0 then Some (e, ts) else valueEnd d ts))"

definition readValue :: "bytes \<Rightarrow> lexed \<Rightarrow> (bytes \<times> lexed) option" where
  "readValue text toks =
     (case toks of
        [] \<Rightarrow> None
      | (t, a, e) # _ \<Rightarrow>
          (case valueEnd 0 toks of
             None \<Rightarrow> None
           | Some (b, ts) \<Rightarrow> Some (take (b - a) (drop a text), ts)))"

lemma valueEnd_shorter: "valueEnd d toks = Some (e, ts) \<Longrightarrow> length ts < length toks"
  by (induction d toks rule: valueEnd.induct)
     (auto split: jtok.splits nat.splits if_splits)

lemma readValue_shorter: "readValue text toks = Some (v, ts) \<Longrightarrow> length ts < length toks"
  by (auto simp: readValue_def simp del: valueEnd.simps split: list.splits option.splits
      dest!: valueEnd_shorter)

definition peekIs :: "jtok \<Rightarrow> lexed \<Rightarrow> bool" where
  "peekIs t toks \<longleftrightarrow> (case toks of [] \<Rightarrow> False | (t', _) # _ \<Rightarrow> t' = t)"

subsection \<open>parseSegment\<close>

function parseRecords ::
  "'s world \<Rightarrow> 'a log \<Rightarrow> int \<Rightarrow> (projection \<Rightarrow> ('s, unit) io) option \<Rightarrow> bytes \<Rightarrow> lexed \<Rightarrow> int \<Rightarrow> string
     \<Rightarrow> ('s, lexed \<times> int \<times> string) io" where
  "parseRecords W lg endr yield text toks next chain =
     (if peekIs EndArray toks then io_ret (toks, next, chain)
      else
        io_bind (io_check (w_ctx W)) (\<lambda>_.
        case readValue text toks of
          None \<Rightarrow> io_fail (corrupt ''invalid segment record'')
        | Some (value, ts) \<Rightarrow>
            io_bind (io_lift (decodeJSON lg projectionType projectionOf value)) (\<lambda>p.
            io_bind (io_lift (validateProjection lg p)) (\<lambda>revision.
            io_bind (io_lift (fail_if (next > endr \<or> revision \<noteq> next \<or> PreviousRecordHash p \<noteq> chain)
                       (corrupt ''segment adjacency mismatch''))) (\<lambda>_.
            io_bind (case yield of None \<Rightarrow> io_ret () | Some y \<Rightarrow> y p) (\<lambda>_.
            parseRecords W lg endr yield text ts (i64 (next + 1)) (p_RecordHash p)))))))"
  by pat_completeness auto
termination
  by (relation "measure (\<lambda>(W, lg, endr, yield, text, toks, next, chain). length toks)")
     (auto dest: readValue_shorter)

declare parseRecords.simps [simp del]

definition segmentFields :: "string list" where
  "segmentFields = [''format'', ''level'', ''start'', ''end'', ''records'']"

definition wantedField :: "objectRef \<Rightarrow> string \<Rightarrow> string" where
  "wantedField ref name =
     (if name = ''format'' then segmentFormat else if name = ''start'' then Start ref else End ref)"

definition levelMatches :: "'a log \<Rightarrow> objectRef \<Rightarrow> bytes \<Rightarrow> bool" where
  "levelMatches lg ref value \<longleftrightarrow>
     value \<noteq> ''null'' \<and>
     (case json_parse (plat lg) value of None \<Rightarrow> False | Some j \<Rightarrow> unmarshalUint8 j = Some (Level ref))"

text \<open>
  The loop over the members of the envelope. Every round takes at least one token, so a fuel
  of one more than the number of tokens is never used up; without tokens left the code reports
  the error of the first equation.
\<close>

primrec parseFields ::
  "nat \<Rightarrow> 's world \<Rightarrow> 'a log \<Rightarrow> objectRef \<Rightarrow> int \<Rightarrow> (projection \<Rightarrow> ('s, unit) io) option \<Rightarrow> bytes \<Rightarrow>
     lexed \<Rightarrow> string list \<Rightarrow> int \<Rightarrow> string \<Rightarrow> ('s, lexed \<times> string list \<times> int \<times> string) io" where
  "parseFields 0 W lg ref endr yield text toks seen next chain =
     io_fail (corrupt ''invalid or duplicate segment field'')"
| "parseFields (Suc n) W lg ref endr yield text toks seen next chain =
     (if peekIs EndObject toks then io_ret (toks, seen, next, chain)
      else
        io_bind (io_check (w_ctx W)) (\<lambda>_.
        case toks of
          (TokString name, _) # ts \<Rightarrow>
            io_bind (io_lift (fail_if (name \<in> set seen)
                       (corrupt ''invalid or duplicate segment field''))) (\<lambda>_.
            io_bind (io_lift (fail_if (list_ex (\<lambda>field. name \<noteq> field \<and> equalFold name field) segmentFields)
                       (corrupt ''noncanonical segment field name''))) (\<lambda>_.
            if name \<in> {''format'', ''start'', ''end''} then
              (case ts of
                 (TokString v, _) # ts' \<Rightarrow>
                   io_bind (io_lift (fail_if (v \<noteq> wantedField ref name)
                              (corrupt ''segment envelope mismatch''))) (\<lambda>_.
                   parseFields n W lg ref endr yield text ts' (name # seen) next chain)
               | _ \<Rightarrow> io_fail (corrupt ''segment envelope mismatch''))
            else if name = ''level'' then
              (case readValue text ts of
                 None \<Rightarrow> io_fail (corrupt ''segment level mismatch'')
               | Some (value, ts') \<Rightarrow>
                   io_bind (io_lift (fail_if (\<not> levelMatches lg ref value)
                              (corrupt ''segment level mismatch''))) (\<lambda>_.
                   parseFields n W lg ref endr yield text ts' (name # seen) next chain))
            else if name = ''records'' then
              (case ts of
                 (BeginArray, _) # ts' \<Rightarrow>
                   io_bind (parseRecords W lg endr yield text ts' next chain) (\<lambda>(ts'', next', chain').
                   parseFields n W lg ref endr yield text (drop 1 ts'') (name # seen) next' chain')
               | _ \<Rightarrow> io_fail (corrupt ''invalid segment records''))
            else
              (case readValue text ts of
                 None \<Rightarrow> io_fail (corrupt ''invalid unknown segment field'')
               | Some (value, ts') \<Rightarrow>
                   parseFields n W lg ref endr yield text ts' (name # seen) next chain)))
        | _ \<Rightarrow> io_fail (corrupt ''invalid or duplicate segment field'')))"

definition parseSegment ::
  "'s world \<Rightarrow> 'a log \<Rightarrow> objectRef \<Rightarrow> bytes \<times> goerr option \<Rightarrow> (projection \<Rightarrow> ('s, unit) io) option
     \<Rightarrow> ('s, unit) io" where
  "parseSegment W lg ref input yield =
     io_bind (io_lift (validateRef lg ref)) (\<lambda>(start, endr).
     io_bind (io_lift (fail_if (Level ref = 0) (corrupt ''expected segment reference''))) (\<lambda>_.
     let text = fst input; toks = fst (json_lex (plat lg) text);
         clean = (snd (json_lex (plat lg) text) \<and> snd input = None) in
     case toks of
       (BeginObject, _) # ts \<Rightarrow>
         io_bind (parseFields (Suc (length ts)) W lg ref endr yield text ts [] start (FirstPrevHash ref))
           (\<lambda>(ts', seen, next, chain).
         io_bind (io_lift (fail_if (drop 1 ts' \<noteq> [] \<or> \<not> clean)
                    (corrupt ''trailing or invalid segment data''))) (\<lambda>_.
         io_bind (io_lift (fail_if (list_ex (\<lambda>field. field \<notin> set seen) segmentFields)
                    (corrupt ''missing segment field''))) (\<lambda>_.
         io_lift (fail_if (next \<noteq> i64 (endr + 1) \<or> chain \<noteq> LastRecordHash ref)
                    (corrupt ''segment boundary mismatch'')))))
     | _ \<Rightarrow> io_fail (corrupt ''invalid segment envelope'')))"

definition decodeSegment ::
  "'s world \<Rightarrow> 'a log \<Rightarrow> objectRef \<Rightarrow> bytes \<Rightarrow> (projection \<Rightarrow> ('s, unit) io) option \<Rightarrow> ('s, unit) io" where
  "decodeSegment W lg ref body yield =
     io_bind (io_lift (validateRef lg ref)) (\<lambda>_.
     io_bind (decompress W lg body) (\<lambda>input.
     io_bind (io_try (parseSegment W lg ref input yield)) (\<lambda>r.
     io_bind (io_check (w_ctx W)) (\<lambda>_.
     io_bind (io_lift r) (\<lambda>_.
     io_lift (fail_if (digest lg (fst input) \<noteq> SHA256 ref) (corrupt ''segment digest mismatch'')))))))"

subsection \<open>Loading the records of a reference\<close>

definition loadCommitRef :: "'s world \<Rightarrow> 'a log \<Rightarrow> objectRef \<Rightarrow> 'a snap option \<Rightarrow> ('s, commit) io" where
  "loadCommitRef W lg ref cached =
     io_bind (io_lift (validateRef lg ref)) (\<lambda>_.
     io_bind (io_lift (fail_if (Level ref \<noteq> 0) (corrupt ''expected commit reference''))) (\<lambda>_.
     io_bind (if cached \<noteq> None \<and> Key ref = logKey lg (snapRevision cached)
              then io_ret (s_body (the cached)) else getObject W (Key ref) True) (\<lambda>b.
     io_bind (io_lift (fail_if (digest lg b \<noteq> SHA256 ref) (corrupt ''commit object digest mismatch''))) (\<lambda>_.
     io_bind (io_lift (decodeCommit lg (Key ref) b)) (\<lambda>c.
     io_bind (io_lift (fail_if (PreviousRecordHash (project c) \<noteq> FirstPrevHash ref \<or>
                                p_RecordHash (project c) \<noteq> LastRecordHash ref)
                (corrupt ''commit reference hash boundary mismatch''))) (\<lambda>_.
     io_ret c))))))"

text \<open>
  \<open>emit\<close> appends a projection to the scratch file; the file is the closure's own variable
  beside the state. The projections were validated, so reading them back from the file's JSON
  gives the same projections, and the file is kept as their list.
\<close>

definition emitRecord :: "'s world \<Rightarrow> projection \<Rightarrow> ('s \<times> projection list, unit) io" where
  "emitRecord W p =
     io_wrap (eventCodecError ''spool'')
       (io_bind (tempWrite (lift_world W)) (\<lambda>_ x. (Inr (), (fst x, snd x @ [p]))))"

definition loadRecordFile ::
  "'s world \<Rightarrow> 'a log \<Rightarrow> objectRef \<Rightarrow> 'a snap option \<Rightarrow> ('s, projection list) io" where
  "loadRecordFile W lg ref base =
     io_bind (io_lift (validateRef lg ref)) (\<lambda>_.
     io_bind (newTemp W) (\<lambda>_.
     io_onerr (tempClose W)
       (io_bind (run_local []
          (if Level ref = 0
           then io_bind (loadCommitRef (lift_world W) lg ref base) (\<lambda>c. emitRecord W (project c))
           else
             io_bind (download (lift_world W) ref) (\<lambda>body.
             io_defer (tempClose (lift_world W))
               (decodeSegment (lift_world W) lg ref body (Some (emitRecord W))))))
        (\<lambda>(r, file).
        io_bind (io_lift r) (\<lambda>_.
        io_bind (io_check (w_ctx W)) (\<lambda>_.
        io_ret file))))))"

text \<open>\<open>recordFile.each\<close>; a failing read of the scratch file is a codec error.\<close>

fun each :: "'s world \<Rightarrow> (projection \<Rightarrow> ('s, unit) io) \<Rightarrow> projection list \<Rightarrow> ('s, unit) io" where
  "each W yield [] =
     io_bind (io_check (w_ctx W)) (\<lambda>_. io_wrap (eventCodecError ''read spooled'') (io_check (w_tmp W ''read'')))"
| "each W yield (p # ps) =
     io_bind (io_check (w_ctx W)) (\<lambda>_.
     io_bind (io_wrap (eventCodecError ''read spooled'') (io_check (w_tmp W ''read''))) (\<lambda>_.
     io_bind (yield p) (\<lambda>_.
     each W yield ps)))"

definition readRecords ::
  "'s world \<Rightarrow> 'a log \<Rightarrow> objectRef \<Rightarrow> 'a snap option \<Rightarrow> (projection \<Rightarrow> ('s, unit) io) \<Rightarrow> ('s, unit) io" where
  "readRecords W lg ref base yield =
     (if Level ref = 0
      then io_bind (loadCommitRef W lg ref base) (\<lambda>c. yield (project c))
      else
        io_bind (loadRecordFile W lg ref base) (\<lambda>f.
        io_defer (tempClose W) (each W yield f)))"

subsection \<open>createSegment\<close>

definition aggregateRef :: "nat \<Rightarrow> objectRef list \<Rightarrow> objectRef" where
  "aggregateRef level children =
     \<lparr>Level = level, Start = Start (hd children), End = End (last children), Key = [], SHA256 = [],
      FirstPrevHash = FirstPrevHash (hd children), LastRecordHash = LastRecordHash (last children)\<rparr>"

definition outSegment :: "objectRef \<Rightarrow> projection list \<Rightarrow> jout" where
  "outSegment ref ps = OObj
     [(''format'', OStr segmentFormat), (''level'', ONum (Level ref)), (''start'', OStr (Start ref)),
      (''end'', OStr (End ref)), (''records'', OArr (map outProjection ps))]"

definition createAggregate :: "'s world \<Rightarrow> 'a log \<Rightarrow> objectRef \<Rightarrow> bytes \<Rightarrow> ('s, unit) io" where
  "createAggregate W lg ref body =
     io_bind (io_check (w_ctx W)) (\<lambda>_.
     io_bind (io_poll (w_create W (Key ref) body)) (\<lambda>createErr.
     case createErr of
       None \<Rightarrow> io_ret ()
     | Some ce \<Rightarrow>
         io_bind (io_try (download W ref)) (\<lambda>r. case r of
           Inl err \<Rightarrow>
             io_fail (if errors_is err ErrNotFound \<and> \<not> errors_is ce ErrExists
                      then Wrap (''create '' @ Key ref) [ce] else err)
         | Inr actual \<Rightarrow> io_defer (tempClose W) (decodeSegment W lg ref actual None))))"

text \<open>
  The variables that the record callback of \<open>createSegment\<close> captures: the expected revision
  and hash, the records written to the JSON stream so far, and how many part files are open.
\<close>

record merge =
  m_next :: int
  m_chain :: string
  m_out :: "projection list"
  m_open :: nat

definition mergeRecord :: "'s world \<Rightarrow> projection \<Rightarrow> ('s \<times> merge, unit) io" where
  "mergeRecord W p =
     io_bind (\<lambda>x. (fail_if (p_Revision p \<noteq> hexRevision (m_next (snd x)) \<or>
                            PreviousRecordHash p \<noteq> m_chain (snd x))
                     (corrupt ''compaction adjacency mismatch''), x)) (\<lambda>_.
     io_bind (\<lambda>x. (Inr (), (fst x, (snd x)\<lparr>m_chain := p_RecordHash p, m_next := i64 (m_next (snd x) + 1)\<rparr>))) (\<lambda>_.
     io_bind (tempWrite (lift_world W)) (\<lambda>_ x.
     (Inr (), (fst x, (snd x)\<lparr>m_out := m_out (snd x) @ [p]\<rparr>)))))"

fun loadParts ::
  "'s world \<Rightarrow> 'a log \<Rightarrow> 'a snap option \<Rightarrow> objectRef list \<Rightarrow> ('s \<times> merge, projection list list) io" where
  "loadParts W lg base [] = io_ret []"
| "loadParts W lg base (child # cs) =
     io_bind (loadRecordFile (lift_world W) lg child base) (\<lambda>part.
     io_bind (\<lambda>x. (Inr (), (fst x, (snd x)\<lparr>m_open := Suc (m_open (snd x))\<rparr>))) (\<lambda>_.
     io_bind (loadParts W lg base cs) (\<lambda>parts.
     io_ret (part # parts))))"

fun mergeParts :: "'s world \<Rightarrow> projection list list \<Rightarrow> ('s \<times> merge, unit) io" where
  "mergeParts W [] = io_ret ()"
| "mergeParts W (part # parts) =
     io_bind (each (lift_world W) (mergeRecord W) part) (\<lambda>_.
     io_bind (\<lambda>x. (Inr (), (fst x, (snd x)\<lparr>m_open := m_open (snd x) - 1\<rparr>))) (\<lambda>_.
     io_bind (io_check (tempClose (lift_world W))) (\<lambda>_.
     mergeParts W parts)))"

fun mergeGroups ::
  "'s world \<Rightarrow> 'a log \<Rightarrow> 'a snap option \<Rightarrow> objectRef list list \<Rightarrow> ('s \<times> merge, unit) io" where
  "mergeGroups W lg base [] = io_ret ()"
| "mergeGroups W lg base (grp # gs) =
     io_bind (loadParts W lg base grp) (\<lambda>parts.
     io_bind (io_check (w_ctx (lift_world W))) (\<lambda>_.
     io_bind (mergeParts W parts) (\<lambda>_.
     mergeGroups W lg base gs)))"

definition groupsOf4 :: "objectRef list \<Rightarrow> objectRef list list" where
  "groupsOf4 children = map (\<lambda>g. take 4 (drop (4 * g) children)) [0..<4]"

definition mergeChildren ::
  "'s world \<Rightarrow> 'a log \<Rightarrow> 'a snap option \<Rightarrow> objectRef \<Rightarrow> objectRef list \<Rightarrow> ('s \<times> merge, unit) io" where
  "mergeChildren W lg base ref children =
     io_bind (mergeGroups W lg base (groupsOf4 children)) (\<lambda>_ x.
     (fail_if (case parseRevision (End ref) of
                 Inl _ \<Rightarrow> True
               | Inr end \<Rightarrow> m_next (snd x) \<noteq> i64 (end + 1) \<or> m_chain (snd x) \<noteq> LastRecordHash ref)
        (corrupt ''compaction boundary mismatch''), x))"

text \<open>The deferred loop that closes the parts still open.\<close>

fun closeParts :: "'s world \<Rightarrow> nat \<Rightarrow> ('s, 'b) io \<Rightarrow> ('s, 'b) io" where
  "closeParts W 0 m = m"
| "closeParts W (Suc n) m = io_defer (tempClose W) (closeParts W n m)"

definition sealRef :: "'a log \<Rightarrow> objectRef \<Rightarrow> bytes \<Rightarrow> objectRef" where
  "sealRef lg ref text =
     (let ref1 = ref\<lparr>SHA256 := digest lg text\<rparr> in ref1\<lparr>Key := treeKey lg ref1\<rparr>)"

text \<open>\<open>errors.Join(marshalErr, closeErr, ctx.Err())\<close> after the stream was written.\<close>

definition finishStream :: "'s world \<Rightarrow> (goerr + unit) \<Rightarrow> bytes option \<Rightarrow> ('s, bytes) io" where
  "finishStream W r text =
     io_bind (io_poll (w_tmp W ''write'')) (\<lambda>closeErr.
     io_bind (io_poll (w_ctx W)) (\<lambda>ctxErr.
     let marshalErr = (case r of Inl e \<Rightarrow> Some e
                       | Inr _ \<Rightarrow> (if text = None then Some (Msg ''json: invalid value'') else None)) in
     io_lift (case errors_join [marshalErr, closeErr, ctxErr] of
                Some e \<Rightarrow> Inl (eventCodecError ''encode segment'' e)
              | None \<Rightarrow> Inr (the text))))"

definition createSegment ::
  "'s world \<Rightarrow> 'a log \<Rightarrow> objectRef list \<Rightarrow> 'a snap option \<Rightarrow> ('s, objectRef) io" where
  "createSegment W lg children base =
     io_bind (io_lift (fail_if (length children \<noteq> 16) (corrupt ''invalid compaction child count''))) (\<lambda>_.
     let ref = aggregateRef ((Level (hd children) + 1) mod 256) children in
     io_bind (newTemp W) (\<lambda>_.
     io_defer (tempClose W)
      (io_bind (io_lift (parseRevision (Start ref))) (\<lambda>next.
       io_bind (run_local \<lparr>m_next = next, m_chain = FirstPrevHash ref, m_out = [], m_open = 0\<rparr>
                  (mergeChildren W lg base ref children)) (\<lambda>(r, m).
       closeParts W (m_open m)
        (io_bind (finishStream W r (json_print (plat lg) (outSegment ref (m_out m)))) (\<lambda>text.
         let sealed = sealRef lg ref text in
         io_bind (io_lift (validateRef lg sealed)) (\<lambda>_.
         io_bind (createAggregate W lg sealed (zstd_encode (plat lg) text)) (\<lambda>_.
         io_ret sealed)))))))))"

subsection \<open>carry\<close>

definition commitRef :: "'a log \<Rightarrow> 'a snap \<Rightarrow> objectRef" where
  "commitRef lg s =
     (let p = project (s_commit s) in
      \<lparr>Level = 0, Start = p_Revision p, End = p_Revision p, Key = logKey lg (Revision (s_record s)),
       SHA256 = digest lg (s_body s), FirstPrevHash = PreviousRecordHash p,
       LastRecordHash = p_RecordHash p\<rparr>)"

text \<open>
  The loop over the levels: append the carried reference; a level that becomes full is
  compacted into the next carried reference and emptied. A frontier level is below 16 in every
  snapshot (\<open>validateFrontier\<close>).
\<close>

fun carryLoop ::
  "'s world \<Rightarrow> 'a log \<Rightarrow> 'a snap \<Rightarrow> nat list \<Rightarrow> objectRef list list \<Rightarrow> objectRef \<Rightarrow>
     ('s, objectRef list list) io" where
  "carryLoop W lg base [] levels carried = io_ret levels"
| "carryLoop W lg base (level # ls) levels carried =
     (let refs = levels ! level @ [carried] in
      if length refs < 16 then io_ret (levels[level := refs])
      else
        io_bind (createSegment W lg refs (Some base)) (\<lambda>carried'.
        carryLoop W lg base ls (levels[level := []]) carried'))"

definition spreadLevels :: "frontierLevel list \<Rightarrow> objectRef list list" where
  "spreadLevels fs = foldl (\<lambda>levels f. levels[f_Level f := Refs f]) (replicate 16 []) fs"

definition gatherLevels :: "objectRef list list \<Rightarrow> frontierLevel list" where
  "gatherLevels levels =
     map (\<lambda>level. \<lparr>f_Level = level, Refs = levels ! level\<rparr>) (filter (\<lambda>level. levels ! level \<noteq> []) [0..<16])"

definition carry :: "'s world \<Rightarrow> 'a log \<Rightarrow> 'a snap \<Rightarrow> ('s, frontierLevel list) io" where
  "carry W lg base =
     io_bind (carryLoop W lg base [0..<16] (spreadLevels (c_Frontier (s_commit base))) (commitRef lg base))
       (\<lambda>levels. io_ret (gatherLevels levels))"

subsection \<open>Reading operations keep a relation\<close>

context world_rel
begin

lemma lifted: "world_rel (\<lambda>x y. R (fst x) (fst y)) (lift_world W)"
  by (rule lifted_rel [OF world_rel_axioms])

text \<open>A step on the closure's own variables.\<close>

lemma rel_own: "io_rel (\<lambda>x y. R (fst x) (fst y)) (\<lambda>x. (g x, (fst x, h x)))"
  by (simp add: io_rel_def R_refl)

lemma rel_defer_own: "io_rel R m \<Longrightarrow> io_rel R (io_defer (\<lambda>s. (e, s)) m)"
  by (rule rel_defer) (auto intro: R_refl)

lemma rel_copyBody: "io_rel R (copyBody W key st)"
  unfolding copyBody_def by (intro rel_intros rel_readStream)

lemma rel_download: "io_rel R (download W ref)"
  unfolding download_def
  by (intro rel_bind rel_openObject rel_try rel_newTemp rel_sum rel_defer_own rel_onerr_close
      rel_fail rel_copyBody)

lemma rel_frameBlocks: "io_rel R (frameBlocks W body pos)"
proof (induction "nat (int (length body) - pos)" arbitrary: pos rule: less_induct)
  case less
  have nonneg: "0 \<le> blockLength n" for n by (simp add: blockLength_def)
  then have "io_rel R (frameBlocks W body (pos + 3 + blockLength (blockBits body pos)))"
    if "\<not> int (length body) - 3 < pos"
    using that nonneg [of "blockBits body pos"] by (intro less) linarith
  then show ?case
    by (subst frameBlocks.simps) (auto simp: Let_def intro!: rel_bind rel_ctx rel_tmp rel_if rel_fail rel_ret)
qed

lemma rel_decompress: "io_rel R (decompress W lg body)"
  unfolding decompress_def singleFrame_def
  by (auto intro!: rel_intros rel_frameBlocks split: option.splits)

lemma rel_parseRecords:
  assumes "\<forall>y. yield = Some y \<longrightarrow> (\<forall>p. io_rel R (y p))"
  shows "io_rel R (parseRecords W lg endr yield text toks next chain)"
proof (induction "length toks" arbitrary: toks "next" chain rule: less_induct)
  case less
  have "io_rel R (case yield of None \<Rightarrow> io_ret () | Some y \<Rightarrow> y p)" for p
    using assms by (intro rel_option rel_ret) simp
  then show ?case
    by (subst parseRecords.simps)
       (auto intro!: rel_bind rel_ctx rel_lift rel_if rel_ret rel_option rel_fail
          less readValue_shorter split: prod.splits)
qed

lemma rel_case_prod: "(\<And>a b. x = (a, b) \<Longrightarrow> io_rel R (f a b)) \<Longrightarrow> io_rel R (case x of (a, b) \<Rightarrow> f a b)"
  by (cases x) simp

lemma rel_case_list:
  "(xs = [] \<Longrightarrow> io_rel R m) \<Longrightarrow> (\<And>y ys. xs = y # ys \<Longrightarrow> io_rel R (f y ys)) \<Longrightarrow>
     io_rel R (case xs of [] \<Rightarrow> m | y # ys \<Rightarrow> f y ys)"
  by (simp split: list.splits)

lemma rel_case_jtok:
  "io_rel R a \<Longrightarrow> io_rel R b \<Longrightarrow> io_rel R c \<Longrightarrow> io_rel R d \<Longrightarrow> (\<And>s. t = TokString s \<Longrightarrow> io_rel R (f s)) \<Longrightarrow>
     io_rel R e \<Longrightarrow> io_rel R (case t of BeginObject \<Rightarrow> a | EndObject \<Rightarrow> b | BeginArray \<Rightarrow> c | EndArray \<Rightarrow> d
       | TokString s \<Rightarrow> f s | TokLiteral \<Rightarrow> e)"
  by (simp split: jtok.splits)

lemmas rel_cases = rel_case_prod rel_case_list rel_case_jtok

lemma rel_parseFields:
  assumes "\<forall>y. yield = Some y \<longrightarrow> (\<forall>p. io_rel R (y p))"
  shows "io_rel R (parseFields n W lg ref endr yield text toks seen next chain)"
proof (induction n arbitrary: toks seen "next" chain)
  case 0
  show ?case by (simp only: parseFields.simps rel_fail)
next
  case (Suc n)
  show ?case
    unfolding parseFields.simps
    by (auto intro!: rel_if rel_bind rel_ctx rel_ret rel_fail rel_lift rel_option Suc
          rel_parseRecords [OF assms] split: list.splits prod.splits jtok.splits)
qed

lemma rel_parseSegment:
  assumes "\<forall>y. yield = Some y \<longrightarrow> (\<forall>p. io_rel R (y p))"
  shows "io_rel R (parseSegment W lg ref input yield)"
  unfolding parseSegment_def Let_def
  by (intro rel_bind rel_lift rel_fail rel_parseFields [OF assms] rel_cases)

lemma rel_decodeSegment:
  assumes "\<forall>y. yield = Some y \<longrightarrow> (\<forall>p. io_rel R (y p))"
  shows "io_rel R (decodeSegment W lg ref body yield)"
  unfolding decodeSegment_def
  by (intro rel_bind rel_lift rel_decompress rel_try rel_ctx rel_parseSegment [OF assms])

lemma rel_loadCommitRef: "io_rel R (loadCommitRef W lg ref cached)"
  unfolding loadCommitRef_def by (intro rel_bind rel_lift rel_if rel_ret rel_getObject)

lemma rel_emitRecord: "io_rel (\<lambda>x y. R (fst x) (fst y)) (emitRecord W p)"
  unfolding emitRecord_def
  using world_rel.rel_tempWrite [OF lifted] world_rel.axioms(1) [OF lifted] rel_own
  by (intro state_preorder.rel_wrap state_preorder.rel_bind) auto

lemma rel_loadRecordFile: "io_rel R (loadRecordFile W lg ref base)"
proof -
  note l = lifted
  note sp = world_rel.axioms(1) [OF l]
  have "io_rel (\<lambda>x y. R (fst x) (fst y))
     (if Level ref = 0
      then io_bind (loadCommitRef (lift_world W) lg ref base) (\<lambda>c. emitRecord W (project c))
      else
        io_bind (download (lift_world W) ref) (\<lambda>body.
        io_defer (tempClose (lift_world W))
          (decodeSegment (lift_world W) lg ref body (Some (emitRecord W)))))"
    by (intro state_preorder.rel_if [OF sp] state_preorder.rel_bind [OF sp]
        world_rel.rel_loadCommitRef [OF l] world_rel.rel_download [OF l]
        world_rel.rel_defer_close [OF l] world_rel.rel_decodeSegment [OF l] rel_emitRecord)
      (simp add: rel_emitRecord)
  then show ?thesis
    unfolding loadRecordFile_def
    by (auto intro!: rel_bind rel_lift rel_newTemp rel_onerr_close rel_local rel_ctx rel_ret)
qed

lemma rel_each: "(\<And>p. io_rel R (yield p)) \<Longrightarrow> io_rel R (each W yield ps)"
  by (induction ps) (simp_all only: each.simps rel_bind rel_ctx rel_wrap rel_tmp)

lemma rel_readRecords:
  assumes "\<And>p. io_rel R (yield p)"
  shows "io_rel R (readRecords W lg ref base yield)"
  unfolding readRecords_def
  by (intro rel_if rel_bind rel_loadCommitRef rel_loadRecordFile rel_defer_close rel_each assms)

lemma rel_mergeRecord: "io_rel (\<lambda>x y. R (fst x) (fst y)) (mergeRecord W p)"
  unfolding mergeRecord_def
  using world_rel.rel_tempWrite [OF lifted] world_rel.axioms(1) [OF lifted] rel_own
    world_rel.rel_pure [OF lifted]
  by (intro state_preorder.rel_bind) auto

lemma rel_loadParts: "io_rel (\<lambda>x y. R (fst x) (fst y)) (loadParts W lg base cs)"
proof (induction cs)
  case Nil
  show ?case by (simp only: loadParts.simps state_preorder.rel_ret [OF world_rel.axioms(1) [OF lifted]])
next
  case (Cons c cs)
  note sp = world_rel.axioms(1) [OF lifted]
  show ?case
    unfolding loadParts.simps
    by (intro state_preorder.rel_bind [OF sp] world_rel.rel_loadRecordFile [OF lifted] rel_own Cons
        state_preorder.rel_ret [OF sp])
qed

lemma rel_mergeParts: "io_rel (\<lambda>x y. R (fst x) (fst y)) (mergeParts W parts)"
proof (induction parts)
  case Nil
  show ?case by (simp only: mergeParts.simps state_preorder.rel_ret [OF world_rel.axioms(1) [OF lifted]])
next
  case (Cons c cs)
  note sp = world_rel.axioms(1) [OF lifted]
  show ?case
    unfolding mergeParts.simps
    by (intro state_preorder.rel_bind [OF sp] world_rel.rel_each [OF lifted] rel_mergeRecord rel_own Cons
        state_preorder.rel_check [OF sp] world_rel.rel_close [OF lifted])
qed

lemma rel_mergeGroups: "io_rel (\<lambda>x y. R (fst x) (fst y)) (mergeGroups W lg base gs)"
proof (induction gs)
  case Nil
  show ?case by (simp only: mergeGroups.simps state_preorder.rel_ret [OF world_rel.axioms(1) [OF lifted]])
next
  case (Cons c cs)
  note sp = world_rel.axioms(1) [OF lifted]
  show ?case
    unfolding mergeGroups.simps
    by (intro state_preorder.rel_bind [OF sp] rel_loadParts world_rel.rel_ctx [OF lifted]
        rel_mergeParts Cons)
qed

lemma rel_mergeChildren:
  "io_rel (\<lambda>x y. R (fst x) (fst y)) (mergeChildren W lg base ref children)"
  unfolding mergeChildren_def
  by (intro state_preorder.rel_bind [OF world_rel.axioms(1) [OF lifted]] rel_mergeGroups
      world_rel.rel_pure [OF lifted])

lemma rel_closeParts: "io_rel R m \<Longrightarrow> io_rel R (closeParts W n m)"
  by (induction n) (auto intro: rel_defer_close)

lemma rel_finishStream: "io_rel R (finishStream W r text)"
  unfolding finishStream_def Let_def by (intro rel_bind rel_poll_tmp rel_poll_ctx rel_lift)

text \<open>
  The two writing operations keep the relation whenever their Create does, and the Create of
  \<open>createSegment\<close> is reached only for a sealed reference that validates.
\<close>

lemma rel_createAggregate:
  assumes "io_rel R (io_poll (w_create W (Key ref) body))"
  shows "io_rel R (createAggregate W lg ref body)"
  unfolding createAggregate_def
  by (intro rel_bind rel_ctx assms rel_option rel_ret rel_try rel_download rel_sum rel_fail
      rel_defer_close rel_decodeSegment) simp_all

end

end
