(* ===== verification/SegmentFacts.thy ===== *)
theory SegmentFacts
  imports Segment
begin

section \<open>What the segment operations guarantee\<close>

text \<open>
  Reading: whatever the store contains, a reference whose records load successfully yields
  exactly the projections of its revisions, in order, hash-linked from the reference's first to
  its last boundary. Writing: a carry from a valid snapshot produces a frontier that is valid
  for the next revision.
\<close>

subsection \<open>Chains of projections\<close>

fun proj_chain :: "'a log \<Rightarrow> projection list \<Rightarrow> int \<times> string \<Rightarrow> int \<times> string \<Rightarrow> bool" where
  "proj_chain lg [] a b \<longleftrightarrow> a = b"
| "proj_chain lg (p # ps) a b \<longleftrightarrow>
     validateProjection lg p = Inr (fst a) \<and> PreviousRecordHash p = snd a \<and>
     proj_chain lg ps (fst a + 1, p_RecordHash p) b"

lemma proj_chain_append:
  "proj_chain lg (xs @ ys) a c \<longleftrightarrow> (\<exists>b. proj_chain lg xs a b \<and> proj_chain lg ys b c)"
  by (induction xs arbitrary: a) auto

lemma proj_chain_length: "proj_chain lg ps a b \<Longrightarrow> fst b = fst a + int (length ps)"
  by (induction ps arbitrary: a) auto

lemma validateProjection_Inr:
  assumes "validateProjection lg p = Inr r"
  shows "valid_rev r" and "p_Revision p = hexRevision r"
    and "recordHash lg r (p_CommitID p) (PreviousRecordHash p) (p_Event p) = p_RecordHash p"
    and "validHex (p_CommitID p) 32" and "validHex (PreviousRecordHash p) 64"
    and "validHex (p_RecordHash p) 64" and "r = 1 \<Longrightarrow> PreviousRecordHash p = zeroHash"
  using assms by (auto simp: validateProjection_def ebind_eq_Inr_iff parseRevision_iff)

lemma proj_chain_nth:
  "proj_chain lg ps a b \<Longrightarrow> i < length ps \<Longrightarrow> validateProjection lg (ps ! i) = Inr (fst a + int i)"
proof (induction ps arbitrary: a i)
  case (Cons p ps)
  then show ?case by (cases i) (fastforce simp: algebra_simps)+
qed simp

subsection \<open>Running a callback over the records\<close>

text \<open>
  A callback keeps variables of its own, seen through a view \<open>v\<close> of the state that the world's
  operations leave alone. \<open>run_over v y xs x x'\<close>: the callback \<open>y\<close> ran successfully on each of
  \<open>xs\<close> in order, and between the calls only the rest of the state changed.
\<close>

fun run_over :: "('s \<Rightarrow> 'u) \<Rightarrow> ('p \<Rightarrow> ('s, unit) io) \<Rightarrow> 'p list \<Rightarrow> 's \<Rightarrow> 's \<Rightarrow> bool" where
  "run_over v y [] x x' \<longleftrightarrow> v x' = v x"
| "run_over v y (p # ps) x x' \<longleftrightarrow>
     (\<exists>x1 x2. v x1 = v x \<and> y p x1 = (Inr (), x2) \<and> run_over v y ps x2 x')"

lemma run_over_before: "run_over v y ps x1 x' \<Longrightarrow> v x1 = v x \<Longrightarrow> run_over v y ps x x'"
  by (cases ps) auto

lemma run_over_after: "run_over v y ps x x1 \<Longrightarrow> v x' = v x1 \<Longrightarrow> run_over v y ps x x'"
  by (induction ps arbitrary: x) fastforce+

lemma run_over_append:
  "run_over v y ps x x1 \<Longrightarrow> run_over v y qs x1 x' \<Longrightarrow> run_over v y (ps @ qs) x x'"
proof (induction ps arbitrary: x)
  case Nil
  then show ?case by (auto intro: run_over_before)
next
  case (Cons p ps)
  then show ?case unfolding append_Cons run_over.simps by blast
qed

locale view_world =
  fixes v :: "'s \<Rightarrow> 'u" and W :: "'s world"
  assumes view: "world_rel (\<lambda>x y. v y = v x) W"

sublocale view_world \<subseteq> view: world_rel "\<lambda>x y. v y = v x" W
  by (rule view)

text \<open>Beside a closure's variables, the world's own operations are silent.\<close>

interpretation beside: view_world snd "lift_world W"
  by unfold_locales (auto simp: lift_world_def lift_op_eq_iff)

text \<open>The views compose: a closure inside a closure.\<close>

lemma view_lift:
  assumes "view_world v W"
  shows "view_world (\<lambda>x. (v (fst x), snd x)) (lift_world W)"
proof -
  note w = view_world.view [OF assms]
  show ?thesis
    using world_rel.r_ctx [OF w] world_rel.r_list [OF w] world_rel.r_get [OF w]
      world_rel.r_rand [OF w] world_rel.r_tmp [OF w]
    by unfold_locales (auto simp: lift_world_def lift_op_eq_iff)
qed

text \<open>References as stretches of the log.\<close>

definition ref_chain :: "'a log \<Rightarrow> objectRef \<Rightarrow> projection list \<Rightarrow> bool" where
  "ref_chain lg ref ps \<longleftrightarrow>
     (\<exists>s e. validateRef lg ref = Inr (s, e) \<and>
            proj_chain lg ps (s, FirstPrevHash ref) (e + 1, LastRecordHash ref))"

context view_world
begin

lemma silentD: "io_rel (\<lambda>x y. v y = v x) m \<Longrightarrow> m x = (r, x') \<Longrightarrow> v x' = v x"
  by (auto dest: io_relD)

lemma parseRecords_run:
  assumes "parseRecords W lg endr (Some y) text toks next chain x = (Inr (ts, n', c'), x')"
    and "endr \<le> MaxRevision"
  shows "\<exists>ps. run_over v y ps x x' \<and> proj_chain lg ps (next, chain) (n', c')"
  using assms(1)
proof (induction "length toks" arbitrary: toks "next" chain x rule: less_induct)
  case less
  show ?case
  proof (cases "peekIs EndArray toks")
    case True
    with less.prems have "n' = next \<and> c' = chain \<and> x' = x"
      by (subst (asm) parseRecords.simps) simp
    then show ?thesis by (intro exI [of _ "[]"]) simp
  next
    case False
    with less.prems obtain x1 val ts' p x2 where c: "w_ctx W x = (None, x1)"
        and v': "readValue text toks = Some (val, ts')" and p: "validateProjection lg p = Inr next"
        and le: "next \<le> endr" and h: "PreviousRecordHash p = chain" and y: "y p x1 = (Inr (), x2)"
        and r: "parseRecords W lg endr (Some y) text ts' (i64 (next + 1)) (p_RecordHash p) x2
                  = (Inr (ts, n', c'), x')"
      by (subst (asm) parseRecords.simps) (auto simp: io_bind_eq_Inr_iff split: option.splits)
    have "i64 (next + 1) = next + 1"
      using validateProjection_Inr(1) [OF p] by (intro i64_small) (simp_all add: bounds)
    with less.hyps [OF readValue_shorter [OF v'] r] obtain ps
      where ps: "run_over v y ps x2 x'" "proj_chain lg ps (next + 1, p_RecordHash p) (n', c')" by auto
    have "v x1 = v x" using view.r_ctx [OF c] by simp
    then have "run_over v y (p # ps) x x'" using y ps(1) unfolding run_over.simps by blast
    moreover have "proj_chain lg (p # ps) (next, chain) (n', c')" using p h ps(2) by simp
    ultimately show ?thesis by blast
  qed
qed

text \<open>
  \<open>parseFields\<close> reads the records array at most once, as a second \<open>records\<close> member is a
  duplicate; before it the expected position is the reference's start.
\<close>

lemma parseFields_run:
  assumes "parseFields n W lg ref endr (Some y) text toks seen next chain x
      = (Inr (ts, seen', n', c'), x')"
    and "endr \<le> MaxRevision"
  shows "\<exists>ps. run_over v y ps x x' \<and> proj_chain lg ps (next, chain) (n', c')"
  using assms(1)
proof (induction n arbitrary: toks seen "next" chain x)
  case (Suc n)
  let ?pf = "parseFields n W lg ref endr (Some y) text"
  have step: "\<exists>ps. run_over v y ps x x' \<and> proj_chain lg ps (next, chain) (n', c')"
    if "w_ctx W x = (None, x1)" "?pf toks' seen1 next chain x1 = (Inr (ts, seen', n', c'), x')"
    for x1 toks' seen1
    using Suc.IH [OF that(2)] view.r_ctx [OF that(1)] run_over_before [of v y _ x1 x' x]
    by auto
  show ?case
  proof (cases "peekIs EndObject toks")
    case True
    with Suc.prems show ?thesis by (intro exI [of _ "[]"]) simp
  next
    case False
    with Suc.prems obtain x1 where c: "w_ctx W x = (None, x1)"
      by (auto simp: io_bind_eq_Inr_iff)
    have "(\<exists>toks' seen1. ?pf toks' seen1 next chain x1 = (Inr (ts, seen', n', c'), x')) \<or>
      (\<exists>toks' t n1 c1 x2 toks1 seen1.
         parseRecords W lg endr (Some y) text toks' next chain x1 = (Inr (t, n1, c1), x2) \<and>
         ?pf toks1 seen1 n1 c1 x2 = (Inr (ts, seen', n', c'), x'))"
      using Suc.prems False c
      by (auto simp: io_bind_eq_Inr_iff split: list.splits jtok.splits if_splits option.splits prod.splits)
    then show ?thesis
    proof (elim disjE exE conjE)
      fix toks' seen1
      assume "?pf toks' seen1 next chain x1 = (Inr (ts, seen', n', c'), x')"
      then show ?thesis by (rule step [OF c])
    next
      fix toks' t n1 c1 x2 toks1 seen1
      assume r: "parseRecords W lg endr (Some y) text toks' next chain x1 = (Inr (t, n1, c1), x2)"
        and f: "?pf toks1 seen1 n1 c1 x2 = (Inr (ts, seen', n', c'), x')"
      from parseRecords_run [OF r assms(2)] obtain ps
        where ps: "run_over v y ps x1 x2" "proj_chain lg ps (next, chain) (n1, c1)" by blast
      from Suc.IH [OF f] obtain qs
        where qs: "run_over v y qs x2 x'" "proj_chain lg qs (n1, c1) (n', c')" by blast
      have "run_over v y ps x x2"
        using view.r_ctx [OF c] ps(1) by (auto intro: run_over_before)
      then have "run_over v y (ps @ qs) x x'" using qs(1) by (rule run_over_append)
      moreover have "proj_chain lg (ps @ qs) (next, chain) (n', c')"
        using ps(2) qs(2) proj_chain_append by blast
      ultimately show ?thesis by blast
    qed
  qed
qed simp

lemma parseSegment_run:
  assumes "parseSegment W lg ref input (Some y) x = (Inr u, x')"
  shows "\<exists>ps. run_over v y ps x x' \<and> ref_chain lg ref ps"
proof -
  let ?toks = "fst (json_lex (plat lg) (fst input))"
  obtain q ts where toks: "?toks = (BeginObject, q) # ts"
  proof (cases ?toks)
    case Nil
    with assms show ?thesis by (auto simp: parseSegment_def io_bind_eq_Inr_iff)
  next
    case (Cons a ts)
    obtain t q where a: "a = (t, q)" by (cases a)
    show ?thesis
      using assms Cons a that by (cases t) (auto simp: parseSegment_def io_bind_eq_Inr_iff)
  qed
  from assms obtain st e ts' seen n' c' where vr: "validateRef lg ref = Inr (st, e)"
      and f: "parseFields (Suc (length ts)) W lg ref e (Some y) (fst input) ts [] st
          (FirstPrevHash ref) x = (Inr (ts', seen, n', c'), x')"
      and b: "n' = i64 (e + 1)" "c' = LastRecordHash ref"
    unfolding parseSegment_def Let_def toks
    by (auto simp: io_bind_eq_Inr_iff simp del: parseFields.simps split_paired_Ex)
  have e: "e \<le> MaxRevision" "i64 (e + 1) = e + 1"
    using validateRef_facts(3) [OF vr] by (auto intro!: i64_small simp: bounds)
  from parseFields_run [OF f e(1)] b e(2) vr show ?thesis unfolding ref_chain_def by metis
qed

lemma decodeSegment_run:
  assumes "decodeSegment W lg ref body (Some y) x = (Inr u, x')"
  shows "\<exists>ps. run_over v y ps x x' \<and> ref_chain lg ref ps"
proof -
  from assms obtain i x1 x2 u' where d: "decompress W lg body x = (Inr i, x1)"
      and p: "parseSegment W lg ref i (Some y) x1 = (Inr u', x2)"
      and c: "w_ctx W x2 = (None, x')"
    unfolding decodeSegment_def by (auto simp: io_bind_eq_Inr_iff)
  have "v x1 = v x" "v x' = v x2"
    using silentD [OF view.rel_decompress d] view.r_ctx [OF c] by auto
  then show ?thesis
    using parseSegment_run [OF p] run_over_before run_over_after by metis
qed

end

lemma run_over_emit:
  "run_over snd (emitRecord W) ps x x' \<Longrightarrow> snd x' = snd x @ ps"
proof (induction ps arbitrary: x)
  case (Cons p ps)
  then obtain x1 x2 where x1: "snd x1 = snd x" and y: "emitRecord W p x1 = (Inr (), x2)"
    and r: "run_over snd (emitRecord W) ps x2 x'" by auto
  from y obtain x3 where t: "tempWrite (lift_world W) x1 = (Inr (), x3)" and x2: "snd x2 = snd x3 @ [p]"
    by (auto simp: emitRecord_def io_bind_eq_Inr_iff)
  with beside.silentD [OF beside.view.rel_tempWrite t] x1 Cons.IH [OF r] show ?case by simp
qed simp

lemma loadCommitRef_chain:
  assumes "loadCommitRef W lg ref base s = (Inr c, s')"
  shows "ref_chain lg ref [project c]" and "Level ref = 0"
proof -
  from assms obtain st e where v: "validateRef lg ref = Inr (st, e)" and l: "Level ref = 0"
      and h: "PreviousRecordHash (project c) = FirstPrevHash ref" "p_RecordHash (project c) = LastRecordHash ref"
      and d: "\<exists>b. decodeCommit lg (Key ref) b = Inr c"
    unfolding loadCommitRef_def by (auto simp: io_bind_eq_Inr_iff)
  from d obtain b where b: "decodeCommit lg (Key ref) b = Inr c" by blast
  note f = validateRef_facts [OF v]
  have "Key ref = logKey lg st" using f(9) l by (simp add: ref_fields_ok_def)
  with decodeCommit_Inr [OF b] logKey_inj f(2) have "validateProjection lg (project c) = Inr st" by metis
  moreover have "e = st" using f(5) l by simp
  ultimately show "ref_chain lg ref [project c]" using v h by (simp add: ref_chain_def)
  show "Level ref = 0" by (rule l)
qed

lemma loadRecordFile_chain:
  assumes "loadRecordFile W lg ref base s = (Inr file, s')"
  shows "ref_chain lg ref file"
proof -
  from assms obtain s0 s1 where m:
      "(if Level ref = 0
          then io_bind (loadCommitRef (lift_world W) lg ref base) (\<lambda>c. emitRecord W (project c))
          else io_bind (download (lift_world W) ref) (\<lambda>body.
               io_defer (tempClose (lift_world W))
                 (decodeSegment (lift_world W) lg ref body (Some (emitRecord W))))) (s0, []) = (Inr (), (s1, file))"
    unfolding loadRecordFile_def by (auto simp: io_bind_eq_Inr_iff simp del: split_paired_Ex)
  show ?thesis
  proof (cases "Level ref = 0")
    case True
    with m obtain c x1 where c: "loadCommitRef (lift_world W) lg ref base (s0, []) = (Inr c, x1)"
        and e: "emitRecord W (project c) x1 = (Inr (), (s1, file))"
      by (auto simp: io_bind_eq_Inr_iff simp del: split_paired_Ex)
    have "snd x1 = []" using beside.silentD [OF beside.view.rel_loadCommitRef c] by simp
    then have "run_over snd (emitRecord W) [project c] (s0, []) (s1, file)"
      using e unfolding run_over.simps by (metis snd_conv)
    from run_over_emit [OF this] have "file = [project c]" by simp
    then show ?thesis using loadCommitRef_chain [OF c] by simp
  next
    case False
    with m obtain body x1 x2 where d: "download (lift_world W) ref (s0, []) = (Inr body, x1)"
        and s: "decodeSegment (lift_world W) lg ref body (Some (emitRecord W)) x1 = (Inr (), x2)"
        and c: "tempClose (lift_world W) x2 = (None, (s1, file))"
      by (auto simp: io_bind_eq_Inr_iff io_defer_eq_Inr_iff simp del: split_paired_Ex)
    have x: "snd x1 = []" "snd (s1, file) = snd x2"
      using beside.silentD [OF beside.view.rel_download d] beside.view.rel_close [OF c] by auto
    from beside.decodeSegment_run [OF s] obtain ps where "run_over snd (emitRecord W) ps x1 x2" "ref_chain lg ref ps"
      by blast
    then show ?thesis using run_over_emit x by fastforce
  qed
qed

context view_world
begin

lemma each_run:
  "each W y ps x = (Inr u, x') \<Longrightarrow> run_over v y ps x x'"
proof (induction ps arbitrary: x)
  case Nil
  then obtain x1 where "w_ctx W x = (None, x1)" "w_tmp W ''read'' x1 = (None, x')"
    by (auto simp: io_bind_eq_Inr_iff)
  then show ?case by (auto dest!: view.r_ctx view.r_tmp)
next
  case (Cons p ps)
  from Cons.prems obtain x1 x2 x3 where c: "w_ctx W x = (None, x1)"
      and t: "w_tmp W ''read'' x1 = (None, x2)"
      and y: "y p x2 = (Inr (), x3)" and e: "each W y ps x3 = (Inr u, x')"
    by (auto simp: io_bind_eq_Inr_iff)
  have "v x2 = v x" using view.r_ctx [OF c] view.r_tmp [OF t] by simp
  with y Cons.IH [OF e] show ?case unfolding run_over.simps by blast
qed

text \<open>Every successful read of a reference runs the callback over exactly its revisions.\<close>

lemma readRecords_run:
  assumes "readRecords W lg ref base y x = (Inr u, x')"
  shows "\<exists>ps. run_over v y ps x x' \<and> ref_chain lg ref ps"
proof (cases "Level ref = 0")
  case True
  with assms obtain c x1 where c: "loadCommitRef W lg ref base x = (Inr c, x1)"
      and y: "y (project c) x1 = (Inr (), x')"
    unfolding readRecords_def by (auto simp: io_bind_eq_Inr_iff simp del: split_paired_Ex)
  have "v x1 = v x" using silentD [OF view.rel_loadCommitRef c] by simp
  then have "run_over v y [project c] x x'" using y unfolding run_over.simps by blast
  then show ?thesis using loadCommitRef_chain [OF c] by blast
next
  case False
  with assms obtain f x1 x2 where f: "loadRecordFile W lg ref base x = (Inr f, x1)"
      and e: "each W y f x1 = (Inr (), x2)" and c: "tempClose W x2 = (None, x')"
    unfolding readRecords_def
    by (auto simp: io_bind_eq_Inr_iff io_defer_eq_Inr_iff simp del: split_paired_Ex)
  have "v x1 = v x" "v x' = v x2"
    using silentD [OF view.rel_loadRecordFile f] view.rel_close [OF c] by auto
  then show ?thesis
    using each_run [OF e] loadRecordFile_chain [OF f] run_over_before run_over_after by metis
qed

end

subsection \<open>The reference of a created segment\<close>

text \<open>\<open>later W s s'\<close>: \<open>s'\<close> is reached from \<open>s\<close> by operations that every world relation covers.\<close>

definition later :: "'s world \<Rightarrow> 's \<Rightarrow> 's \<Rightarrow> bool" where
  "later W s s' \<longleftrightarrow> (\<forall>R. world_rel R W \<longrightarrow> R s s')"

lemma laterD: "later W s s' \<Longrightarrow> world_rel R W \<Longrightarrow> R s s'"
  unfolding later_def by (drule spec [of _ R]) blast

lemma laterI:
  assumes "\<And>R. world_rel R W \<Longrightarrow> R s s'"
  shows "later W s s'"
  unfolding later_def by (intro allI impI) (rule assms)

interpretation later: world_rel "later W" W
proof unfold_locales
  show "later W s s" for s
    by (rule laterI) (rule state_preorder.R_refl [OF world_rel.axioms(1)])
  show "later W s u" if "later W s t" "later W t u" for s t u
    using laterD [OF that(1)] laterD [OF that(2)]
    by (intro laterI) (rule state_preorder.R_trans [OF world_rel.axioms(1)])
  show "later W s s'" if "w_ctx W s = (ce, s')" for s ce s'
    using that by (intro laterI) (rule world_rel.r_ctx)
  show "later W s s'" if "w_list W p n s = (lr, s')" for p n s lr s'
    using that by (intro laterI) (rule world_rel.r_list)
  show "later W s s'" if "w_get W k s = (gr, s')" for k s gr s'
    using that by (intro laterI) (rule world_rel.r_get)
  show "later W s s'" if "w_rand W m s = (rr, s')" for m s rr s'
    using that by (intro laterI) (rule world_rel.r_rand)
  show "later W s s'" if "w_tmp W q s = (te, s')" for q s te s'
    using that by (intro laterI) (rule world_rel.r_tmp)
qed

lemma closeParts_Inr:
  "closeParts W n m s = (Inr x, s') \<Longrightarrow> \<exists>s1. m s = (Inr x, s1) \<and> later W s1 s'"
proof (induction n arbitrary: s')
  case 0
  then show ?case using later.R_refl by auto
next
  case (Suc n)
  then obtain s2 where c: "closeParts W n m s = (Inr x, s2)" and t: "tempClose W s2 = (None, s')"
    by (auto simp: io_defer_eq_Inr_iff)
  from Suc.IH [OF c] obtain s1 where "m s = (Inr x, s1)" "later W s1 s2" by blast
  with later.R_trans [OF _ later.rel_close [OF t]] show ?case by metis
qed

lemma createSegment_Inr:
  assumes "createSegment W lg children base s = (Inr ref, s')"
  obtains nx r m s1 tx s2 s3 s4 where "length children = 16"
    and "parseRevision (Start (hd children)) = Inr nx"
    and "mergeChildren W lg base (aggregateRef ((Level (hd children) + 1) mod 256) children) children
        (s1, \<lparr>m_next = nx, m_chain = FirstPrevHash (hd children), m_out = [], m_open = 0\<rparr>) = (Inr (), (s2, m))"
    and "json_print (plat lg) (outSegment (aggregateRef ((Level (hd children) + 1) mod 256) children) (m_out m))
        = Some tx"
    and "ref = sealRef lg (aggregateRef ((Level (hd children) + 1) mod 256) children) tx"
    and "validateRef lg ref = Inr r"
    and "createAggregate W lg ref (zstd_encode (plat lg) tx) s3 = (Inr (), s4)"
    and "later W s s3" and "later W s4 s'"
proof -
  let ?ref = "aggregateRef ((Level (hd children) + 1) mod 256) children"
  from assms obtain s0 nx s1 s2 r m s5 where l: "length children = 16" and n0: "newTemp W s = (Inr (), s0)"
      and nx: "parseRevision (Start ?ref) = Inr nx"
      and mc: "mergeChildren W lg base ?ref children
        (s0, \<lparr>m_next = nx, m_chain = FirstPrevHash ?ref, m_out = [], m_open = 0\<rparr>) = (r, (s2, m))"
      and cp: "closeParts W (m_open m)
        (io_bind (finishStream W r (json_print (plat lg) (outSegment ?ref (m_out m)))) (\<lambda>tx.
         io_bind (io_lift (validateRef lg (sealRef lg ?ref tx))) (\<lambda>_.
         io_bind (createAggregate W lg (sealRef lg ?ref tx) (zstd_encode (plat lg) tx)) (\<lambda>_.
         io_ret (sealRef lg ?ref tx))))) s2 = (Inr ref, s5)"
      and cl: "tempClose W s5 = (None, s')"
    unfolding createSegment_def Let_def
    by (auto simp: io_bind_eq_Inr_iff io_defer_eq_Inr_iff simp del: split_paired_Ex)
  from closeParts_Inr [OF cp] obtain s4 tx s3 v
    where f: "finishStream W r (json_print (plat lg) (outSegment ?ref (m_out m))) s2 = (Inr tx, s3)"
      and v: "validateRef lg (sealRef lg ?ref tx) = Inr v"
      and ca: "createAggregate W lg (sealRef lg ?ref tx) (zstd_encode (plat lg) tx) s3 = (Inr (), s4)"
      and ref: "ref = sealRef lg ?ref tx" and l4: "later W s4 s5"
    by (auto simp: io_bind_eq_Inr_iff simp del: split_paired_Ex)
  from f have "r = Inr () \<and> json_print (plat lg) (outSegment ?ref (m_out m)) = Some tx"
    by (auto simp: finishStream_def io_bind_eq_Inr_iff errors_join_None_iff Let_def
        split: option.splits sum.splits if_splits)
  moreover have "later W s s3"
  proof -
    have "later W s s0" by (rule io_relD [OF later.rel_newTemp n0])
    moreover have "later W s0 s2" using io_relD [OF later.rel_mergeChildren mc] by simp
    moreover have "later W s2 s3" by (rule io_relD [OF later.rel_finishStream f])
    ultimately show ?thesis by (rule later.R_trans [OF later.R_trans])
  qed
  moreover have "later W s4 s'" by (rule later.R_trans [OF l4 later.rel_close [OF cl]])
  ultimately show ?thesis
    using that [of nx s0 s2 m tx v s3 s4] l nx mc ref v ca by (auto simp: aggregateRef_def)
qed

text \<open>The compacted reference stands for the same stretch of the log as its children.\<close>

lemma createSegment_chained:
  assumes "createSegment W lg children base s = (Inr ref, s')" and "chained lg children a b"
  shows "chained lg [ref] a b" and "Level ref = (Level (hd children) + 1) mod 256"
proof -
  from assms(1) obtain tx r where l: "length children = 16" and v: "validateRef lg ref = Inr r"
      and ref: "ref = sealRef lg (aggregateRef ((Level (hd children) + 1) mod 256) children) tx"
    by (rule createSegment_Inr) 
  from l have ne: "children \<noteq> []" by auto
  obtain s e s' e' where h: "validateRef lg (hd children) = Inr (s, e)"
      and t: "validateRef lg (last children) = Inr (s', e')"
      and ab: "a = (s, FirstPrevHash (hd children))" "b = (e' + 1, LastRecordHash (last children))"
    using chained_ends [OF assms(2) ne] by metis
  obtain s2 e2 where r: "r = (s2, e2)" by (cases r)
  note fr = validateRef_facts [OF v [unfolded r]]
  have "Start ref = Start (hd children)" "End ref = End (last children)"
    "FirstPrevHash ref = FirstPrevHash (hd children)" "LastRecordHash ref = LastRecordHash (last children)"
    and lev: "Level ref = (Level (hd children) + 1) mod 256"
    by (simp_all add: ref sealRef_def aggregateRef_def Let_def)
  moreover from this have "s2 = s" "e2 = e'"
    using fr(2,3,7,8) validateRef_facts(2,7) [OF h] validateRef_facts(3,8) [OF t] hexRevision_inj by metis+
  ultimately show "chained lg [ref] a b" using v r ab by (simp add: chained_Cons_iff)
  show "Level ref = (Level (hd children) + 1) mod 256" by (rule lev)
qed

subsection \<open>carry\<close>

lemma gatherLevels_eq: "gatherLevels levels = frontierOf levels"
  by (simp add: gatherLevels_def frontierOf_def)

text \<open>Spreading the frontier of a valid commit over an array gives its levels back.\<close>

lemma foldl_spread:
  assumes "length lv = 16" and "length levels = 16" and "set ls \<subseteq> {..<16}" and "distinct ls"
  shows "foldl (\<lambda>levels f. levels[f_Level f := Refs f]) lv (map (\<lambda>l. \<lparr>f_Level = l, Refs = levels ! l\<rparr>) ls) ! i =
     (if i \<in> set ls then levels ! i else lv ! i)"
  using assms
proof (induction ls arbitrary: lv)
  case (Cons l ls)
  then show ?case by (auto simp: nth_list_update)
qed simp

lemma length_foldl_spread: "length (foldl (\<lambda>levels f. levels[f_Level f := Refs f]) lv fs) = length lv"
  by (induction fs arbitrary: lv) auto

lemma spreadLevels_frontierOf:
  assumes "length levels = 16"
  shows "spreadLevels (frontierOf levels) = levels"
proof (rule nth_equalityI)
  show "length (spreadLevels (frontierOf levels)) = length levels"
    using assms by (simp add: spreadLevels_def length_foldl_spread)
  show "spreadLevels (frontierOf levels) ! i = levels ! i"
    if "i < length (spreadLevels (frontierOf levels))" for i
    using that assms unfolding spreadLevels_def frontierOf_def
    by (subst foldl_spread) (auto simp: length_foldl_spread)
qed

text \<open>The reference to the base itself closes the gap between its frontier and its successor.\<close>

lemma commitRef_chained:
  assumes "snap_ok lg b"
  shows "chained lg [commitRef lg b] (Revision (s_record b), PreviousRecordHash (project (s_commit b)))
           (Revision (s_record b) + 1, c_RecordHash (s_commit b))"
    and "Level (commitRef lg b) = 0"
proof -
  let ?r = "Revision (s_record b)" and ?p = "project (s_commit b)"
  from snap_okD [OF assms] have r: "valid_rev ?r" and rc: "recordOf lg ?p = Inr (s_record b)" by blast+
  note v = validateProjection_Inr [OF recordOf_Inr(1) [OF rc]]
  have rev: "p_Revision ?p = hexRevision ?r" by (rule v)
  have "validateRef lg (commitRef lg b) = Inr (?r, ?r)"
    using v r rev by (simp add: validateRef_iff ref_fields_ok_def commitRef_def Let_def)
  then show "chained lg [commitRef lg b] (?r, PreviousRecordHash ?p) (?r + 1, c_RecordHash (s_commit b))"
    by (simp add: chained_Cons_iff commitRef_def Let_def project_def)
  show "Level (commitRef lg b) = 0" by (simp add: commitRef_def Let_def)
qed

lemma rev_upt_split: "l < m \<Longrightarrow> rev [l..<m] = rev [Suc l..<m] @ [l]"
  by (simp add: upt_conv_Cons)

lemma digit_small: "0 \<le> n \<Longrightarrow> n \<le> MaxRevision \<Longrightarrow> digit n 14 = 0"
  by (simp add: digit_def bounds)

text \<open>
  The carry loop at level \<open>l\<close>: the levels below were full and are now empty, the levels from
  \<open>l\<close> on are still those of the base, and the carried reference continues them.
\<close>

lemma carryLoop_levels:
  assumes "carryLoop W lg base [l..<16] levels carried s = (Inr out, s')"
    and "l \<le> 14" and "length levels = 16" and "Level carried = l"
    and "\<forall>j<l. digit n j = 15 \<and> levels ! j = []" and "levels_ok levels n [l..<16]"
    and "0 \<le> n" and "n \<le> MaxRevision"
    and "chained lg (concat (map ((!) levels) (rev [l..<16])) @ [carried]) a b"
  shows "length out = 16 \<and> levels_ok out (n + 1) [0..<16] \<and> chained lg (levelRefs out) a b"
  using assms
proof (induction "16 - l" arbitrary: l levels carried s)
  case 0
  then show ?case by simp
next
  case (Suc k)
  let ?refs = "levels ! l @ [carried]"
  have l16: "l < 16" using Suc.prems(2) by simp
  have upt: "[l..<16] = l # [Suc l..<16]" using l16 by (simp add: upt_conv_Cons)
  have lvl: "int (length (levels ! l)) = digit n l" "\<forall>ref\<in>set (levels ! l). Level ref = l"
    using Suc.prems(6) l16 by (auto simp: levels_ok_def)
  show ?case
  proof (cases "length ?refs < 16")
    case True
    have out: "out = levels[l := ?refs]" using Suc.prems(1) True by (simp add: upt)
    have here: "digit n l \<noteq> 15" using True lvl(1) by simp
    have low: "\<forall>j<l. digit n j = 15" using Suc.prems(5) by blast
    have "levels_ok out (n + 1) [0..<16]"
      unfolding levels_ok_def
    proof (intro ballI)
      fix j assume "j \<in> set [0..<16]"
      then have "j < 16" by simp
      then show "int (length (out ! j)) = digit (n + 1) j \<and> (\<forall>ref\<in>set (out ! j). Level ref = j)"
        using digit_carry [OF low here, of j] Suc.prems(3-6) lvl
        by (cases "j < l"; cases "j = l") (auto simp: out levels_ok_def nth_list_update)
    qed
    moreover have "levelRefs out = concat (map ((!) levels) (rev [l..<16])) @ [carried]"
    proof -
      have all: "rev [0..<16] = rev [Suc l..<16] @ [l] @ rev [0..<l]"
        using l16 upt_add_eq_append [of 0 l "16 - l"] by (simp add: rev_upt_split)
      have low: "concat (map ((!) out) (rev [0..<l])) = []"
        using Suc.prems(5) by (auto simp: out)
      have high: "map ((!) out) (rev [Suc l..<16]) = map ((!) levels) (rev [Suc l..<16])"
        by (intro map_cong) (auto simp: out)
      have here: "out ! l = levels ! l @ [carried]"
        using l16 Suc.prems(3) by (simp add: out)
      show ?thesis
        unfolding levelRefs_def all rev_upt_split [OF l16] map_append concat_append low high
        by (simp add: here)
    qed
    ultimately show ?thesis using Suc.prems(3,9) by (simp add: out)
  next
    case False
    with Suc.prems(1) obtain carried' s1
      where c: "createSegment W lg ?refs (Some base) s = (Inr carried', s1)"
        and r: "carryLoop W lg base [Suc l..<16] (levels[l := []]) carried' s1 = (Inr out, s')"
      by (auto simp: upt io_bind_eq_Inr_iff Let_def)
    have full: "digit n l = 15"
      using False lvl(1) digit_range(2) [of n l] by simp
    then have "l \<noteq> 14" using digit_small Suc.prems(7,8) by auto
    with Suc.prems(2) have l14: "Suc l \<le> 14" by simp
    obtain m where m: "chained lg (concat (map ((!) levels) (rev [Suc l..<16]))) a m"
        "chained lg ?refs m b"
      using Suc.prems(9) l16 by (auto simp: rev_upt_split chained_append)
    have hd: "Level (hd ?refs) = l"
      using lvl(2) Suc.prems(4) by (cases "levels ! l") auto
    note cs = createSegment_chained [OF c m(2)]
    have eq: "map ((!) (levels[l := []])) (rev [Suc l..<16]) = map ((!) levels) (rev [Suc l..<16])"
      by (intro map_cong) auto
    have "chained lg (concat (map ((!) (levels[l := []])) (rev [Suc l..<16])) @ [carried']) a b"
      unfolding eq using m(1) cs(1) chained_append by blast
    moreover have "levels_ok (levels[l := []]) n [Suc l..<16]"
      using Suc.prems(6) by (auto simp: levels_ok_def)
    moreover have "\<forall>j<Suc l. digit n j = 15 \<and> levels[l := []] ! j = []"
      using Suc.prems(3,5) full l16 by (auto simp: less_Suc_eq)
    ultimately show ?thesis
      using cs(2) hd l14 Suc.prems(3,7,8) Suc.hyps(2)
      by (intro Suc.hyps(1) [OF _ r]) auto
  qed
qed

lemma carry_frontier:
  assumes "carry W lg b s = (Inr f, s')" and "snap_ok lg b" and "Revision (s_record b) < MaxRevision"
  shows "validateFrontier lg f (Revision (s_record b) + 1) (c_RecordHash (s_commit b)) = Inr ()"
proof -
  let ?r = "Revision (s_record b)"
  from assms(1) obtain out where c: "carryLoop W lg b [0..<16] (spreadLevels (c_Frontier (s_commit b)))
      (commitRef lg b) s = (Inr out, s')" and f: "f = frontierOf out"
    by (auto simp: carry_def io_bind_eq_Inr_iff gatherLevels_eq)
  from snap_okD(3) [OF assms(2)] obtain r where "logKey lg ?r = logKey lg r" "valid_rev r"
      and vf: "validateFrontier lg (c_Frontier (s_commit b)) r (PreviousRecordHash (project (s_commit b))) = Inr ()"
    by (rule decodeCommit_Inr)
  then have "r = ?r" using logKey_inj snap_okD(1) [OF assms(2)] by metis
  with vf obtain levels where lv: "length levels = 16" "c_Frontier (s_commit b) = frontierOf levels"
      "levels_ok levels (?r - 1) [0..<16]"
      "chained lg (levelRefs levels) (1, zeroHash) (?r, PreviousRecordHash (project (s_commit b)))"
    by (auto elim: validateFrontierE)
  note cr = commitRef_chained [OF assms(2)]
  have "chained lg (levelRefs levels @ [commitRef lg b]) (1, zeroHash) (?r + 1, c_RecordHash (s_commit b))"
    using lv(4) cr(1) chained_append by blast
  moreover have "spreadLevels (c_Frontier (s_commit b)) = levels"
    unfolding lv(2) by (rule spreadLevels_frontierOf [OF lv(1)])
  ultimately have "length out = 16 \<and> levels_ok out (?r - 1 + 1) [0..<16] \<and>
      chained lg (levelRefs out) (1, zeroHash) (?r + 1, c_RecordHash (s_commit b))"
    using c lv cr(2) snap_okD(1) [OF assms(2)]
    by (intro carryLoop_levels [of W lg b 0 levels "commitRef lg b" s out s']) (auto simp: levelRefs_def)
  then show ?thesis
    unfolding validateFrontier_iff f using assms(3) snap_okD(1) [OF assms(2)] by auto
qed

end
