(* ===== verification/Append.thy ===== *)
theory Append
  imports SegmentFacts
begin

section \<open>Appending (log.go)\<close>

text \<open>
  \<open>prepare\<close> encodes a batch once and draws its commit ID, \<open>appendPrepared\<close> publishes one commit
  after a base snapshot and resolves ambiguous store replies, \<open>AppendTo\<close> is that for a given
  base, and \<open>Append\<close> retries it from the current head while it loses races.
\<close>

subsection \<open>prepare\<close>

text \<open>The loop over the items: \<open>b\<close> is the array text so far, \<open>i\<close> the index.\<close>

fun prepareItems :: "'a log \<Rightarrow> bytes \<Rightarrow> nat \<Rightarrow> 'a list \<Rightarrow> goerr + bytes" where
  "prepareItems lg b i [] = Inr b"
| "prepareItems lg b i (item # items) =
     (case marshal_item (plat lg) item of
        Inl err \<Rightarrow> Inl (eventCodecError ''marshal'' err)
      | Inr encoded \<Rightarrow>
          (let b1 = (if i \<noteq> 0 then b @ '','' else b) in
           ebind (fail_if (int (length b1) + int (length encoded) + 1 > maxEvent lg)
                    (Sentinel ErrTooLarge)) (\<lambda>_.
           prepareItems lg (b1 @ encoded) (Suc i) items)))"

definition prepare :: "'s world \<Rightarrow> 'a log \<Rightarrow> 'a list \<Rightarrow> ('s, bytes \<times> string) io" where
  "prepare W lg value =
     io_bind (io_lift (fail_if (value = []) (Sentinel ErrEmptyBatch))) (\<lambda>_.
     io_bind (io_lift (prepareItems lg ''['' 0 value)) (\<lambda>b.
     io_bind (io_wrap (\<lambda>e. Wrap ''lokv: generate commit ID'' [e]) (w_rand W 16)) (\<lambda>ident.
     io_ret (b @ '']'', hexEncode (copyInto 16 ident)))))"

subsection \<open>appendPrepared\<close>

text \<open>The commit that would follow \<open>base\<close>, given its frontier.\<close>

definition nextRevision :: "'a snap option \<Rightarrow> int" where
  "nextRevision base = (case base of None \<Rightarrow> 1 | Some b \<Rightarrow> i64 (Revision (s_record b) + 1))"

definition previousOfBase :: "'a log \<Rightarrow> 'a snap option \<Rightarrow> previous option" where
  "previousOfBase lg base =
     (case base of
        None \<Rightarrow> None
      | Some b \<Rightarrow> Some \<lparr>prev_Key = logKey lg (Revision (s_record b)), prev_RecordHash = c_RecordHash (s_commit b)\<rparr>)"

definition previousHash :: "previous option \<Rightarrow> string" where
  "previousHash p = (case p of None \<Rightarrow> zeroHash | Some q \<Rightarrow> prev_RecordHash q)"

definition newCommit ::
  "'a log \<Rightarrow> 'a snap option \<Rightarrow> frontierLevel list \<Rightarrow> bytes \<Rightarrow> string \<Rightarrow> commit" where
  "newCommit lg base frontier event ident =
     (let r = nextRevision base; prev = previousOfBase lg base in
      \<lparr>Format = commitFormat, c_Revision = hexRevision r, c_CommitID = ident, Previous = prev,
       c_Event = event, c_RecordHash = recordHash lg r ident (previousHash prev) event,
       c_Frontier = frontier\<rparr>)"

text \<open>After a failed Create: look at the attempted key before anything else.\<close>

definition resolveCreate ::
  "'s world \<Rightarrow> 'a log \<Rightarrow> string \<Rightarrow> int \<Rightarrow> string \<Rightarrow> commit \<Rightarrow> goerr \<Rightarrow> ('s, 'a snap) io" where
  "resolveCreate W lg key revision ident c createErr =
     io_bind (io_try (getObject W key False)) (\<lambda>r. case r of
       Inl err \<Rightarrow>
         io_fail (if errors_is err ErrNotFound
                  then (if errors_is createErr ErrExists then corrupt ''existing commit is not visible''
                        else Wrap (''create '' @ key) [createErr])
                  else err)
     | Inr actual \<Rightarrow>
         io_bind (io_lift (snapshot lg key actual)) (\<lambda>winner.
         if c_CommitID (s_commit winner) = ident
         then io_bind (io_lift (fail_if (c_RecordHash (s_commit winner) \<noteq> c_RecordHash c)
                         (corrupt ''commit ID reused with different record''))) (\<lambda>_. io_ret winner)
         else io_fail (Wrap (''revision '' @ decStr (nat revision)) [Sentinel ErrConflict])))"

definition publish ::
  "'s world \<Rightarrow> 'a log \<Rightarrow> int \<Rightarrow> string \<Rightarrow> commit \<Rightarrow> ('s, 'a snap) io" where
  "publish W lg revision ident c =
     (case json_print (plat lg) (outCommit c) of
        None \<Rightarrow> io_fail (Msg ''lokv: encode commit'')
      | Some body \<Rightarrow>
          (let key = logKey lg revision in
           io_bind (io_lift (snapshot lg key body)) (\<lambda>s.
           io_bind (io_check (w_ctx W)) (\<lambda>_.
           io_bind (io_poll (w_create W key body)) (\<lambda>createErr. case createErr of
             None \<Rightarrow> io_ret s
           | Some ce \<Rightarrow> resolveCreate W lg key revision ident c ce)))))"

definition appendPrepared ::
  "'s world \<Rightarrow> 'a log \<Rightarrow> 'a snap option \<Rightarrow> bytes \<Rightarrow> string \<Rightarrow> ('s, 'a snap) io" where
  "appendPrepared W lg base event ident =
     io_bind (io_lift (checkSnapshot lg base)) (\<lambda>_.
     io_bind (io_lift (fail_if (base \<noteq> None \<and> snapRevision base = MaxRevision) (Sentinel ErrExhausted))) (\<lambda>_.
     io_bind (case base of None \<Rightarrow> io_ret [] | Some b \<Rightarrow> carry W lg b) (\<lambda>frontier.
     let revision = nextRevision base; c = newCommit lg base frontier event ident in
     io_bind (io_lift (validateFrontier lg frontier revision (previousHash (previousOfBase lg base)))) (\<lambda>_.
     publish W lg revision ident c))))"

subsection \<open>AppendTo and Append\<close>

definition AppendTo :: "'s world \<Rightarrow> 'a log \<Rightarrow> 'a snap option \<Rightarrow> 'a list \<Rightarrow> ('s, 'a snap) io" where
  "AppendTo W lg base value =
     io_bind (io_check (w_ctx W)) (\<lambda>_.
     io_bind (io_lift (checkSnapshot lg base)) (\<lambda>_.
     io_bind (io_lift (fail_if (base \<noteq> None \<and> snapRevision base = MaxRevision) (Sentinel ErrExhausted))) (\<lambda>_.
     io_bind (prepare W lg value) (\<lambda>(event, ident).
     appendPrepared W lg base event ident))))"

text \<open>The retry loop, by the number of retries left (\<open>maxRetries - attempt\<close>).\<close>

primrec appendLoop :: "nat \<Rightarrow> 's world \<Rightarrow> 'a log \<Rightarrow> bytes \<Rightarrow> string \<Rightarrow> ('s, 'a recd) io" where
  "appendLoop 0 W lg event ident =
     io_bind (LoadHead W lg) (\<lambda>base.
     io_bind (appendPrepared W lg base event ident) (\<lambda>s. io_ret (s_record s)))"
| "appendLoop (Suc n) W lg event ident =
     io_bind (LoadHead W lg) (\<lambda>base.
     io_bind (io_try (appendPrepared W lg base event ident)) (\<lambda>r. case r of
       Inr s \<Rightarrow> io_ret (s_record s)
     | Inl err \<Rightarrow>
         if \<not> errors_is err ErrConflict then io_fail err
         else appendLoop n W lg event ident))"

definition Append :: "'s world \<Rightarrow> 'a log \<Rightarrow> 'a list \<Rightarrow> ('s, 'a recd) io" where
  "Append W lg value =
     io_bind (io_check (w_ctx W)) (\<lambda>_.
     io_bind (prepare W lg value) (\<lambda>(event, ident).
     appendLoop (nat (maxRetries lg)) W lg event ident))"

subsection \<open>The size limit of a batch\<close>

text \<open>The array text of a batch whose items encode to \<open>es\<close>.\<close>

definition joinItems :: "nat \<Rightarrow> bytes list \<Rightarrow> bytes" where
  "joinItems i es = concat (map (\<lambda>(j, e). (if j \<noteq> 0 then '','' else []) @ e) (enumerate i es))"

lemma joinItems_simps [simp]:
  "joinItems i [] = []"
  "joinItems i (e # es) = (if i \<noteq> 0 then '','' else []) @ e @ joinItems (Suc i) es"
  by (simp_all add: joinItems_def)

lemma prepareItems_iff:
  assumes "items \<noteq> []"
  shows "prepareItems lg b i items = Inr out \<longleftrightarrow>
     (\<exists>es. map (marshal_item (plat lg)) items = map Inr es \<and> out = b @ joinItems i es \<and>
           int (length out) + 1 \<le> maxEvent lg)"
  using assms
proof (induction items arbitrary: b i)
  case (Cons x xs)
  show ?case
  proof (cases "marshal_item (plat lg) x")
    case (Inl e)
    then show ?thesis by auto
  next
    case (Inr e)
    show ?thesis
    proof (cases "xs = []")
      case True
      then show ?thesis using Inr by (auto simp: ebind_eq_Inr_iff Cons_eq_map_conv)
    next
      case False
      let ?b = "(if i \<noteq> 0 then b @ '','' else b)"
      have "prepareItems lg b i (x # xs) = Inr out \<longleftrightarrow>
          int (length ?b) + int (length e) + 1 \<le> maxEvent lg \<and>
          (\<exists>es. map (marshal_item (plat lg)) xs = map Inr es \<and> out = (?b @ e) @ joinItems (Suc i) es \<and>
              int (length out) + 1 \<le> maxEvent lg)"
        using Inr Cons.IH [OF False, of "?b @ e" "Suc i"] by (auto simp: ebind_eq_Inr_iff not_less)
      also have "\<dots> \<longleftrightarrow> (\<exists>es. map (marshal_item (plat lg)) (x # xs) = map Inr es \<and>
          out = b @ joinItems i es \<and> int (length out) + 1 \<le> maxEvent lg)"
        using Inr by (fastforce simp: Cons_eq_map_conv)
      finally show ?thesis .
    qed
  qed
qed simp

lemma prepareItems_Inl:
  "prepareItems lg b i items = Inl e \<Longrightarrow>
     e = Sentinel ErrTooLarge \<or> (\<exists>x\<in>set items. \<exists>e'. marshal_item (plat lg) x = Inl e' \<and> e = eventCodecError ''marshal'' e')"
  by (induction items arbitrary: b i) (auto simp: ebind_eq_Inl_iff Let_def split: sum.splits if_splits)

lemma prepare_Inr:
  "prepare W lg value s = (Inr (event, ident), s') \<longleftrightarrow>
     value \<noteq> [] \<and> (\<exists>es ib. map (marshal_item (plat lg)) value = map Inr es \<and>
        event = ''['' @ joinItems 0 es @ '']'' \<and> int (length event) \<le> maxEvent lg \<and>
        w_rand W 16 s = (Inr ib, s') \<and> ident = hexEncode (copyInto 16 ib))"
  by (cases "value = []") (auto simp: prepare_def io_bind_eq_Inr_iff prepareItems_iff)

subsection \<open>Appending in a growing store\<close>

context world_rel
begin

lemma rel_prepare: "io_rel R (prepare W lg value)"
  unfolding prepare_def by (intro rel_intros)

end

context object_store
begin

lemma grow_createAggregate: "io_rel (grows objs good) (createAggregate W lg ref body)"
  by (intro grow.rel_createAggregate grow_create)

lemma grow_createSegment: "io_rel (grows objs good) (createSegment W lg children base)"
  unfolding createSegment_def Let_def
  by (intro grow.rel_bind grow.rel_lift grow.rel_newTemp grow.rel_defer_close grow.rel_local
      grow.rel_mergeChildren grow.rel_case_prod grow.rel_closeParts grow.rel_finishStream
      grow_createAggregate grow.rel_ret)

lemma grow_carry: "io_rel (grows objs good) (carry W lg b)"
proof -
  have "io_rel (grows objs good) (carryLoop W lg b ls levels carried)" for ls levels carried
    by (induction ls arbitrary: levels carried)
       (simp_all only: carryLoop.simps Let_def grow.rel_if grow.rel_bind grow.rel_ret grow_createSegment)
  then show ?thesis unfolding carry_def by (intro grow.rel_bind grow.rel_ret)
qed

lemma grow_resolveCreate: "io_rel (grows objs good) (resolveCreate W lg key r ident c ce)"
  unfolding resolveCreate_def
  by (intro grow.rel_bind grow.rel_try grow.rel_getObject grow.rel_sum grow.rel_fail grow.rel_lift
      grow.rel_if grow.rel_ret)

lemma grow_publish: "io_rel (grows objs good) (publish W lg r ident c)"
  unfolding publish_def Let_def
  by (intro grow.rel_option grow.rel_fail grow.rel_bind grow.rel_lift grow.rel_ctx grow_create
      grow.rel_ret grow_resolveCreate)

lemma grow_appendPrepared: "io_rel (grows objs good) (appendPrepared W lg base event ident)"
  unfolding appendPrepared_def Let_def
  by (intro grow.rel_bind grow.rel_lift grow.rel_option grow.rel_ret grow_carry grow_publish)

lemma grow_AppendTo: "io_rel (grows objs good) (AppendTo W lg base value)"
  unfolding AppendTo_def
  by (intro grow.rel_bind grow.rel_lift grow.rel_ctx grow.rel_prepare grow.rel_case_prod grow_appendPrepared)

lemma grow_appendLoop: "io_rel (grows objs good) (appendLoop n W lg event ident)"
proof (induction n)
  case 0
  show ?case
    unfolding appendLoop.simps
    by (intro grow.rel_bind grow.rel_LoadHead grow_appendPrepared grow.rel_ret)
next
  case (Suc n)
  show ?case
    unfolding appendLoop.simps
    by (intro grow.rel_bind grow.rel_LoadHead grow.rel_try grow_appendPrepared grow.rel_sum grow.rel_ret
        grow.rel_if grow.rel_fail Suc)
qed

lemma grow_Append: "io_rel (grows objs good) (Append W lg value)"
  unfolding Append_def
  by (intro grow.rel_bind grow.rel_ctx grow.rel_prepare grow.rel_case_prod grow_appendLoop)

text \<open>
  A successful publication: either this call created the object, or it found an object with its
  own commit ID and record hash at the key.
\<close>

lemma publish_Inr:
  assumes "publish W lg r ident c s = (Inr sn, s')" and "good s"
  shows "snapshot lg (logKey lg r) (s_body sn) = Inr sn"
    and "objs s' (logKey lg r) = Some (s_body sn)"
    and "(json_print (plat lg) (outCommit c) = Some (s_body sn) \<and> objs s (logKey lg r) = None) \<or>
      (c_CommitID (s_commit sn) = ident \<and> c_RecordHash (s_commit sn) = c_RecordHash c)"
proof -
  from assms(1) obtain body sb s1 ce s2 where pr: "json_print (plat lg) (outCommit c) = Some body"
      and sb: "snapshot lg (logKey lg r) body = Inr sb"
      and cx: "w_ctx W s = (None, s1)" and cr: "w_create W (logKey lg r) body s1 = (ce, s2)"
      and k: "case ce of None \<Rightarrow> sn = sb \<and> s' = s2
        | Some e \<Rightarrow> resolveCreate W lg (logKey lg r) r ident c e s2 = (Inr sn, s')"
    unfolding publish_def Let_def
    by (auto simp: io_bind_eq_Inr_iff split: option.splits)
  have g1: "good s1" "objs s \<subseteq>\<^sub>m objs s1" using ctx_grows [OF cx] assms(2) by (auto simp: grows_def)
  have g2: "good s2" using create_grows [OF cr] g1 by (auto simp: grows_def)
  have "snapshot lg (logKey lg r) (s_body sn) = Inr sn \<and> objs s' (logKey lg r) = Some (s_body sn) \<and>
    ((json_print (plat lg) (outCommit c) = Some (s_body sn) \<and> objs s (logKey lg r) = None) \<or>
      (c_CommitID (s_commit sn) = ident \<and> c_RecordHash (s_commit sn) = c_RecordHash c))"
  proof (cases ce)
    case None
    then have "sn = sb" "s' = s2" using k by auto
    moreover from create_ok [OF cr [unfolded None] g1(1)]
    have "objs s1 (logKey lg r) = None" "objs s2 (logKey lg r) = Some body" by auto
    moreover from this(1) have "objs s (logKey lg r) = None"
      using g1(2) by (force simp: map_le_def dom_def)
    ultimately show ?thesis using pr sb snapshot_Inr(3) [OF sb] by auto
  next
    case (Some e)
    with k have res: "resolveCreate W lg (logKey lg r) r ident c e s2 = (Inr sn, s')" by simp
    obtain q s3 where q: "getObject W (logKey lg r) False s2 = (q, s3)" by (cases "getObject W (logKey lg r) False s2")
    from res q obtain actual where gt: "getObject W (logKey lg r) False s2 = (Inr actual, s')"
        and sn: "snapshot lg (logKey lg r) actual = Inr sn"
        and eqs: "c_CommitID (s_commit sn) = ident" "c_RecordHash (s_commit sn) = c_RecordHash c"
      by (cases q) (auto simp: resolveCreate_def io_bind_eq_Inr_iff split: if_splits)
    from getObject_ok [OF gt g2] have "objs s' (logKey lg r) = Some actual" .
    then show ?thesis using sn eqs snapshot_Inr(3) [OF sn] by auto
  qed
  then show "snapshot lg (logKey lg r) (s_body sn) = Inr sn"
    "objs s' (logKey lg r) = Some (s_body sn)"
    "(json_print (plat lg) (outCommit c) = Some (s_body sn) \<and> objs s (logKey lg r) = None) \<or>
      (c_CommitID (s_commit sn) = ident \<and> c_RecordHash (s_commit sn) = c_RecordHash c)"
    by blast+
qed

text \<open>What a successful append returns, for the base it was given.\<close>

lemma nextRevision_eq:
  assumes "case base of None \<Rightarrow> True | Some b \<Rightarrow> snap_ok lg b"
  shows "nextRevision base = snapRevision base + 1" and "1 \<le> nextRevision base"
proof -
  have "nextRevision base = snapRevision base + 1 \<and> 1 \<le> nextRevision base"
  proof (cases base)
    case (Some b)
    with assms have v: "valid_rev (Revision (s_record b))" by (simp add: snap_okD)
    then have "i64 (Revision (s_record b) + 1) = Revision (s_record b) + 1"
      by (intro i64_small) (simp_all add: bounds)
    with Some v show ?thesis by (simp add: nextRevision_def snapRevision_def)
  qed (simp add: nextRevision_def snapRevision_def)
  then show "nextRevision base = snapRevision base + 1" "1 \<le> nextRevision base" by auto
qed

lemma appendPrepared_Inr:
  assumes "appendPrepared W lg base event ident s = (Inr sn, s')" and "good s"
    and "case base of None \<Rightarrow> True | Some b \<Rightarrow> snap_ok lg b"
  shows "snap_ok lg sn" and "Revision (s_record sn) = snapRevision base + 1"
    and "objs s' (logKey lg (snapRevision base + 1)) = Some (s_body sn)"
    and "\<exists>frontier. validateFrontier lg frontier (snapRevision base + 1) (previousHash (previousOfBase lg base)) = Inr () \<and>
      (let c = newCommit lg base frontier event ident in
       (json_print (plat lg) (outCommit c) = Some (s_body sn) \<and> objs s (logKey lg (snapRevision base + 1)) = None) \<or>
       (c_CommitID (s_commit sn) = ident \<and> c_RecordHash (s_commit sn) = c_RecordHash c))"
proof -
  from assms(1) obtain frontier s1
    where ex: "\<not> (base \<noteq> None \<and> snapRevision base = MaxRevision)"
      and ca: "(case base of None \<Rightarrow> io_ret [] | Some b \<Rightarrow> carry W lg b) s = (Inr frontier, s1)"
      and vf: "validateFrontier lg frontier (nextRevision base) (previousHash (previousOfBase lg base)) = Inr ()"
      and pb: "publish W lg (nextRevision base) ident (newCommit lg base frontier event ident) s1 = (Inr sn, s')"
    unfolding appendPrepared_def Let_def by (auto simp: io_bind_eq_Inr_iff)
  have "io_rel (grows objs good) (case base of None \<Rightarrow> io_ret [] | Some b \<Rightarrow> carry W lg b)"
    by (intro grow.rel_option grow.rel_ret grow_carry)
  from grow_good [OF this ca assms(2)] grow_objs [OF this ca assms(2)]
  have g1: "good s1" "objs s \<subseteq>\<^sub>m objs s1" by auto
  note nr = nextRevision_eq [OF assms(3)]
  note p = publish_Inr [OF pb g1(1)]
  have v: "valid_rev (nextRevision base)"
    using validateFrontier_iff [of lg frontier "nextRevision base"] vf by blast
  note f = snapshot_Inr [OF p(1)]
  have r: "Revision (s_record sn) = nextRevision base"
    using f(1,2) v logKey_inj by metis
  show "snap_ok lg sn" by (rule f(7))
  show "Revision (s_record sn) = snapRevision base + 1" using r nr(1) by simp
  show "objs s' (logKey lg (snapRevision base + 1)) = Some (s_body sn)" using p(2) nr(1) by simp
  have "objs s1 k = None \<Longrightarrow> objs s k = None" for k using g1(2) by (force simp: map_le_def dom_def)
  then show "\<exists>frontier. validateFrontier lg frontier (snapRevision base + 1) (previousHash (previousOfBase lg base)) = Inr () \<and>
      (let c = newCommit lg base frontier event ident in
       (json_print (plat lg) (outCommit c) = Some (s_body sn) \<and> objs s (logKey lg (snapRevision base + 1)) = None) \<or>
       (c_CommitID (s_commit sn) = ident \<and> c_RecordHash (s_commit sn) = c_RecordHash c))"
    using vf p(3) nr(1) unfolding Let_def by (intro exI [of _ frontier]) auto
qed

lemma AppendTo_Inr:
  assumes "AppendTo W lg base value s = (Inr sn, s')" and "good s"
    and "case base of None \<Rightarrow> True | Some b \<Rightarrow> snap_ok lg b"
  obtains event ident s1 where "appendPrepared W lg base event ident s1 = (Inr sn, s')"
    and "good s1" and "objs s \<subseteq>\<^sub>m objs s1"
    and "\<exists>s0 s2. prepare W lg value s0 = (Inr (event, ident), s2)"
proof -
  from assms(1) obtain s0 event ident s1 where c: "w_ctx W s = (None, s0)"
      and p: "prepare W lg value s0 = (Inr (event, ident), s1)"
      and a: "appendPrepared W lg base event ident s1 = (Inr sn, s')"
    unfolding AppendTo_def by (auto simp: io_bind_eq_Inr_iff)
  have g0: "good s0" "objs s \<subseteq>\<^sub>m objs s0" using ctx_grows [OF c] assms(2) by (auto simp: grows_def)
  have "good s1" "objs s0 \<subseteq>\<^sub>m objs s1"
    using grow_good [OF grow.rel_prepare p g0(1)] grow_objs [OF grow.rel_prepare p g0(1)] by auto
  then show ?thesis using that [OF a] g0(2) p map_le_trans by blast
qed

text \<open>The retry loop returns only a record newer than everything that was committed before.\<close>

lemma appendLoop_Inr:
  assumes "appendLoop n W lg event ident s = (Inr rc, s')" and "good s"
  shows "\<exists>sn base s1. good s1 \<and> objs s \<subseteq>\<^sub>m objs s1 \<and>
    (case base of None \<Rightarrow> True | Some b \<Rightarrow> snap_ok lg b) \<and>
    (\<forall>r. valid_rev r \<longrightarrow> objs s (logKey lg r) \<noteq> None \<longrightarrow> r \<le> snapRevision base) \<and>
    appendPrepared W lg base event ident s1 = (Inr sn, s') \<and> rc = s_record sn"
proof -
  have head: "good s1 \<and> objs s \<subseteq>\<^sub>m objs s1 \<and> (case base of None \<Rightarrow> True | Some b \<Rightarrow> snap_ok lg b) \<and>
      (\<forall>r. valid_rev r \<longrightarrow> objs s (logKey lg r) \<noteq> None \<longrightarrow> r \<le> snapRevision base)"
    if "LoadHead W lg s = (Inr base, s1)" "good s" for base s s1
    using LoadHead_Inr [OF that] grow_good [OF grow.rel_LoadHead that] grow_objs [OF grow.rel_LoadHead that]
    by (auto simp: snapRevision_def split: option.splits)
  show ?thesis
    using assms
  proof (induction n arbitrary: s)
    case 0
    then obtain base s1 sn where h: "LoadHead W lg s = (Inr base, s1)"
        and "appendPrepared W lg base event ident s1 = (Inr sn, s')" and "rc = s_record sn"
      by (auto simp: io_bind_eq_Inr_iff)
    then show ?case using head [OF h 0(2)] by blast
  next
    case (Suc n)
    then obtain base s1 where h: "LoadHead W lg s = (Inr base, s1)"
      by (auto simp: io_bind_eq_Inr_iff)
    obtain q s2 where q: "appendPrepared W lg base event ident s1 = (q, s2)"
      by (cases "appendPrepared W lg base event ident s1")
    note hd = head [OF h Suc.prems(2)]
    show ?case
    proof (cases q)
      case (Inr sn)
      with Suc.prems(1) h q have "rc = s_record sn \<and> s2 = s'"
        by (auto simp: io_bind_eq_Inr_iff)
      with q Inr hd show ?thesis by blast
    next
      case (Inl e)
      with Suc.prems(1) h q have l: "appendLoop n W lg event ident s2 = (Inr rc, s')"
        by (auto simp: io_bind_eq_Inr_iff split: if_splits)
      have g2: "good s2" "objs s1 \<subseteq>\<^sub>m objs s2"
        using grow_good [OF grow_appendPrepared q] grow_objs [OF grow_appendPrepared q] hd by auto
      have le: "objs s \<subseteq>\<^sub>m objs s2" using hd g2(2) map_le_trans by blast
      then have "objs s k \<noteq> None \<Longrightarrow> objs s2 k \<noteq> None" for k by (force simp: map_le_def dom_def)
      with Suc.IH [OF l g2(1)] le map_le_trans show ?thesis by metis
    qed
  qed
qed

end

end
