(* ===== verification/Scan.thy ===== *)
theory Scan
  imports SegmentFacts
begin

section \<open>Range scans and verification (scan.go)\<close>

text \<open>
  \<open>Scan\<close> visits a snapshot's records in revision order. It walks the frontier from the highest
  level down, chooses for each reference between its packed segment and the historical commit
  at its end (\<open>rangeReadPlan\<close>, a cost estimate in float64 arithmetic), and gives the callback
  the records it selected, checking revisions and hash links as they pass.
\<close>

subsection \<open>Ranges\<close>

record revRange =
  First :: int
  Last :: int

definition zeroRange :: revRange where "zeroRange = \<lparr>First = 0, Last = 0\<rparr>"

definition rangeAll :: revRange where "rangeAll = \<lparr>First = 1, Last = MaxRevision\<rparr>"

definition StartingAt :: "int \<Rightarrow> revRange" where
  "StartingAt revision = \<lparr>First = revision, Last = MaxRevision\<rparr>"

definition After :: "int \<Rightarrow> revRange" where
  "After revision =
     (if revision < 0 \<or> revision > MaxRevision then StartingAt revision
      else if revision = MaxRevision then zeroRange
      else StartingAt (i64 (revision + 1)))"

subsection \<open>The cost estimate\<close>

text \<open>
  All quantities are nonnegative integers, so float64 arithmetic is exact integer arithmetic
  followed by rounding to 53 significant bits, ties to even.
\<close>

fun bitLength :: "nat \<Rightarrow> nat" where
  "bitLength n = (if n = 0 then 0 else Suc (bitLength (n div 2)))"

declare bitLength.simps [simp del]

definition rnd64 :: "int \<Rightarrow> int" where
  "rnd64 n =
     (let e = bitLength (nat n) - 53; q = n div 2 ^ e; m = n mod 2 ^ e in
      if e = 0 then n
      else if 2 * m > 2 ^ e \<or> (2 * m = 2 ^ e \<and> odd q) then (q + 1) * 2 ^ e else q * 2 ^ e)"

record scanReadCost =
  records :: int
  gets :: int
  refs :: int

definition weight :: "scanReadCost \<Rightarrow> int \<Rightarrow> int" where
  "weight c batchBytes =
     rnd64 (rnd64 (rnd64 (rnd64 (records c) * rnd64 (64 + rnd64 batchBytes)) + rnd64 (384 * rnd64 (refs c)))
       + rnd64 (65536 * rnd64 (gets c)))"

text \<open>The sum of the hexadecimal digits, by the loop \<open>n >>= 4\<close>.\<close>

function digitSum :: "int \<Rightarrow> int" where
  "digitSum n = (if n > 0 then (n AND 15) + digitSum (drop_bit 4 n) else 0)"
  by pat_completeness auto
termination
  by (relation "measure nat") (auto simp: drop_bit_eq_div)

declare digitSum.simps [simp del]

definition commitReadCost :: "int \<Rightarrow> scanReadCost" where
  "commitReadCost revision = \<lparr>records = 1, gets = 1, refs = digitSum (i64 (revision - 1))\<rparr>"

definition addCost :: "scanReadCost \<Rightarrow> scanReadCost \<Rightarrow> scanReadCost" where
  "addCost a b = \<lparr>records = records a + records b, gets = gets a + gets b, refs = refs a + refs b\<rparr>"

definition zeroCost :: scanReadCost where
  "zeroCost = \<lparr>records = 0, gets = 0, refs = 0\<rparr>"

text \<open>
  Level and first revision of the fifteen references at every smaller level that the commit at
  a segment's end has, in the order of the two loops.
\<close>

fun childSlots :: "nat \<Rightarrow> int \<Rightarrow> (nat \<times> int) list" where
  "childSlots 0 next = []"
| "childSlots (Suc l) next =
     map (\<lambda>i. (l, next + int i * levelSize l)) [0..<15] @ childSlots l (next + 15 * levelSize l)"

lemma childSlots_level: "(l, s) \<in> set (childSlots n next) \<Longrightarrow> l < n"
  by (induction n arbitrary: "next") (auto simp del: upt_rec_numeral, fastforce)

function rangeReadPlan :: "int \<Rightarrow> nat \<Rightarrow> revRange \<Rightarrow> int \<Rightarrow> scanReadCost \<times> bool" where
  "rangeReadPlan start level r batchBytes =
     (let size = levelSize level; end = i64 (start + size - 1) in
      if Last r < start \<or> First r > end then (zeroCost, False)
      else if level = 0 then (commitReadCost start, False)
      else
        let packed = \<lparr>records = size, gets = 1, refs = 0\<rparr> in
        if First r \<le> start \<and> Last r \<ge> end \<or> Last r < end then (packed, False)
        else
          let historical = foldl addCost (commitReadCost end)
                (map (\<lambda>(l, s). fst (rangeReadPlan s l r batchBytes)) (childSlots level start)) in
          if weight historical batchBytes < weight packed batchBytes then (historical, True)
          else (packed, False))"
  by pat_completeness auto
termination
  by (relation "measure (\<lambda>(s, l, r, b). l)") (auto dest: childSlots_level)

declare rangeReadPlan.simps [simp del]

subsection \<open>Reading one reference\<close>

fun forEach :: "('b \<Rightarrow> ('s, unit) io) \<Rightarrow> 'b list \<Rightarrow> ('s, unit) io" where
  "forEach f [] = io_ret ()"
| "forEach f (x # xs) = io_bind (f x) (\<lambda>_. forEach f xs)"

text \<open>The references of a historical frontier that lie in the segment, checked to partition it.\<close>

fun collectChildren ::
  "'a log \<Rightarrow> nat \<Rightarrow> int \<Rightarrow> objectRef list \<Rightarrow> int \<Rightarrow> string \<Rightarrow> goerr + (objectRef list \<times> int \<times> string)" where
  "collectChildren lg level start [] next chain = Inr ([], next, chain)"
| "collectChildren lg level start (child # cs) next chain =
     ebind (validateRef lg child) (\<lambda>(f, l).
     if l < start then collectChildren lg level start cs next chain
     else
       ebind (fail_if (f \<noteq> next \<or> Level child \<ge> level \<or> FirstPrevHash child \<noteq> chain)
                (corrupt ''historical frontier does not match segment'')) (\<lambda>_.
       ebind (collectChildren lg level start cs (i64 (l + 1)) (LastRecordHash child)) (\<lambda>(children, nc).
       Inr (child # children, nc))))"

definition historicalCommit :: "'s world \<Rightarrow> 'a log \<Rightarrow> objectRef \<Rightarrow> int \<Rightarrow> ('s, commit) io" where
  "historicalCommit W lg ref endr =
     io_bind (getObject W (logKey lg endr) True) (\<lambda>body.
     io_bind (io_lift (decodeCommit lg (logKey lg endr) body)) (\<lambda>c.
     io_bind (io_lift (fail_if (c_RecordHash c \<noteq> LastRecordHash ref)
                (corrupt ''historical commit does not match segment''))) (\<lambda>_.
     io_ret c)))"

text \<open>
  Every child of a reference has a smaller level, so a depth of one more than the level of the
  reference is never exhausted (\<open>readRangeParts_depth\<close>).
\<close>

primrec readRangeParts ::
  "nat \<Rightarrow> 's world \<Rightarrow> 'a log \<Rightarrow> objectRef \<Rightarrow> revRange \<Rightarrow> int \<Rightarrow> (projection \<Rightarrow> ('s, unit) io) \<Rightarrow> ('s, unit) io" where
  "readRangeParts 0 W lg ref r batchBytes yield = io_fail (Msg ''unreachable'')"
| "readRangeParts (Suc n) W lg ref r batchBytes yield =
     io_bind (io_lift (validateRef lg ref)) (\<lambda>(start, endr).
     if endr < First r \<or> start > Last r then io_ret ()
     else if \<not> snd (rangeReadPlan start (Level ref) r batchBytes) then readRecords W lg ref None yield
     else
       io_bind (historicalCommit W lg ref endr) (\<lambda>c.
       io_bind (io_lift (collectChildren lg (Level ref) start (frontierRefs (c_Frontier c)) start
                  (FirstPrevHash ref))) (\<lambda>(children, next, chain).
       io_bind (io_lift (fail_if (next \<noteq> endr \<or> chain \<noteq> PreviousRecordHash (project c))
                  (corrupt ''historical frontier boundary mismatch''))) (\<lambda>_.
       io_bind (forEach (\<lambda>child. readRangeParts n W lg child r batchBytes yield) children) (\<lambda>_.
       yield (project c))))))"

text \<open>The variables of the spooling callback: expected revision, last hash, scratch file.\<close>

record spool =
  sp_next :: int
  sp_chain :: string
  sp_file :: "projection list"

definition spoolRecord :: "'s world \<Rightarrow> revRange \<Rightarrow> projection \<Rightarrow> ('s \<times> spool, unit) io" where
  "spoolRecord W r p =
     io_bind (io_lift (parseRevision (p_Revision p))) (\<lambda>revision.
     if revision < First r then io_ret ()
     else
       io_bind (\<lambda>x. (fail_if (revision \<noteq> sp_next (snd x) \<or>
                              sp_chain (snd x) \<noteq> [] \<and> PreviousRecordHash p \<noteq> sp_chain (snd x))
                       (corrupt ''historical record chain mismatch''), x)) (\<lambda>_.
       io_bind (\<lambda>x. (Inr (), (fst x, (snd x)\<lparr>sp_next := i64 (revision + 1), sp_chain := p_RecordHash p\<rparr>))) (\<lambda>_.
       io_bind (io_wrap (eventCodecError ''spool'') (tempWrite (lift_world W))) (\<lambda>_ x.
       (Inr (), (fst x, (snd x)\<lparr>sp_file := sp_file (snd x) @ [p]\<rparr>))))))"

definition readRangeSpool ::
  "'s world \<Rightarrow> 'a log \<Rightarrow> objectRef \<Rightarrow> revRange \<Rightarrow> int \<Rightarrow> (projection \<Rightarrow> ('s, unit) io) \<Rightarrow> ('s, unit) io" where
  "readRangeSpool W lg ref r batchBytes yield =
     io_defer (tempClose W)
       (io_bind (run_local \<lparr>sp_next = First r, sp_chain = [], sp_file = []\<rparr>
          (readRangeParts (Suc (Level ref)) (lift_world W) lg ref r batchBytes (spoolRecord W r))) (\<lambda>(q, sp).
        io_bind (io_lift q) (\<lambda>_.
        io_bind (io_lift (fail_if ((case parseRevision (End ref) of
                                      Inl _ \<Rightarrow> sp_next sp \<noteq> 1
                                    | Inr end \<Rightarrow> sp_next sp \<noteq> i64 (end + 1)) \<or>
                                   sp_chain sp \<noteq> LastRecordHash ref)
                   (corrupt ''historical record chain boundary mismatch''))) (\<lambda>_.
        each W yield (sp_file sp)))))"

definition readRange ::
  "'s world \<Rightarrow> 'a log \<Rightarrow> objectRef \<Rightarrow> revRange \<Rightarrow> int \<Rightarrow> (projection \<Rightarrow> ('s, unit) io) \<Rightarrow> ('s, unit) io" where
  "readRange W lg ref r batchBytes yield =
     io_bind (io_lift (validateRef lg ref)) (\<lambda>(start, endr).
     if \<not> snd (rangeReadPlan start (Level ref) r batchBytes) \<or> First r = endr
     then readRangeParts (Suc (Level ref)) W lg ref r batchBytes yield
     else io_bind (newTemp W) (\<lambda>_. readRangeSpool W lg ref r batchBytes yield))"

subsection \<open>Scan and Verify\<close>

text \<open>The variables that \<open>emit\<close> captures.\<close>

record scanVars =
  sv_next :: int
  sv_chain :: string
  sv_done :: bool

definition emit ::
  "'s world \<Rightarrow> 'a log \<Rightarrow> revRange \<Rightarrow> ('a recd \<Rightarrow> ('s, unit) io) \<Rightarrow> projection \<Rightarrow> ('s \<times> scanVars, unit) io" where
  "emit W lg r yield p =
     io_bind (io_check (w_ctx (lift_world W))) (\<lambda>_.
     io_bind (io_lift (parseRevision (p_Revision p))) (\<lambda>revision.
     if revision < First r \<or> revision > Last r then io_ret ()
     else
       io_bind (\<lambda>x. (fail_if (sv_done (snd x) \<or> revision \<noteq> sv_next (snd x) \<or>
                              sv_chain (snd x) \<noteq> [] \<and> PreviousRecordHash p \<noteq> sv_chain (snd x))
                       (corrupt ''scan record chain mismatch''), x)) (\<lambda>_.
       io_bind (io_lift (recordOf lg p)) (\<lambda>rc.
       io_bind (lift_op (yield rc)) (\<lambda>_ x.
       (Inr (), (fst x,
          if revision = Last r then (snd x)\<lparr>sv_chain := p_RecordHash p, sv_done := True\<rparr>
          else (snd x)\<lparr>sv_chain := p_RecordHash p, sv_next := i64 (sv_next (snd x) + 1)\<rparr>)))))))"

definition visit ::
  "'s world \<Rightarrow> 'a log \<Rightarrow> revRange \<Rightarrow> int \<Rightarrow> (projection \<Rightarrow> ('s, unit) io) \<Rightarrow> objectRef \<Rightarrow> ('s, unit) io" where
  "visit W lg r batchBytes em ref =
     io_bind (io_check (w_ctx W)) (\<lambda>_.
     io_bind (io_lift (validateRef lg ref)) (\<lambda>(start, endr).
     if endr < First r \<or> start > Last r then io_ret ()
     else io_wrap (\<lambda>e. Wrap (''scan '' @ Key ref) [e]) (readRange W lg ref r batchBytes em)))"

definition scanBody ::
  "'s world \<Rightarrow> 'a log \<Rightarrow> 'a snap \<Rightarrow> revRange \<Rightarrow> ('a recd \<Rightarrow> ('s, unit) io) \<Rightarrow> ('s \<times> scanVars, unit) io" where
  "scanBody W lg sn r yield =
     io_bind (forEach (visit (lift_world W) lg r (int (length (c_Event (s_commit sn)))) (emit W lg r yield))
        (frontierRefs (c_Frontier (s_commit sn)))) (\<lambda>_.
     io_bind (emit W lg r yield (project (s_commit sn))) (\<lambda>_ x.
     (fail_if (\<not> sv_done (snd x)) (corrupt ''incomplete scan''), x)))"

text \<open>A nil callback is \<^const>\<open>None\<close>.\<close>

definition Scan ::
  "'s world \<Rightarrow> 'a log \<Rightarrow> 'a snap option \<Rightarrow> revRange \<Rightarrow> ('a recd \<Rightarrow> ('s, unit) io) option \<Rightarrow> ('s, unit) io" where
  "Scan W lg snap r yield =
     io_bind (io_check (w_ctx W)) (\<lambda>_.
     io_bind (io_lift (checkSnapshot lg snap)) (\<lambda>_.
     io_bind (io_lift (fail_if (r \<noteq> zeroRange \<and> (First r \<le> 0 \<or> First r > Last r \<or> Last r > MaxRevision))
                (Sentinel ErrRange))) (\<lambda>_.
     case yield of
       None \<Rightarrow> io_fail (Msg ''lokv: nil scan callback'')
     | Some y \<Rightarrow>
         if r = zeroRange \<or> First r > snapRevision snap then io_ret ()
         else (case snap of
             None \<Rightarrow> io_ret ()
           | Some sn \<Rightarrow>
               let r1 = r\<lparr>Last := min (Last r) (snapRevision snap)\<rparr> in
               io_bind (io_lift (validateFrontier lg (c_Frontier (s_commit sn)) (snapRevision snap)
                          (PreviousRecordHash (project (s_commit sn))))) (\<lambda>_.
               io_bind (run_local \<lparr>sv_next = First r1, sv_chain = [], sv_done = False\<rparr>
                          (scanBody W lg sn r1 y)) (\<lambda>(q, sv).
               io_bind (io_lift q) (\<lambda>_.
               io_check (w_ctx W))))))))"

definition Verify :: "'s world \<Rightarrow> 'a log \<Rightarrow> 'a snap option \<Rightarrow> ('s, unit) io" where
  "Verify W lg snap =
     io_bind (io_check (w_ctx W)) (\<lambda>_.
     io_bind (io_lift (checkSnapshot lg snap)) (\<lambda>_.
     if snap = None then io_ret ()
     else Scan W lg snap rangeAll (Some (\<lambda>_. io_ret ()))))"

end
