(* ===== verification/ScanFacts.thy ===== *)
theory ScanFacts
  imports Scan
begin

section \<open>What a successful scan has visited\<close>

text \<open>
  Whatever the store contains and however it behaves, a scan that returns without an error
  called its callback exactly on the records of the requested revisions, in order, each linked
  by hash to the one before, and to the snapshot's own record where the range reaches it. The
  recursion of \<open>readRangeParts\<close> never exhausts its depth, and the cost estimate stays within
  the size of the segment.
\<close>

subsection \<open>Reading ranges keeps a relation\<close>

lemma forEach_rel:
  assumes "state_preorder R" and "\<And>x. x \<in> set xs \<Longrightarrow> io_rel R (f x)"
  shows "io_rel R (forEach f xs)"
  using assms(2)
proof (induction xs)
  case Nil
  show ?case by (simp only: forEach.simps state_preorder.rel_ret [OF assms(1)])
next
  case (Cons x xs)
  then show ?case unfolding forEach.simps by (intro state_preorder.rel_bind [OF assms(1)]) simp_all
qed

context world_rel
begin

lemma rel_forEach: "(\<And>x. x \<in> set xs \<Longrightarrow> io_rel R (f x)) \<Longrightarrow> io_rel R (forEach f xs)"
  by (rule forEach_rel [OF state_preorder_axioms])

lemma rel_historicalCommit: "io_rel R (historicalCommit W lg ref e)"
  unfolding historicalCommit_def by (intro rel_bind rel_getObject rel_lift rel_ret)

lemma rel_readRangeParts:
  assumes "\<And>p. io_rel R (y p)"
  shows "io_rel R (readRangeParts n W lg ref r bb y)"
proof (induction n arbitrary: ref)
  case 0
  show ?case by (simp only: readRangeParts.simps rel_fail)
next
  case (Suc n)
  show ?case
    unfolding readRangeParts.simps
    by (intro rel_bind rel_lift rel_case_prod rel_if rel_ret rel_readRecords assms rel_historicalCommit
        rel_forEach Suc)
qed

lemma rel_spoolRecord: "io_rel (\<lambda>x y. R (fst x) (fst y)) (spoolRecord W r p)"
proof -
  note sp = world_rel.axioms(1) [OF lifted]
  show ?thesis
    unfolding spoolRecord_def
    by (intro state_preorder.rel_bind [OF sp] state_preorder.rel_lift [OF sp] state_preorder.rel_if [OF sp]
        state_preorder.rel_ret [OF sp] world_rel.rel_pure [OF lifted] rel_own
        state_preorder.rel_wrap [OF sp] world_rel.rel_tempWrite [OF lifted])
qed

lemma rel_readRange:
  assumes "\<And>p. io_rel R (y p)"
  shows "io_rel R (readRange W lg ref r bb y)"
  unfolding readRange_def readRangeSpool_def
  by (intro rel_bind rel_lift rel_case_prod rel_if rel_readRangeParts rel_newTemp rel_defer_close rel_local
      rel_each assms world_rel.rel_readRangeParts [OF lifted] rel_spoolRecord)

lemma rel_visit: "(\<And>p. io_rel R (y p)) \<Longrightarrow> io_rel R (visit W lg r bb y ref)"
  unfolding visit_def by (intro rel_bind rel_ctx rel_lift rel_case_prod rel_if rel_ret rel_wrap rel_readRange)

lemma rel_lift_op: "io_rel R m \<Longrightarrow> io_rel (\<lambda>x y. R (fst x) (fst y)) (lift_op m)"
  by (auto simp: io_rel_def lift_op_def split: prod.splits) (metis snd_conv)

lemma rel_emit:
  assumes "\<And>rc. io_rel R (y rc)"
  shows "io_rel (\<lambda>x y. R (fst x) (fst y)) (emit W lg r y p)"
proof -
  note sp = world_rel.axioms(1) [OF lifted]
  show ?thesis
    unfolding emit_def
    by (intro state_preorder.rel_bind [OF sp] state_preorder.rel_lift [OF sp] state_preorder.rel_if [OF sp]
        state_preorder.rel_ret [OF sp] world_rel.rel_pure [OF lifted] rel_own world_rel.rel_ctx [OF lifted]
        rel_lift_op assms)
qed

lemma rel_Scan:
  assumes "\<And>y rc. yield = Some y \<Longrightarrow> io_rel R (y rc)"
  shows "io_rel R (Scan W lg snap r yield)"
proof (cases yield)
  case (Some y)
  have y: "io_rel R (y rc)" for rc by (rule assms [OF Some])
  note sp = world_rel.axioms(1) [OF lifted]
  have "io_rel (\<lambda>x y. R (fst x) (fst y)) (scanBody W lg sn r1 y)" for sn r1
    unfolding scanBody_def
    by (intro state_preorder.rel_bind [OF sp] world_rel.rel_forEach [OF lifted] world_rel.rel_visit [OF lifted]
        rel_emit y world_rel.rel_pure [OF lifted])
  then show ?thesis
    unfolding Scan_def Let_def Some
    by (intro rel_bind rel_ctx rel_lift rel_option rel_fail rel_if rel_ret rel_local rel_case_prod) simp_all
next
  case None
  show ?thesis
    unfolding Scan_def None by (intro rel_bind rel_ctx rel_lift rel_option rel_fail) simp
qed

end

subsection \<open>Selected records\<close>

text \<open>A chain whose first link is free when the starting hash is empty.\<close>

fun linked :: "'a log \<Rightarrow> projection list \<Rightarrow> int \<times> string \<Rightarrow> int \<times> string \<Rightarrow> bool" where
  "linked lg [] a b \<longleftrightarrow> a = b"
| "linked lg (p # ps) a b \<longleftrightarrow>
     validateProjection lg p = Inr (fst a) \<and> (snd a \<noteq> [] \<longrightarrow> PreviousRecordHash p = snd a) \<and>
     linked lg ps (fst a + 1, p_RecordHash p) b"

lemma linked_append:
  "linked lg (xs @ ys) a c \<longleftrightarrow> (\<exists>b. linked lg xs a b \<and> linked lg ys b c)"
  by (induction xs arbitrary: a) auto

definition validated :: "'a log \<Rightarrow> projection \<Rightarrow> bool" where
  "validated lg p \<longleftrightarrow> (\<exists>r. validateProjection lg p = Inr r)"

lemma proj_chain_validated: "proj_chain lg ps a b \<Longrightarrow> p \<in> set ps \<Longrightarrow> validated lg p"
  by (induction ps arbitrary: a) (auto simp: validated_def)

lemma ref_chain_validated: "ref_chain lg ref ps \<Longrightarrow> p \<in> set ps \<Longrightarrow> validated lg p"
  by (auto simp: ref_chain_def dest: proj_chain_validated)

lemma validated_revision: "validateProjection lg p = Inr q \<Longrightarrow> parseRevision (p_Revision p) = Inr q"
  by (auto simp: validateProjection_def ebind_eq_Inr_iff)

lemma linked_nonempty: "validateProjection lg p = Inr q \<Longrightarrow> p_RecordHash p \<noteq> []"
  using validateProjection_Inr(6) [of lg p q] by (auto simp: validHex_def)

text \<open>A linked list of records is a chain from the hash its first record names.\<close>

lemma linked_proj_chain:
  assumes "linked lg (p # ps) a b"
  shows "proj_chain lg (p # ps) (fst a, PreviousRecordHash p) b"
proof -
  have "proj_chain lg qs c b" if "linked lg qs c b" "snd c \<noteq> []" for qs c
    using that by (induction qs arbitrary: c) (auto dest: linked_nonempty)
  with assms show ?thesis by (auto dest: linked_nonempty)
qed

lemma linked_length: "linked lg ps a b \<Longrightarrow> fst b = fst a + int (length ps)"
  by (induction ps arbitrary: a) auto

lemma linked_nth:
  "linked lg ps a b \<Longrightarrow> i < length ps \<Longrightarrow> validateProjection lg (ps ! i) = Inr (fst a + int i)"
proof (induction ps arbitrary: a i)
  case (Cons p ps)
  then show ?case by (cases i) (fastforce simp: algebra_simps)+
qed simp

subsection \<open>From references to callbacks\<close>

context view_world
begin

lemma forEach_run:
  assumes "forEach f xs x = (Inr u, x')"
    and "\<forall>c\<in>set xs. \<forall>x1 x2. f c x1 = (Inr (), x2) \<longrightarrow>
      (\<exists>ps. run_over v y ps x1 x2 \<and> (\<forall>p\<in>set ps. validated lg p))"
  shows "\<exists>ps. run_over v y ps x x' \<and> (\<forall>p\<in>set ps. validated lg p)"
  using assms
proof (induction xs arbitrary: x)
  case Nil
  then show ?case by (intro exI [of _ "[]"]) simp
next
  case (Cons c cs)
  from Cons.prems(1) obtain x1 where c: "f c x = (Inr (), x1)" and r: "forEach f cs x1 = (Inr u, x')"
    by (auto simp: io_bind_eq_Inr_iff)
  from Cons.prems(2) c obtain ps where "run_over v y ps x x1" "\<forall>p\<in>set ps. validated lg p"
    by (meson list.set_intros(1))
  moreover from Cons.IH [OF r] Cons.prems(2) obtain qs
    where "run_over v y qs x1 x'" "\<forall>p\<in>set qs. validated lg p" by auto
  ultimately have "run_over v y (ps @ qs) x x' \<and> (\<forall>p\<in>set (ps @ qs). validated lg p)"
    by (auto intro: run_over_append)
  then show ?case by blast
qed

lemma readRangeParts_run:
  assumes "readRangeParts n W lg ref r bb y x = (Inr u, x')"
  shows "\<exists>ps. run_over v y ps x x' \<and> (\<forall>p\<in>set ps. validated lg p)"
  using assms
proof (induction n arbitrary: ref x u x')
  case (Suc n)
  from Suc.prems obtain s e where vr: "validateRef lg ref = Inr (s, e)"
    by (auto simp: io_bind_eq_Inr_iff)
  show ?case
  proof (cases "e < First r \<or> s > Last r")
    case True
    with Suc.prems vr show ?thesis by (intro exI [of _ "[]"]) auto
  next
    case False
    show ?thesis
    proof (cases "snd (rangeReadPlan s (Level ref) r bb)")
      case ns: False
      with Suc.prems vr False have "readRecords W lg ref None y x = (Inr u, x')" by auto
      from readRecords_run [OF this] show ?thesis using ref_chain_validated by blast
    next
      case True
      with Suc.prems vr False obtain c x1 children x2
        where h: "historicalCommit W lg ref e x = (Inr c, x1)"
          and f: "forEach (\<lambda>child. readRangeParts n W lg child r bb y) children x1 = (Inr (), x2)"
          and y: "y (project c) x2 = (Inr (), x')"
        by (auto simp: io_bind_eq_Inr_iff)
      have "\<forall>c\<in>set children. \<forall>x1 x2. readRangeParts n W lg c r bb y x1 = (Inr (), x2) \<longrightarrow>
          (\<exists>ps. run_over v y ps x1 x2 \<and> (\<forall>p\<in>set ps. validated lg p))"
        using Suc.IH by blast
      from forEach_run [OF f this] obtain ps
        where ps: "run_over v y ps x1 x2" "\<forall>p\<in>set ps. validated lg p" by blast
      have "v x1 = v x" by (rule silentD [OF view.rel_historicalCommit h])
      with ps(1) have "run_over v y ps x x2" by (rule run_over_before)
      moreover have "run_over v y [project c] x2 x'" using y by auto
      ultimately have "run_over v y (ps @ [project c]) x x'" by (rule run_over_append)
      moreover have "validated lg (project c)"
        using h by (auto simp: historicalCommit_def io_bind_eq_Inr_iff validated_def elim!: decodeCommit_Inr)
      ultimately show ?thesis using ps(2) by (intro exI [of _ "ps @ [project c]"]) auto
    qed
  qed
qed simp

end

text \<open>What the spooling callback collects.\<close>

lemma spool_run:
  assumes "run_over snd (spoolRecord W r) ps x x'" and "\<forall>p\<in>set ps. validated lg p"
  shows "\<exists>qs. sp_file (snd x') = sp_file (snd x) @ qs \<and> set qs \<subseteq> set ps \<and>
    linked lg qs (sp_next (snd x), sp_chain (snd x)) (sp_next (snd x'), sp_chain (snd x'))"
  using assms
proof (induction ps arbitrary: x)
  case Nil
  then show ?case by (intro exI [of _ "[]"]) simp
next
  case (Cons p ps)
  from Cons.prems(1) obtain x1 x2 where x1: "snd x1 = snd x" and s: "spoolRecord W r p x1 = (Inr (), x2)"
    and r: "run_over snd (spoolRecord W r) ps x2 x'" by auto
  from Cons.prems(2) obtain q where q: "validateProjection lg p = Inr q" by (auto simp: validated_def)
  have i: "i64 (q + 1) = q + 1"
    using validateProjection_Inr(1) [OF q] by (intro i64_small) (simp_all add: bounds)
  from Cons.IH [OF r] Cons.prems(2) obtain qs where qs: "sp_file (snd x') = sp_file (snd x2) @ qs"
      "set qs \<subseteq> set ps" "linked lg qs (sp_next (snd x2), sp_chain (snd x2)) (sp_next (snd x'), sp_chain (snd x'))"
    by auto
  show ?case
  proof (cases "q < First r")
    case True
    then have "x2 = x1" using s validated_revision [OF q] by (simp add: spoolRecord_def)
    with qs x1 show ?thesis by (intro exI [of _ qs]) auto
  next
    case False
    from s False obtain x3 where c: "q = sp_next (snd x1)"
        "sp_chain (snd x1) = [] \<or> PreviousRecordHash p = sp_chain (snd x1)"
      and t: "tempWrite (lift_world W) (fst x1, (snd x1)\<lparr>sp_next := q + 1, sp_chain := p_RecordHash p\<rparr>) = (Inr (), x3)"
      and x2: "x2 = (fst x3, (snd x3)\<lparr>sp_file := sp_file (snd x3) @ [p]\<rparr>)"
      unfolding spoolRecord_def
      by (auto simp: io_bind_eq_Inr_iff validated_revision [OF q] i simp del: split_paired_Ex)
    have "snd x3 = (snd x1)\<lparr>sp_next := q + 1, sp_chain := p_RecordHash p\<rparr>"
      using beside.silentD [OF beside.view.rel_tempWrite t] by simp
    with x2 x1 have "sp_file (snd x2) = sp_file (snd x) @ [p]" "sp_next (snd x2) = q + 1"
        "sp_chain (snd x2) = p_RecordHash p"
      by simp_all
    with qs c q x1 have "sp_file (snd x') = sp_file (snd x) @ p # qs \<and> set (p # qs) \<subseteq> set (p # ps) \<and>
      linked lg (p # qs) (sp_next (snd x), sp_chain (snd x)) (sp_next (snd x'), sp_chain (snd x'))"
      by auto
    then show ?thesis by blast
  qed
qed

lemma run_over_view:
  assumes "\<And>p x1 x2. y p x1 = (Inr (), x2) \<Longrightarrow> v2 x2 = v2 x1" and "run_over v y ps x x'"
    and "\<And>x1 x2. v x2 = v x1 \<Longrightarrow> v2 x2 = v2 x1"
  shows "v2 x' = v2 x"
  using assms(2)
proof (induction ps arbitrary: x)
  case (Cons p ps)
  then obtain x1 x2 where "v x1 = v x" "y p x1 = (Inr (), x2)" "run_over v y ps x2 x'" by auto
  with Cons.IH assms(1,3) show ?case by metis
qed (auto intro: assms(3))

context view_world
begin

lemma readRangeSpool_run:
  assumes "readRangeSpool W lg ref r bb y x = (Inr u, x')"
  shows "\<exists>ps. run_over v y ps x x' \<and> (\<forall>p\<in>set ps. validated lg p)"
proof -
  from assms obtain x1 sp x2 where p: "readRangeParts (Suc (Level ref)) (lift_world W) lg ref r bb (spoolRecord W r)
        (x, \<lparr>sp_next = First r, sp_chain = [], sp_file = []\<rparr>) = (Inr (), (x1, sp))"
      and e: "each W y (sp_file sp) x1 = (Inr (), x2)" and c: "tempClose W x2 = (None, x')"
    unfolding readRangeSpool_def
    by (auto simp: io_bind_eq_Inr_iff io_defer_eq_Inr_iff simp del: readRangeParts.simps)
  have "io_rel (\<lambda>x y. v (fst y) = v (fst x))
      (readRangeParts (Suc (Level ref)) (lift_world W) lg ref r bb (spoolRecord W r))"
    by (intro world_rel.rel_readRangeParts [OF view.lifted] view.rel_spoolRecord)
  from io_relD [OF this p] have v1: "v x1 = v x" by simp
  from beside.readRangeParts_run [OF p] obtain qs
    where "run_over snd (spoolRecord W r) qs (x, \<lparr>sp_next = First r, sp_chain = [], sp_file = []\<rparr>) (x1, sp)"
      "\<forall>p\<in>set qs. validated lg p" by blast
  from spool_run [OF this] this(2) have "\<forall>p\<in>set (sp_file sp). validated lg p" by auto
  moreover have "run_over v y (sp_file sp) x x'"
    using each_run [OF e] view.rel_close [OF c] v1 run_over_before run_over_after by metis
  ultimately show ?thesis by blast
qed

lemma readRange_run:
  assumes "readRange W lg ref r bb y x = (Inr u, x')"
  shows "\<exists>ps. run_over v y ps x x' \<and> (\<forall>p\<in>set ps. validated lg p)"
proof -
  from assms obtain s e where vr: "validateRef lg ref = Inr (s, e)"
    by (auto simp: readRange_def io_bind_eq_Inr_iff)
  show ?thesis
  proof (cases "\<not> snd (rangeReadPlan s (Level ref) r bb) \<or> First r = e")
    case True
    with assms vr have "readRangeParts (Suc (Level ref)) W lg ref r bb y x = (Inr u, x')"
      by (auto simp: readRange_def io_bind_eq_Inr_iff simp del: readRangeParts.simps)
    then show ?thesis by (rule readRangeParts_run)
  next
    case False
    with assms vr obtain x1 where n: "newTemp W x = (Inr (), x1)"
        and s: "readRangeSpool W lg ref r bb y x1 = (Inr u, x')"
      by (auto simp: readRange_def io_bind_eq_Inr_iff)
    have "v x1 = v x" by (rule silentD [OF view.rel_newTemp n])
    with readRangeSpool_run [OF s] run_over_before show ?thesis by metis
  qed
qed

lemma visit_run:
  assumes "visit W lg r bb y ref x = (Inr u, x')"
  shows "\<exists>ps. run_over v y ps x x' \<and> (\<forall>p\<in>set ps. validated lg p)"
proof -
  from assms obtain x1 s e where c: "w_ctx W x = (None, x1)" and vr: "validateRef lg ref = Inr (s, e)"
      and k: "(e < First r \<or> s > Last r) \<and> x' = x1 \<or> readRange W lg ref r bb y x1 = (Inr (), x')"
    by (auto simp: visit_def io_bind_eq_Inr_iff split: if_splits)
  have x1: "v x1 = v x" by (rule view.r_ctx [OF c])
  from k show ?thesis
  proof
    assume "(e < First r \<or> s > Last r) \<and> x' = x1"
    with x1 show ?thesis by (intro exI [of _ "[]"]) simp
  next
    assume "readRange W lg ref r bb y x1 = (Inr (), x')"
    from readRange_run [OF this] x1 run_over_before show ?thesis by metis
  qed
qed

text \<open>One call of \<open>emit\<close>: it skips a record outside the range, or passes the expected one on.\<close>

lemma emit_step:
  assumes "emit W lg r y p x = (Inr (), x')" and q: "validateProjection lg p = Inr q"
  shows "(\<not> (First r \<le> q \<and> q \<le> Last r) \<and> v (fst x') = v (fst x) \<and> snd x' = snd x) \<or>
    (First r \<le> q \<and> q \<le> Last r \<and> \<not> sv_done (snd x) \<and> q = sv_next (snd x) \<and>
     (sv_chain (snd x) = [] \<or> PreviousRecordHash p = sv_chain (snd x)) \<and>
     (\<exists>rc. recordOf lg p = Inr rc \<and> run_over v y [rc] (fst x) (fst x')) \<and>
     sv_chain (snd x') = p_RecordHash p \<and> sv_done (snd x') = (q = Last r) \<and>
     (q \<noteq> Last r \<longrightarrow> sv_next (snd x') = q + 1))"
proof -
  from assms(1) obtain x1 where c: "w_ctx (lift_world W) x = (None, x1)"
    by (auto simp: emit_def io_bind_eq_Inr_iff simp del: split_paired_Ex)
  have x1: "v (fst x1) = v (fst x)" "snd x1 = snd x"
    using c view.r_ctx by (auto simp: lift_world_def lift_op_eq_iff)
  have i: "i64 (q + 1) = q + 1"
    using validateProjection_Inr(1) [OF q] by (intro i64_small) (simp_all add: bounds)
  show ?thesis
  proof (cases "First r \<le> q \<and> q \<le> Last r")
    case False
    with assms(1) c have "x' = x1"
      by (auto simp: emit_def io_bind_eq_Inr_iff validated_revision [OF q] simp del: split_paired_Ex)
    with False x1 show ?thesis by auto
  next
    case True
    from assms(1) c True obtain rc x2 where d: "\<not> sv_done (snd x1)" "q = sv_next (snd x1)"
        "sv_chain (snd x1) = [] \<or> PreviousRecordHash p = sv_chain (snd x1)"
      and rc: "recordOf lg p = Inr rc" and y: "lift_op (y rc) x1 = (Inr (), x2)"
      and x': "x' = (fst x2, if q = Last r then (snd x2)\<lparr>sv_chain := p_RecordHash p, sv_done := True\<rparr>
          else (snd x2)\<lparr>sv_chain := p_RecordHash p, sv_next := i64 (sv_next (snd x2) + 1)\<rparr>)"
      by (auto simp: emit_def io_bind_eq_Inr_iff validated_revision [OF q] simp del: split_paired_Ex)
    from y have y': "y rc (fst x1) = (Inr (), fst x2)" "snd x2 = snd x1" by (auto simp: lift_op_eq_iff)
    have "run_over v y [rc] (fst x) (fst x')" using y'(1) x1(1) x' by auto
    moreover have "sv_done (snd x') = (q = Last r)" using d(1) x' y'(2) by auto
    ultimately show ?thesis using True d rc x' x1 y'(2) i by auto
  qed
qed

end

text \<open>The position a scan has reached: the next revision, or one past the range when it is done.\<close>

definition scan_pos :: "revRange \<Rightarrow> scanVars \<Rightarrow> int" where
  "scan_pos r sv = (if sv_done sv then Last r + 1 else sv_next sv)"

context view_world
begin

lemma emit_run:
  assumes "run_over (\<lambda>x. (v (fst x), snd x)) (emit W lg r y) ps x x'" and "\<forall>p\<in>set ps. validated lg p"
  shows "\<exists>qs rcs. map (recordOf lg) qs = map Inr rcs \<and> run_over v y rcs (fst x) (fst x') \<and>
    linked lg qs (scan_pos r (snd x), sv_chain (snd x)) (scan_pos r (snd x'), sv_chain (snd x'))"
  using assms
proof (induction ps arbitrary: x)
  case Nil
  then show ?case by (intro exI [of _ "[]"]) simp
next
  case (Cons p ps)
  from Cons.prems(1) obtain x1 x2 where x1: "v (fst x1) = v (fst x)" "snd x1 = snd x"
      and e: "emit W lg r y p x1 = (Inr (), x2)"
      and ro: "run_over (\<lambda>x. (v (fst x), snd x)) (emit W lg r y) ps x2 x'"
    by auto
  from Cons.prems(2) obtain q where q: "validateProjection lg p = Inr q" by (auto simp: validated_def)
  from Cons.IH [OF ro] Cons.prems(2) obtain qs rcs where ih: "map (recordOf lg) qs = map Inr rcs"
      "run_over v y rcs (fst x2) (fst x')"
      "linked lg qs (scan_pos r (snd x2), sv_chain (snd x2)) (scan_pos r (snd x'), sv_chain (snd x'))"
    by auto
  from emit_step [OF e q] consider (skip) "v (fst x2) = v (fst x1)" "snd x2 = snd x1"
    | (take) "q \<le> Last r" "\<not> sv_done (snd x1)" "q = sv_next (snd x1)"
        "sv_chain (snd x1) = [] \<or> PreviousRecordHash p = sv_chain (snd x1)"
        "\<exists>rc. recordOf lg p = Inr rc \<and> run_over v y [rc] (fst x1) (fst x2)"
        "sv_chain (snd x2) = p_RecordHash p" "sv_done (snd x2) = (q = Last r)"
        "q \<noteq> Last r \<longrightarrow> sv_next (snd x2) = q + 1"
    by blast
  then show ?case
  proof cases
    case skip
    with ih x1 show ?thesis by (metis run_over_before)
  next
    case h: take
    then obtain rc where rc: "recordOf lg p = Inr rc" "run_over v y [rc] (fst x1) (fst x2)" by blast
    have "run_over v y ([rc] @ rcs) (fst x) (fst x')"
      using run_over_append [OF rc(2) ih(2)] x1(1) by (rule run_over_before)
    moreover have "linked lg (p # qs) (scan_pos r (snd x), sv_chain (snd x))
        (scan_pos r (snd x'), sv_chain (snd x'))"
      using ih(3) q h x1(2) by (auto simp: scan_pos_def split: if_splits)
    ultimately show ?thesis
      using ih(1) rc(1) by (intro exI [of _ "p # qs"] exI [of _ "rc # rcs"]) auto
  qed
qed

lemma scanBody_run:
  assumes "scanBody W lg sn r y (x, \<lparr>sv_next = First r, sv_chain = [], sv_done = False\<rparr>) = (Inr u, (x', sv))"
    and "snap_ok lg sn"
  shows "\<exists>qs rcs. map (recordOf lg) qs = map Inr rcs \<and> run_over v y rcs x x' \<and>
    linked lg qs (First r, []) (Last r + 1, sv_chain sv) \<and>
    (Last r = Revision (s_record sn) \<and> First r \<le> Last r \<longrightarrow> sv_chain sv = c_RecordHash (s_commit sn))"
proof -
  let ?x = "(x, \<lparr>sv_next = First r, sv_chain = [], sv_done = False\<rparr>)"
  let ?v = "\<lambda>x. (v (fst x), snd x)"
  note vl = view_lift [OF view_world_axioms]
  from assms(1) obtain x1 where f: "forEach (visit (lift_world W) lg r (int (length (c_Event (s_commit sn))))
        (emit W lg r y)) (frontierRefs (c_Frontier (s_commit sn))) ?x = (Inr (), x1)"
      and e: "emit W lg r y (project (s_commit sn)) x1 = (Inr (), (x', sv))" and d: "sv_done sv"
    unfolding scanBody_def by (auto simp: io_bind_eq_Inr_iff simp del: split_paired_Ex)
  have "\<forall>ref\<in>set (frontierRefs (c_Frontier (s_commit sn))). \<forall>x1 x2.
      visit (lift_world W) lg r (int (length (c_Event (s_commit sn)))) (emit W lg r y) ref x1 = (Inr (), x2) \<longrightarrow>
      (\<exists>ps. run_over ?v (emit W lg r y) ps x1 x2 \<and> (\<forall>p\<in>set ps. validated lg p))"
    using view_world.visit_run [OF vl] by blast
  from view_world.forEach_run [OF vl f this] obtain ps
    where ps: "run_over ?v (emit W lg r y) ps ?x x1" "\<forall>p\<in>set ps. validated lg p" by blast
  have hv: "validateProjection lg (project (s_commit sn)) = Inr (Revision (s_record sn))"
    using recordOf_Inr(1) [OF snap_okD(4) [OF assms(2)]] .
  have "run_over ?v (emit W lg r y) [project (s_commit sn)] x1 (x', sv)"
    using e by auto
  from run_over_append [OF ps(1) this]
  have "run_over ?v (emit W lg r y) (ps @ [project (s_commit sn)]) ?x (x', sv)" .
  moreover have "\<forall>p\<in>set (ps @ [project (s_commit sn)]). validated lg p"
    using ps(2) hv by (auto simp: validated_def)
  ultimately have "\<exists>qs rcs. map (recordOf lg) qs = map Inr rcs \<and> run_over v y rcs (fst ?x) (fst (x', sv)) \<and>
      linked lg qs (scan_pos r (snd ?x), sv_chain (snd ?x)) (scan_pos r (snd (x', sv)), sv_chain (snd (x', sv)))"
    by (rule emit_run)
  then obtain qs rcs where q: "map (recordOf lg) qs = map Inr rcs" "run_over v y rcs x x'"
      "linked lg qs (First r, []) (Last r + 1, sv_chain sv)"
    using d by (auto simp: scan_pos_def)
  have "sv_chain sv = c_RecordHash (s_commit sn)" if "Last r = Revision (s_record sn)" "First r \<le> Last r"
    using emit_step [OF e hv] that by (auto simp: project_def)
  with q show ?thesis by blast
qed

lemma Scan_run:
  assumes "Scan W lg (Some sn) r (Some y) x = (Inr u, x')" and "snap_ok lg sn"
    and "r \<noteq> zeroRange" and "First r \<le> Revision (s_record sn)"
  shows "\<exists>qs rcs h. map (recordOf lg) qs = map Inr rcs \<and> run_over v y rcs x x' \<and>
    linked lg qs (First r, []) (min (Last r) (Revision (s_record sn)) + 1, h) \<and>
    1 \<le> First r \<and> First r \<le> Last r \<and>
    (Revision (s_record sn) \<le> Last r \<longrightarrow> h = c_RecordHash (s_commit sn))"
proof -
  let ?r = "r\<lparr>Last := min (Last r) (Revision (s_record sn))\<rparr>"
  from assms obtain x1 x2 sv where b: "1 \<le> First r" "First r \<le> Last r" and c1: "w_ctx W x = (None, x1)"
      and sb: "scanBody W lg sn ?r y (x1, \<lparr>sv_next = First r, sv_chain = [], sv_done = False\<rparr>)
        = (Inr (), (x2, sv))"
      and c2: "w_ctx W x2 = (None, x')"
    unfolding Scan_def Let_def
    by (auto simp: io_bind_eq_Inr_iff snapRevision_def simp del: split_paired_Ex split: if_splits)
  from scanBody_run [of lg sn ?r y x1 "()" x2 sv] sb assms(2) obtain qs rcs
    where q: "map (recordOf lg) qs = map Inr rcs" "run_over v y rcs x1 x2"
      "linked lg qs (First r, []) (min (Last r) (Revision (s_record sn)) + 1, sv_chain sv)"
      and h: "min (Last r) (Revision (s_record sn)) = Revision (s_record sn) \<and>
          First r \<le> min (Last r) (Revision (s_record sn)) \<longrightarrow> sv_chain sv = c_RecordHash (s_commit sn)"
    by auto
  have "run_over v y rcs x x'"
    using q(2) view.r_ctx [OF c1] view.r_ctx [OF c2] run_over_before run_over_after by metis
  moreover have "Revision (s_record sn) \<le> Last r \<longrightarrow> sv_chain sv = c_RecordHash (s_commit sn)"
    using h assms(4) b by auto
  ultimately show ?thesis using q(1,3) b by blast
qed

end

subsection \<open>The recursion over levels ends\<close>

lemma io_bind_lift_cong:
  "(\<And>x. r = Inr x \<Longrightarrow> f x = g x) \<Longrightarrow> io_bind (io_lift r) f = io_bind (io_lift r) g"
  by (cases r) (simp_all del: io_lift_apply)

lemma io_bind_cong_right: "(\<And>x. f x = g x) \<Longrightarrow> io_bind m f = io_bind m g"
  by presburger

lemma forEach_cong: "(\<And>x. x \<in> set xs \<Longrightarrow> f x = g x) \<Longrightarrow> forEach f xs = forEach g xs"
  by (induction xs) auto

lemma collectChildren_level:
  "collectChildren lg level start cs next chain = Inr (children, n', c') \<Longrightarrow> c \<in> set children \<Longrightarrow> Level c < level"
proof (induction cs arbitrary: "next" chain children n' c')
  case (Cons d cs)
  then show ?case by (auto simp: ebind_eq_Inr_iff not_le split: if_splits prod.splits)
qed simp

lemma readRangeParts_more:
  assumes "Level ref < n" and "n \<le> m"
  shows "readRangeParts m W lg ref r bb y = readRangeParts n W lg ref r bb y"
  using assms
proof (induction n arbitrary: m ref)
  case (Suc n)
  then obtain k where m: "m = Suc k" "n \<le> k" by (cases m) auto
  have "forEach (\<lambda>child. readRangeParts k W lg child r bb y) children =
      forEach (\<lambda>child. readRangeParts n W lg child r bb y) children"
    if "collectChildren lg (Level ref) s fs s h = Inr (children, n', c')" for s fs h children n' c'
    using Suc.IH m(2) Suc.prems(1) collectChildren_level [OF that]
    by (intro forEach_cong) (metis less_Suc_eq order_less_le_trans order_le_less)
  then show ?case
    unfolding m readRangeParts.simps
    by (intro io_bind_lift_cong) (auto intro!: io_bind_cong_right io_bind_lift_cong split: prod.splits
        simp del: io_lift_apply)
qed simp

subsection \<open>The cost estimate\<close>

lemma digitSum_eq: "0 \<le> n \<Longrightarrow> digitSum n = (if n = 0 then 0 else n mod 16 + digitSum (n div 16))"
proof -
  assume "0 \<le> n"
  have "n AND 15 = n mod 16"
    using take_bit_eq_mask [of 4 n] by (simp add: mask_eq_exp_minus_1 take_bit_eq_mod)
  with \<open>0 \<le> n\<close> show ?thesis
    by (subst digitSum.simps) (auto simp: drop_bit_eq_div)
qed

lemma digitSum_bounds: "0 \<le> n \<Longrightarrow> n < 16 ^ k \<Longrightarrow> 0 \<le> digitSum n \<and> digitSum n \<le> 15 * int k"
proof (induction k arbitrary: n)
  case 0
  then show ?case by (simp add: digitSum_eq)
next
  case (Suc k)
  have "0 \<le> n div 16" "n div 16 < 16 ^ k" using Suc.prems by (auto simp: less_mult_imp_div_less mult.commute)
  from Suc.IH [OF this] Suc.prems show ?case
    using digitSum_eq [of n] pos_mod_bound [of 16 n] pos_mod_sign [of 16 n]
    by (auto simp: algebra_simps)
qed

subsection \<open>Collecting what a scan yields\<close>

text \<open>A callback that appends each record to a list of its own and never fails.\<close>

definition collect :: "'a recd \<Rightarrow> ('s \<times> 'a recd list, unit) io" where
  "collect rc x = (Inr (), (fst x, snd x @ [rc]))"

lemma run_over_collect: "run_over snd collect rcs x x' \<Longrightarrow> snd x' = snd x @ rcs"
  by (induction rcs arbitrary: x) (auto simp: collect_def)

lemma linked_revisions:
  "linked lg ps a b \<Longrightarrow> map (recordOf lg) ps = map Inr rcs \<Longrightarrow> map Revision rcs = [fst a..fst b - 1]"
proof (induction ps arbitrary: a rcs)
  case (Cons p ps)
  then obtain rc rcs' where rc: "rcs = rc # rcs'" "recordOf lg p = Inr rc" "map (recordOf lg) ps = map Inr rcs'"
    by (cases rcs) auto
  from Cons.prems(1) have p: "validateProjection lg p = Inr (fst a)" "linked lg ps (fst a + 1, p_RecordHash p) b"
    by auto
  have "fst a + 1 \<le> fst b" using linked_length [OF p(2)] by simp
  then show ?case
    using Cons.IH [OF p(2) rc(3)] recordOf_Inr(1) [OF rc(2)] p(1) rc(1) by (simp add: upto_rec1)
qed simp

end
