(* ===== verification/Projection.thy ===== *)
theory Projection
  imports ScanFacts
begin

section \<open>In-memory projections of a log (state.go)\<close>

text \<open>
  A \<open>State[T, S]\<close> folds the log's events into an application value. Its fields sit beside the
  world's state, and the application's \<open>apply\<close> is a function of the value and an event that
  returns the new value (kept even on failure) and an error. \<open>SyncTo\<close> scans from the applied
  revision to a snapshot; an apply error poisons the State for good. The lemmas say what the
  value is after a successful sync, and what holds after any sync at all.
\<close>

subsection \<open>State and operations\<close>

record 'v pstate =
  st_value :: 'v
  st_revision :: int
  st_err :: "goerr option"

type_synonym ('v, 'a) applyFn = "'v \<Rightarrow> 'a \<Rightarrow> 'v \<times> goerr option"

fun applyItems :: "('v, 'a) applyFn \<Rightarrow> nat \<Rightarrow> 'a list \<Rightarrow> ('s \<times> 'v pstate, unit) io" where
  "applyItems ap i [] x = (Inr (), x)"
| "applyItems ap i (value # values) x =
     (case ap (st_value (snd x)) value of (v', err) \<Rightarrow>
        (case err of
           None \<Rightarrow> applyItems ap (Suc i) values (fst x, (snd x)\<lparr>st_value := v'\<rparr>)
         | Some e \<Rightarrow>
             let e' = Wrap ''lokv: apply revision item'' [e] in
             (Inl e', (fst x, (snd x)\<lparr>st_value := v', st_err := Some e'\<rparr>))))"

definition applyRecord :: "('v, 'a) applyFn \<Rightarrow> 'a recd \<Rightarrow> ('s \<times> 'v pstate, unit) io" where
  "applyRecord ap rc =
     io_bind (applyItems ap 0 (Value rc)) (\<lambda>_ x.
     (Inr (), (fst x, (snd x)\<lparr>st_revision := Revision rc\<rparr>)))"

definition SyncTo ::
  "'s world \<Rightarrow> 'a log \<Rightarrow> ('v, 'a) applyFn \<Rightarrow> 'a snap option \<Rightarrow> ('s \<times> 'v pstate, unit) io" where
  "SyncTo W lg ap snap x0 =
     (case st_err (snd x0) of
        Some e \<Rightarrow> (Inl e, x0)
      | None \<Rightarrow>
          io_bind (io_check (w_ctx (lift_world W))) (\<lambda>_.
          io_bind (io_lift (checkSnapshot lg snap)) (\<lambda>_.
          io_bind (\<lambda>x. (fail_if (snapRevision snap < st_revision (snd x))
                          (Wrap ''lokv: snapshot revision precedes applied revision'' [Sentinel ErrRange]), x)) (\<lambda>_.
          io_bind (\<lambda>x. io_try (Scan (lift_world W) lg snap (After (st_revision (snd x0)))
                     (Some (applyRecord ap))) x) (\<lambda>r x.
          (case st_err (snd x) of Some e \<Rightarrow> (Inl e, x) | None \<Rightarrow> (r, x)))))) x0)"

definition Sync ::
  "'s world \<Rightarrow> 'a log \<Rightarrow> ('v, 'a) applyFn \<Rightarrow> ('s \<times> 'v pstate, 'a snap option) io" where
  "Sync W lg ap x0 =
     (case st_err (snd x0) of
        Some e \<Rightarrow> (Inl e, x0)
      | None \<Rightarrow>
          io_bind (LoadHead (lift_world W) lg) (\<lambda>head.
          io_bind (SyncTo W lg ap head) (\<lambda>_.
          io_ret head)) x0)"

text \<open>The State is returned also with an error, except for a nil log or callback.\<close>

definition LoadState ::
  "'s world \<Rightarrow> 'a log option \<Rightarrow> 'v \<Rightarrow> ('v, 'a) applyFn option \<Rightarrow> 's \<Rightarrow> ('v pstate option \<times> goerr option) \<times> 's" where
  "LoadState W lgo initial apo s =
     (case lgo of
        None \<Rightarrow> ((None, Some (Msg ''lokv: nil state log'')), s)
      | Some lg \<Rightarrow>
          (case apo of
             None \<Rightarrow> ((None, Some (Msg ''lokv: nil state apply callback'')), s)
           | Some ap \<Rightarrow>
               (case Sync W lg ap (s, \<lparr>st_value = initial, st_revision = 0, st_err = None\<rparr>) of
                  (r, x) \<Rightarrow> ((Some (snd x), errOf r), fst x))))"

subsection \<open>Applying batches\<close>

text \<open>The fold of the events of a batch, as long as every call succeeds.\<close>

fun foldItems :: "('v, 'a) applyFn \<Rightarrow> 'v \<Rightarrow> 'a list \<Rightarrow> 'v option" where
  "foldItems ap v [] = Some v"
| "foldItems ap v (e # es) =
     (case ap v e of (v', err) \<Rightarrow> (case err of None \<Rightarrow> foldItems ap v' es | Some _ \<Rightarrow> None))"

lemma foldItems_append:
  "foldItems ap v (xs @ ys) = (case foldItems ap v xs of None \<Rightarrow> None | Some w \<Rightarrow> foldItems ap w ys)"
  by (induction xs arbitrary: v) (auto split: prod.splits option.splits)

lemma applyItems_Inr:
  "applyItems ap i es x = (Inr u, x') \<longleftrightarrow>
     (\<exists>w. foldItems ap (st_value (snd x)) es = Some w \<and> x' = (fst x, (snd x)\<lparr>st_value := w\<rparr>))"
  by (induction es arbitrary: i x) (auto simp: Let_def split: prod.splits option.splits)

lemma applyItems_Inl:
  "applyItems ap i es x = (Inl e, x') \<Longrightarrow>
     foldItems ap (st_value (snd x)) es = None \<and> st_err (snd x') = Some e \<and>
     st_revision (snd x') = st_revision (snd x) \<and> fst x' = fst x"
proof (induction es arbitrary: i x)
  case (Cons a es)
  obtain v' err where ap: "ap (st_value (snd x)) a = (v', err)" by (cases "ap (st_value (snd x)) a")
  show ?case
  proof (cases err)
    case None
    with Cons.prems ap have "applyItems ap (Suc i) es (fst x, (snd x)\<lparr>st_value := v'\<rparr>) = (Inl e, x')"
      by simp
    from Cons.IH [OF this] ap None show ?thesis by simp
  qed (use Cons.prems ap in \<open>auto simp: Let_def\<close>)
qed simp

lemma applyRecord_Inr:
  "applyRecord ap rc x = (Inr u, x') \<longleftrightarrow>
     (\<exists>w. foldItems ap (st_value (snd x)) (Value rc) = Some w \<and>
          x' = (fst x, (snd x)\<lparr>st_value := w, st_revision := Revision rc\<rparr>))"
  by (auto simp: applyRecord_def io_bind_eq_Inr_iff applyItems_Inr simp del: split_paired_Ex)

lemma applyRecord_Inl:
  "applyRecord ap rc x = (Inl e, x') \<Longrightarrow>
     st_err (snd x') = Some e \<and> st_revision (snd x') = st_revision (snd x)"
  by (auto simp: applyRecord_def io_bind_eq_Inl_iff dest!: applyItems_Inl)

lemma run_over_apply:
  "run_over snd (applyRecord ap) rcs x x' \<Longrightarrow>
     foldItems ap (st_value (snd x)) (concat (map Value rcs)) = Some (st_value (snd x')) \<and>
     st_err (snd x') = st_err (snd x) \<and>
     st_revision (snd x') = (if rcs = [] then st_revision (snd x) else Revision (last rcs))"
proof (induction rcs arbitrary: x)
  case (Cons rc rcs)
  then obtain x1 x2 where "snd x1 = snd x" "applyRecord ap rc x1 = (Inr (), x2)"
      "run_over snd (applyRecord ap) rcs x2 x'"
    by auto
  with Cons.IH [of x2] show ?case
    by (auto simp: applyRecord_Inr foldItems_append simp del: split_paired_Ex)
qed simp

subsection \<open>Synchronising\<close>

lemma Sync_poisoned: "st_err (snd x) = Some e \<Longrightarrow> Sync W lg ap x = (Inl e, x)"
  by (simp add: Sync_def)

lemma SyncTo_poisoned: "st_err (snd x) = Some e \<Longrightarrow> SyncTo W lg ap snap x = (Inl e, x)"
  by (simp add: SyncTo_def)

lemma After_first: "0 \<le> r \<Longrightarrow> r \<le> MaxRevision \<Longrightarrow> r < MaxRevision \<Longrightarrow>
    After r = \<lparr>First = r + 1, Last = MaxRevision\<rparr>"
proof -
  assume r: "0 \<le> r" "r < MaxRevision"
  then have "i64 (r + 1) = r + 1" by (intro i64_small) (simp_all add: bounds)
  with r show ?thesis by (simp add: After_def StartingAt_def)
qed

lemma recordOf_revisions:
  assumes "linked lg qs (f, c) b" and "map (recordOf lg) qs = map Inr rcs"
  shows "length rcs = length qs" and "i < length rcs \<Longrightarrow> Revision (rcs ! i) = f + int i"
proof -
  show l: "length rcs = length qs" using assms(2) by (metis length_map)
  assume i: "i < length rcs"
  then have "recordOf lg (qs ! i) = Inr (rcs ! i)" using assms(2) l by (metis nth_map)
  from recordOf_Inr(1) [OF this] linked_nth [OF assms(1), of i] i l
  show "Revision (rcs ! i) = f + int i" by simp
qed

text \<open>
  A successful \<open>SyncTo\<close> has folded in exactly the batches after the applied revision, in order,
  and its revision is the snapshot's.
\<close>

lemma SyncTo_Inr:
  assumes "SyncTo W lg ap snap x = (Inr u, x')"
    and "case snap of None \<Rightarrow> True | Some sn \<Rightarrow> snap_ok lg sn"
    and "0 \<le> st_revision (snd x)"
  shows "st_revision (snd x') = snapRevision snap" and "st_err (snd x') = None"
    and "\<exists>qs rcs h. map (recordOf lg) qs = map Inr rcs \<and>
      linked lg qs (st_revision (snd x) + 1, []) (snapRevision snap + 1, h) \<and>
      (qs \<noteq> [] \<longrightarrow> snap \<noteq> None \<and> h = c_RecordHash (s_commit (the snap))) \<and>
      foldItems ap (st_value (snd x)) (concat (map Value rcs)) = Some (st_value (snd x'))"
proof -
  let ?r0 = "st_revision (snd x)"
  have "st_err (snd x) = None"
    using assms(1) by (auto simp: SyncTo_def split: option.splits)
  with assms(1) obtain x1 x2 where c: "w_ctx (lift_world W) x = (None, x1)"
      and le: "st_revision (snd x1) \<le> snapRevision snap"
      and sc: "Scan (lift_world W) lg snap (After ?r0) (Some (applyRecord ap)) x1 = (Inr (), x')"
      and e: "st_err (snd x') = None"
    unfolding SyncTo_def
    by (auto simp: io_bind_eq_Inr_iff simp del: split_paired_Ex split: option.splits)
  have x1: "snd x1 = snd x" by (rule beside.view.r_ctx [OF c])
  have max: "snapRevision snap \<le> MaxRevision"
    using assms(2) by (auto simp: snapRevision_def dest: snap_okD(1) split: option.splits) (simp add: bounds)
  have "st_revision (snd x') = snapRevision snap \<and> st_err (snd x') = None \<and>
    (\<exists>qs rcs h. map (recordOf lg) qs = map Inr rcs \<and>
      linked lg qs (?r0 + 1, []) (snapRevision snap + 1, h) \<and>
      (qs \<noteq> [] \<longrightarrow> snap \<noteq> None \<and> h = c_RecordHash (s_commit (the snap))) \<and>
      foldItems ap (st_value (snd x)) (concat (map Value rcs)) = Some (st_value (snd x')))"
  proof (cases "?r0 = snapRevision snap")
    case True
    have "After ?r0 = zeroRange \<or> First (After ?r0) > snapRevision snap"
      using True assms(3) max After_first [of ?r0] by (cases "?r0 = MaxRevision") (auto simp: After_def)
    with sc obtain x3 where "w_ctx (lift_world W) x1 = (None, x')"
      unfolding Scan_def by (auto simp: io_bind_eq_Inr_iff simp del: split_paired_Ex)
    then have "snd x' = snd x" using beside.view.r_ctx x1 by metis
    with True e show ?thesis by (intro conjI exI [of _ "[]"] exI [of _ "[]"]) auto
  next
    case False
    with le x1 have lt: "?r0 < snapRevision snap" by simp
    then obtain sn where sn: "snap = Some sn" using assms(3) by (cases snap) (auto simp: snapRevision_def)
    with assms(2) have ok: "snap_ok lg sn" by simp
    have rev: "snapRevision snap = Revision (s_record sn)" by (simp add: sn snapRevision_def)
    have af: "After ?r0 = \<lparr>First = ?r0 + 1, Last = MaxRevision\<rparr>"
      using lt max assms(3) by (intro After_first) auto
    have nz: "After ?r0 \<noteq> zeroRange" unfolding af by (simp add: zeroRange_def bounds)
    from beside.Scan_run [OF sc [unfolded sn] ok nz] lt rev max obtain qs rcs h
      where q: "map (recordOf lg) qs = map Inr rcs" "run_over snd (applyRecord ap) rcs x1 x'"
        "linked lg qs (?r0 + 1, []) (Revision (s_record sn) + 1, h)" "h = c_RecordHash (s_commit sn)"
      by (auto simp: af min_def split: if_splits)
    note ra = run_over_apply [OF q(2)]
    note rr = recordOf_revisions [OF q(3,1)]
    from linked_length [OF q(3)] have len: "int (length qs) = Revision (s_record sn) - ?r0" by simp
    with lt rev rr(1) have ne: "rcs \<noteq> []" by auto
    then have "length rcs - 1 < length rcs" by simp
    from rr(2) [OF this] have "Revision (last rcs) = ?r0 + 1 + int (length rcs - 1)"
      using ne by (simp add: last_conv_nth)
    also have "\<dots> = Revision (s_record sn)"
      using ne len rr(1) by (cases rcs) auto
    finally have "Revision (last rcs) = Revision (s_record sn)" .
    with ra ne x1 q e sn rev show ?thesis by auto
  qed
  then show "st_revision (snd x') = snapRevision snap" "st_err (snd x') = None"
    "\<exists>qs rcs h. map (recordOf lg) qs = map Inr rcs \<and>
      linked lg qs (?r0 + 1, []) (snapRevision snap + 1, h) \<and>
      (qs \<noteq> [] \<longrightarrow> snap \<noteq> None \<and> h = c_RecordHash (s_commit (the snap))) \<and>
      foldItems ap (st_value (snd x)) (concat (map Value rcs)) = Some (st_value (snd x'))"
    by blast+
qed

end
