(* ===== verification/Demo.thy ===== *)
theory Demo
  imports MemWorld Append Projection
begin

section \<open>A concrete instance\<close>

text \<open>
  A small platform and a two-commit log, on which the theorems about fallible operations are
  applied at concrete inputs. Events are natural numbers, every batch is \<open>[7]\<close>, the digest is
  constant, the JSON functions know the two commits of the log and another first commit by a name,
  and the handle does not retry.
\<close>

definition demoKey :: "int \<Rightarrow> string" where
  "demoKey r = ''v1/log/'' @ hexRevision (i64 (MaxInt64 - r)) @ ''.json''"

definition demoID :: string where "demoID = replicate 32 (CHR ''0'')"
definition demoID2 :: string where "demoID2 = ''01'' @ replicate 30 (CHR ''0'')"

definition demoCommit1 :: commit where
  "demoCommit1 =
     \<lparr>Format = commitFormat, c_Revision = hexRevision 1, c_CommitID = demoID, Previous = None,
      c_Event = ''[7]'', c_RecordHash = zeroHash, c_Frontier = []\<rparr>"

definition demoRef1 :: objectRef where
  "demoRef1 =
     \<lparr>Level = 0, Start = hexRevision 1, End = hexRevision 1, Key = demoKey 1,
      SHA256 = zeroHash, FirstPrevHash = zeroHash, LastRecordHash = zeroHash\<rparr>"

definition demoCommit2 :: commit where
  "demoCommit2 =
     \<lparr>Format = commitFormat, c_Revision = hexRevision 2, c_CommitID = demoID2,
      Previous = Some \<lparr>prev_Key = demoKey 1, prev_RecordHash = zeroHash\<rparr>,
      c_Event = ''[7]'', c_RecordHash = zeroHash,
      c_Frontier = [\<lparr>f_Level = 0, Refs = [demoRef1]\<rparr>]\<rparr>"

text \<open>Another writer's first commit.\<close>

definition demoRival :: commit where
  "demoRival = demoCommit1\<lparr>c_CommitID := demoID2\<rparr>"

definition demoTree :: "commit \<Rightarrow> json" where
  "demoTree c = readback (\<lambda>_. []) (\<lambda>_. JNull) (outCommit c)"

definition demoPrint :: "jout \<Rightarrow> bytes option" where
  "demoPrint j =
     (case j of
        ORaw e \<Rightarrow> Some e
      | _ \<Rightarrow> if j = outCommit demoCommit1 then Some ''one''
             else if j = outCommit demoCommit2 then Some ''two''
             else if j = outCommit demoRival then Some ''uno'' else None)"

definition demoParse :: "bytes \<Rightarrow> json option" where
  "demoParse b =
     (if b = ''one'' then Some (demoTree demoCommit1)
      else if b = ''two'' then Some (demoTree demoCommit2)
      else if b = ''uno'' then Some (demoTree demoRival) else None)"

definition demoPlatform :: "nat platform" where
  "demoPlatform =
     \<lparr>sha256 = (\<lambda>_. replicate 32 (CHR 0x00)), json_parse = demoParse, json_print = demoPrint,
      marshal_item = (\<lambda>_. Inr ''7''), unmarshal_batch = (\<lambda>_. Inr [7]),
      json_lex = (\<lambda>_. ([], False)), zstd_header = (\<lambda>_. None),
      zstd_decode = (\<lambda>_. Inl (Msg ''invalid input'')), zstd_encode = (\<lambda>b. b)\<rparr>"

definition demoLog :: "nat log" where
  "demoLog = \<lparr>lg_id = 1, plat = demoPlatform, prefix = [], maxRetries = 0, maxEvent = 1048576\<rparr>"

definition demoSnap1 :: "nat snap" where
  "demoSnap1 =
     \<lparr>s_owner = 1, s_commit = demoCommit1, s_body = ''one'',
      s_record = \<lparr>Revision = 1, CommitID = replicate 16 (CHR 0x00), Value = [7],
                  RecordHash = replicate 32 (CHR 0x00)\<rparr>\<rparr>"

definition demoSnap2 :: "nat snap" where
  "demoSnap2 =
     \<lparr>s_owner = 1, s_commit = demoCommit2, s_body = ''two'',
      s_record = \<lparr>Revision = 2, CommitID = CHR 0x01 # replicate 15 (CHR 0x00), Value = [7],
                  RecordHash = replicate 32 (CHR 0x00)\<rparr>\<rparr>"

lemma demo_key [simp]: "logKey demoLog r = demoKey r"
  by (simp add: logKey_def logPrefix_def demoLog_def demoKey_def)

lemma demo_plat [simp]: "plat demoLog = demoPlatform" "lg_id demoLog = 1" "prefix demoLog = []"
  by (simp_all add: demoLog_def)

lemma demo_parseLogKey [simp]: "valid_rev r \<Longrightarrow> parseLogKey demoLog (demoKey r) = Inr r"
  using parseLogKey_logKey [of r demoLog] by simp

lemma demo_tree1: "decodeTree commitType commitOf (demoTree demoCommit1) = Inr demoCommit1"
  by (simp add: decodeTree_def demoTree_def outCommit_def demoCommit1_def commitType_def commitOf_def
      unmarshalField_def unmarshalString_def unmarshalSlice_def unmarshalPointer_def equalFold_def)

lemma demo_tree2: "decodeTree commitType commitOf (demoTree demoCommit2) = Inr demoCommit2"
  by (simp add: decodeTree_def demoTree_def outCommit_def outPrevious_def outFrontierLevel_def outRef_def
      demoCommit2_def demoRef1_def commitType_def previousType_def frontierLevelType_def objectRefType_def
      commitOf_def previousOf_def frontierLevelOf_def objectRefOf_def unmarshalField_def unmarshalString_def
      unmarshalUint8_def unmarshalSlice_def unmarshalPointer_def equalFold_def)

lemma hexEncode_zeros: "hexEncode (replicate n (CHR 0x00)) = replicate (2 * n) (CHR ''0'')"
  by (induction n) (simp_all add: hexDigit_0)

lemma hexDecode_zeros: "hexDecode (replicate (2 * n) (CHR ''0'')) = replicate n (CHR 0x00)"
  by (metis hexDecode_hexEncode hexEncode_zeros)

lemma demo_sum [simp]: "sum256 demoLog b = replicate 32 (CHR 0x00)"
  by (simp add: sum256_def demoPlatform_def)

lemma demo_hash [simp]: "recordHash demoLog r c p e = zeroHash" "digest demoLog b = zeroHash"
  using hexEncode_zeros [of 32] by (simp_all add: recordHash_def digest_def zeroHash_def)

lemma demo_hex [simp]: "validHex zeroHash 64" "validHex demoID 32" "validHex demoID2 32"
  by (simp_all add: validHex_def zeroHash_def demoID_def demoID2_def isHexDigit_def list_all_iff)

lemma demo_maxrev [simp]: "1 \<le> MaxRevision" "2 \<le> MaxRevision" "MaxRevision \<noteq> 1" "MaxRevision \<noteq> 2"
  "1 < MaxRevision" "2 < MaxRevision"
  by (simp_all add: MaxRevision_def)

lemma demo_project1: "validateProjection demoLog (project demoCommit1) = Inr 1"
  by (simp add: validateProjection_def project_def demoCommit1_def demoPlatform_def demoPrint_def)

lemma demo_project2: "validateProjection demoLog (project demoCommit2) = Inr 2"
  by (simp add: validateProjection_def project_def demoCommit2_def demoPlatform_def demoPrint_def)

lemma demo_ref: "validateRef demoLog demoRef1 = Inr (1, 1)"
  by (simp add: validateRef_iff ref_fields_ok_def demoRef1_def)

lemma upt16: "[0..<16] = [0, 1, 2, 3, 4, 5, 6, 7, 8, 9, 10, 11, 12, 13, 14, 15::nat]"
  by code_simp

definition demoLevels :: "objectRef list \<Rightarrow> objectRef list list" where
  "demoLevels rs = [rs, [], [], [], [], [], [], [], [], [], [], [], [], [], [], []]"

lemma demo_levels:
  "length (demoLevels rs) = 16" "levelRefs (demoLevels rs) = rs"
  "frontierOf (demoLevels rs) = (if rs = [] then [] else [\<lparr>f_Level = 0, Refs = rs\<rparr>])"
  by (simp_all add: demoLevels_def levelRefs_def frontierOf_def upt16)

lemma demo_frontier1: "validateFrontier demoLog [] 1 zeroHash = Inr ()"
  unfolding validateFrontier_iff
proof (intro conjI exI [of _ "demoLevels []"])
  show "levels_ok (demoLevels []) (1 - 1) [0..<16]"
    by (simp add: levels_ok_def upt16 demoLevels_def digit_def)
qed (simp_all add: demo_levels)

lemma demo_frontier2: "validateFrontier demoLog [\<lparr>f_Level = 0, Refs = [demoRef1]\<rparr>] 2 zeroHash = Inr ()"
  unfolding validateFrontier_iff
proof (intro conjI exI [of _ "demoLevels [demoRef1]"])
  show "levels_ok (demoLevels [demoRef1]) (2 - 1) [0..<16]"
    by (simp add: levels_ok_def upt16 demoLevels_def digit_def) (simp add: demoRef1_def)
  show "chained demoLog (levelRefs (demoLevels [demoRef1])) (1, zeroHash) (2, zeroHash)"
    by (simp add: demo_levels chained_Cons_iff demo_ref) (simp add: demoRef1_def)
qed (simp_all add: demo_levels)

lemma demo_hexDecode: "hexDecode demoID = replicate 16 (CHR 0x00)"
    "hexDecode zeroHash = replicate 32 (CHR 0x00)"
    "hexDecode demoID2 = CHR 0x01 # replicate 15 (CHR 0x00)"
proof -
  show "hexDecode demoID = replicate 16 (CHR 0x00)" "hexDecode zeroHash = replicate 32 (CHR 0x00)"
    using hexDecode_zeros [of 16] hexDecode_zeros [of 32] by (simp_all add: demoID_def zeroHash_def)
  have "hexEncode (CHR 0x01 # replicate 15 (CHR 0x00)) = demoID2"
    using hexEncode_zeros [of 15] by (simp add: demoID2_def hexDigit_0) code_simp
  then show "hexDecode demoID2 = CHR 0x01 # replicate 15 (CHR 0x00)"
    by (metis hexDecode_hexEncode)
qed

lemma demo_decode1: "decodeCommit demoLog (demoKey 1) ''one'' = Inr demoCommit1"
  using demo_tree1 demo_project1 demo_frontier1
  by (simp add: decodeCommit_def decodeJSON_def demoPlatform_def demoParse_def)
     (simp add: demoCommit1_def project_def)

lemma demo_decode2: "decodeCommit demoLog (demoKey 2) ''two'' = Inr demoCommit2"
  using demo_tree2 demo_project2 demo_frontier2
  by (simp add: decodeCommit_def decodeJSON_def demoPlatform_def demoParse_def)
     (simp add: demoCommit2_def project_def i64_small)

lemma demo_record1: "recordOf demoLog (project demoCommit1) = Inr (s_record demoSnap1)"
  using demo_project1
  by (simp add: recordOf_def demoPlatform_def)
     (simp add: demoSnap1_def project_def demoCommit1_def demo_hexDecode)

lemma demo_record2: "recordOf demoLog (project demoCommit2) = Inr (s_record demoSnap2)"
  using demo_project2
  by (simp add: recordOf_def demoPlatform_def)
     (simp add: demoSnap2_def project_def demoCommit2_def demo_hexDecode)

lemma demo_snap1: "snapshot demoLog (demoKey 1) ''one'' = Inr demoSnap1"
  using demo_decode1 demo_record1 by (simp add: snapshot_def wrapErr_def) (simp add: demoSnap1_def)

lemma demo_snap2: "snapshot demoLog (demoKey 2) ''two'' = Inr demoSnap2"
  using demo_decode2 demo_record2 by (simp add: snapshot_def wrapErr_def) (simp add: demoSnap2_def)

lemma demo_ok1: "snap_ok demoLog demoSnap1"
  using demo_snap1 by (simp add: snap_ok_def demoSnap1_def)

lemma demo_ok2: "snap_ok demoLog demoSnap2"
  using demo_snap2 by (simp add: snap_ok_def demoSnap2_def)

subsection \<open>Runs\<close>

definition demoState1 :: mem_state where
  "demoState1 = (calm\<lparr>rng := 1\<rparr>, \<lparr>objects = [demoKey 1 \<mapsto> ''one''], keys = [demoKey 1]\<rparr>)"

lemma demo_quiet [simp]: "quiet mem_empty" "quiet demoState1"
  by (simp_all add: quiet_def mem_empty_def calm_def demoState1_def)

lemma demo_good [simp]: "mem_good demoState1"
  by (simp add: mem_good_def mem_ok_def demoState1_def)

lemma quiet_check_ctx [simp]: "quiet x \<Longrightarrow> io_check (w_ctx mem_world) x = (Inr (), x)"
  by (simp add: io_check_def quiet_ctx)

lemma quiet_poll_ctx [simp]: "quiet x \<Longrightarrow> io_poll (w_ctx mem_world) x = (Inr None, x)"
  by (simp add: io_poll_def quiet_ctx)

lemma quiet_pollTimes [simp]: "quiet x \<Longrightarrow> pollTimes mem_world n x = (Inr (), x)"
  by (induction n) (simp_all add: io_bind_def)

lemma quiet_getObject:
  "quiet x \<Longrightarrow> objects (snd x) k = Some b \<Longrightarrow> getObject mem_world k r x = (Inr b, x)"
  by (simp add: getObject_def openObject_def readStream_def io_bind_def io_wrap_def io_try_def quiet_get
      errors_join_def List.map_filter_def del: pollTimes.simps)

lemma quiet_LoadHead_empty: "LoadHead mem_world demoLog mem_empty = (Inr None, mem_empty)"
proof -
  have "w_list mem_world (logPrefix demoLog) 1 mem_empty = (Inr [], mem_empty)"
    by (subst quiet_list) (simp_all add: mem_empty_def mem_ok_def quiet_def calm_def)
  then show ?thesis by (simp add: LoadHead_def io_bind_def io_wrap_def)
qed

lemma demo_LoadHead: "LoadHead mem_world demoLog demoState1 = (Inr (Some demoSnap1), demoState1)"
proof -
  have "hasPrefix (demoKey 1) (logPrefix demoLog)" using logKey_hasPrefix [of demoLog 1] by simp
  then have "w_list mem_world (logPrefix demoLog) 1 demoState1 = (Inr [demoKey 1], demoState1)"
    by (subst quiet_list) (simp_all add: demoState1_def mem_ok_def quiet_def calm_def)
  moreover have "getObject mem_world (demoKey 1) True demoState1 = (Inr ''one'', demoState1)"
    by (rule quiet_getObject) (simp_all add: demoState1_def quiet_def calm_def)
  ultimately show ?thesis
    by (simp add: LoadHead_def io_bind_def io_wrap_def demo_snap1)
qed

lemma upt8: "rev [0..<8] = [7, 6, 5, 4, 3, 2, 1, 0::nat]"
  by code_simp

lemma char_of_0: "char_of (0::nat) = CHR 0x00" and char_of_1: "char_of (1::nat) = CHR 0x01"
  by code_simp+

lemma demo_ids:
  "hexEncode (copyInto 16 (take 16 (rev (be64 0) @ replicate 16 (CHR 0x00)))) = demoID"
  "hexEncode (copyInto 16 (take 16 (rev (be64 1) @ replicate 16 (CHR 0x00)))) = demoID2"
proof -
  have "be64 0 = replicate 8 (CHR 0x00)" "be64 1 = replicate 7 (CHR 0x00) @ [CHR 0x01]"
    by (simp_all add: be64_def upt8 char_of_0 char_of_1 [unfolded One_nat_def]) (simp_all add: numeral_eq_Suc)
  then have "copyInto 16 (take 16 (rev (be64 0) @ replicate 16 (CHR 0x00))) = hexDecode demoID"
    "copyInto 16 (take 16 (rev (be64 1) @ replicate 16 (CHR 0x00))) = hexDecode demoID2"
    by (simp_all add: demo_hexDecode copyInto_def numeral_eq_Suc)
  moreover have "hexEncode (hexDecode demoID) = demoID" "hexEncode (hexDecode demoID2) = demoID2"
    by (rule hexEncode_hexDecode; simp add: demoID_def demoID2_def isHexDigit_def list_all_iff)+
  ultimately show "hexEncode (copyInto 16 (take 16 (rev (be64 0) @ replicate 16 (CHR 0x00)))) = demoID"
    "hexEncode (copyInto 16 (take 16 (rev (be64 1) @ replicate 16 (CHR 0x00)))) = demoID2"
    by (simp_all only:)
qed

lemma demo_prepare:
  "prepare mem_world demoLog [7] x =
     (Inr (''[7]'', hexEncode (copyInto 16 (take 16 (rev (be64 (int (rng (fst x)))) @ replicate 16 (CHR 0x00))))),
      ((fst x)\<lparr>rng := Suc (rng (fst x))\<rparr>, snd x))"
  unfolding prepare_Inr
  by (intro conjI exI [of _ "[''7'']"] exI) (auto simp: quiet_rand demoPlatform_def, simp add: demoLog_def)

text \<open>The first two appends of the log, and a read of it.\<close>

definition demoState2 :: mem_state where
  "demoState2 =
     (calm\<lparr>rng := 2\<rparr>,
      \<lparr>objects = [demoKey 1 \<mapsto> ''one'', demoKey 2 \<mapsto> ''two''], keys = insertKey [demoKey 1] (demoKey 2)\<rparr>)"

lemma demo_commit1: "newCommit demoLog None [] ''[7]'' demoID = demoCommit1"
  by (simp add: newCommit_def nextRevision_def previousOfBase_def demoCommit1_def Let_def)

lemma demo_commit2:
  "newCommit demoLog (Some demoSnap1) [\<lparr>f_Level = 0, Refs = [demoRef1]\<rparr>] ''[7]'' demoID2 = demoCommit2"
  by (simp add: newCommit_def nextRevision_def previousOfBase_def demoCommit2_def Let_def demoSnap1_def
      demoCommit1_def i64_small)

lemma demo_carry: "carry mem_world demoLog demoSnap1 x = (Inr [\<lparr>f_Level = 0, Refs = [demoRef1]\<rparr>], x)"
proof -
  have "spreadLevels (c_Frontier (s_commit demoSnap1)) = demoLevels []"
    by (simp add: spreadLevels_def demoSnap1_def demoCommit1_def demoLevels_def numeral_eq_Suc)
  moreover have "commitRef demoLog demoSnap1 = demoRef1"
    by (simp add: commitRef_def demoSnap1_def demoRef1_def project_def demoCommit1_def)
  moreover have "carryLoop mem_world demoLog demoSnap1 [0..<16] (demoLevels []) demoRef1 =
      io_ret (demoLevels [demoRef1])"
    by (simp add: upt16 demoLevels_def Let_def del: io_ret_apply)
  ultimately show ?thesis
    by (simp add: carry_def io_bind_def gatherLevels_eq demo_levels)
qed

lemma demo_print:
  "demoPrint (outCommit demoCommit1) = Some ''one''" "demoPrint (outCommit demoCommit2) = Some ''two''"
  by (simp_all add: demoPrint_def outCommit_def split: jout.splits) (auto simp: demoCommit1_def demoCommit2_def)

lemma demo_AppendTo1: "AppendTo mem_world demoLog None [7] mem_empty = (Inr demoSnap1, demoState1)"
proof -
  have p: "prepare mem_world demoLog [7] mem_empty = (Inr (''[7]'', demoID), (calm\<lparr>rng := 1\<rparr>, snd mem_empty))"
    using demo_prepare [of mem_empty] demo_ids by (simp add: mem_empty_def calm_def)
  have q: "quiet (calm\<lparr>rng := 1\<rparr>, snd mem_empty)" by (simp add: quiet_def calm_def)
  have "w_create mem_world (demoKey 1) ''one'' (calm\<lparr>rng := 1\<rparr>, snd mem_empty) = (None, demoState1)"
    using q by (simp add: quiet_create memPut_def mem_empty_def demoState1_def insertKey_eq [of "[]" for k]
        insertKey_def searchStrings_def searchLoop.simps)
  then show ?thesis
    using q by (simp add: AppendTo_def appendPrepared_def publish_def io_bind_def p demo_commit1 demo_frontier1
        nextRevision_def previousOfBase_def previousHash_def demoPlatform_def demo_print demo_snap1 io_poll_def
        snapRevision_def Let_def)
qed

lemma demo_AppendTo2: "AppendTo mem_world demoLog (Some demoSnap1) [7] demoState1 = (Inr demoSnap2, demoState2)"
proof -
  let ?x = "(calm\<lparr>rng := 2\<rparr>, snd demoState1)"
  have p: "prepare mem_world demoLog [7] demoState1 = (Inr (''[7]'', demoID2), ?x)"
    using demo_prepare [of demoState1] demo_ids by (simp add: demoState1_def calm_def)
  have q: "quiet ?x" by (simp add: quiet_def calm_def)
  have ne: "demoKey 2 \<noteq> demoKey 1" using logKey_inj [of 2 1 demoLog] by simp
  then have "w_create mem_world (demoKey 2) ''two'' ?x = (None, demoState2)"
    using q by (simp add: quiet_create memPut_def demoState1_def demoState2_def)
  moreover have "nextRevision (Some demoSnap1) = 2"
    by (simp add: nextRevision_def demoSnap1_def i64_small)
  moreover have "previousHash (previousOfBase demoLog (Some demoSnap1)) = zeroHash"
    by (simp add: previousHash_def previousOfBase_def demoSnap1_def demoCommit1_def)
  moreover have "snapRevision (Some demoSnap1) = 1" by (simp add: snapRevision_def demoSnap1_def)
  ultimately show ?thesis
    using q by (simp add: AppendTo_def appendPrepared_def publish_def io_bind_def p demo_commit2 demo_frontier2
        demoPlatform_def demo_print demo_snap2 io_poll_def Let_def demo_carry demo_ok1)
qed

end
