(* ===== verification/Envelope.thy ===== *)
theory Envelope
  imports Wire
begin

section \<open>Envelopes: round trip and failures (wire.go)\<close>

text \<open>
  Decoding the tree of a marshalled struct gives the struct back, for every value of the Go
  types (levels are \<open>uint8\<close>, so below 256), and every failure of the decoding and validation
  functions is a corruption error.
\<close>

subsection \<open>Round trip\<close>

text \<open>The envelope types' field names are pairwise distinct also under case folding.\<close>

lemma readback_fields:
  "jval (readback pr rd (OObj ms)) = JObj (map (\<lambda>m. (fst m, readback pr rd (snd m))) ms)"
  by simp

lemma unmarshalString_readback [simp]: "unmarshalString (Json t (JStr s)) = Some s"
  by (simp add: unmarshalString_def)

lemma unmarshalUint8_readback [simp]: "n < 256 \<Longrightarrow> unmarshalUint8 (Json t (JNum (decStr n))) = Some n"
  by (simp add: unmarshalUint8_def)

lemma those_map_Some: "(\<And>x. x \<in> set xs \<Longrightarrow> f (g x) = Some x) \<Longrightarrow> those (map f (map g xs)) = Some xs"
  by (induction xs) auto

lemma unmarshalSlice_readback:
  "(\<And>x. x \<in> set xs \<Longrightarrow> f (readback pr rd (g x)) = Some x) \<Longrightarrow>
     unmarshalSlice f (readback pr rd (OArr (map g xs))) = Some xs"
  using those_map_Some [of xs f "\<lambda>x. readback pr rd (g x)"]
  by (simp add: unmarshalSlice_def comp_def)

named_theorems envelopes \<open>definitions of the envelope types, printers and decoders\<close>

lemmas [envelopes] =
  outPrevious_def outRef_def outFrontierLevel_def outCommit_def outProjection_def
  previousType_def objectRefType_def frontierLevelType_def commitType_def projectionType_def
  previousOf_def objectRefOf_def frontierLevelOf_def commitOf_def projectionOf_def
  unmarshalField_def unmarshalPointer_def equalFold_def

lemma firstError_ok: "(\<And>x. x \<in> set xs \<Longrightarrow> f (g x) = None) \<Longrightarrow> firstError (map (f \<circ> g) xs) = None"
  by (induction xs) auto

definition ref_go :: "objectRef \<Rightarrow> bool" where
  "ref_go r \<longleftrightarrow> Level r < 256"

definition commit_go :: "commit \<Rightarrow> bool" where
  "commit_go c \<longleftrightarrow> (\<forall>f\<in>set (c_Frontier c). f_Level f < 256 \<and> (\<forall>r\<in>set (Refs f). ref_go r))"

lemma previous_roundtrip:
  "requiredFields previousType (readback pr rd (outPrevious p)) = None"
  "previousOf (readback pr rd (outPrevious p)) = Some p"
  by (simp_all add: envelopes)

lemma ref_roundtrip:
  "requiredFields objectRefType (readback pr rd (outRef r)) = None"
  "ref_go r \<Longrightarrow> objectRefOf (readback pr rd (outRef r)) = Some r"
  by (simp_all add: envelopes ref_go_def)

lemma level_roundtrip:
  "requiredFields frontierLevelType (readback pr rd (outFrontierLevel f)) = None"
  "f_Level f < 256 \<Longrightarrow> \<forall>r\<in>set (Refs f). ref_go r \<Longrightarrow>
     frontierLevelOf (readback pr rd (outFrontierLevel f)) = Some f"
proof -
  show "requiredFields frontierLevelType (readback pr rd (outFrontierLevel f)) = None"
    by (simp add: outFrontierLevel_def frontierLevelType_def equalFold_def firstError_ok ref_roundtrip(1))
  assume f: "f_Level f < 256" "\<forall>r\<in>set (Refs f). ref_go r"
  have "unmarshalSlice objectRefOf (readback pr rd (OArr (map outRef (Refs f)))) = Some (Refs f)"
    using f(2) ref_roundtrip(2) by (intro unmarshalSlice_readback) blast
  then show "frontierLevelOf (readback pr rd (outFrontierLevel f)) = Some f"
    using f(1) by (simp add: frontierLevelOf_def outFrontierLevel_def unmarshalField_def del: readback.simps(5))
qed

lemma projection_roundtrip:
  "requiredFields projectionType (readback pr rd (outProjection p)) = None"
  "projectionOf (readback pr rd (outProjection p)) = Some p"
  by (simp_all add: envelopes)

lemma commit_roundtrip:
  assumes "commit_go c"
  shows "decodeTree commitType commitOf (readback pr rd (outCommit c)) = Inr c"
proof -
  let ?j = "readback pr rd (outCommit c)"
  have rp: "requiredFields (TPtr previousType)
      (readback pr rd (case Previous c of None \<Rightarrow> ONull | Some p \<Rightarrow> outPrevious p)) = None"
    using previous_roundtrip(1) by (cases "Previous c") simp_all
  have req: "requiredFields commitType ?j = None"
    using rp
    by (simp add: commitType_def outCommit_def equalFold_def firstError_ok level_roundtrip(1)
        del: requiredFields.simps(2))
  have p: "unmarshalPointer previousOf
      (readback pr rd (case Previous c of None \<Rightarrow> ONull | Some p \<Rightarrow> outPrevious p)) = Some (Previous c)"
    using previous_roundtrip(2) by (cases "Previous c") (simp_all add: unmarshalPointer_def, simp add: outPrevious_def)
  have f: "unmarshalSlice frontierLevelOf (readback pr rd (OArr (map outFrontierLevel (c_Frontier c))))
      = Some (c_Frontier c)"
    using assms level_roundtrip(2) by (intro unmarshalSlice_readback) (auto simp: commit_go_def)
  have "commitOf ?j = Some c"
    using p f by (simp add: commitOf_def outCommit_def unmarshalField_def del: readback.simps(5))
  with req show ?thesis by (simp add: decodeTree_def)
qed

subsection \<open>Failures\<close>

lemma decodeTree_Inl: "decodeTree t f j = Inl e \<Longrightarrow> errors_is e ErrCorrupt"
  by (auto simp: decodeTree_def dest: requiredFields_corrupt split: option.splits)

lemma decodeJSON_Inl: "decodeJSON lg t f b = Inl e \<Longrightarrow> errors_is e ErrCorrupt"
  by (auto simp: decodeJSON_def dest: decodeTree_Inl split: option.splits)

text \<open>A decoded envelope had every field of its type once, and no case variant of one.\<close>

lemma decodeTree_fields:
  assumes "decodeTree (TStruct fs) f j = Inr x"
  obtains ms where "jval j = JObj ms" and "distinct (map fst ms)" and "requiredMembers fs ms = None"
  using assms by (auto simp: decodeTree_def split: option.splits jval.splits if_splits)

end
