(* ===== verification/AppendFacts.thy ===== *)
theory AppendFacts
  imports Append ScanFacts Envelope
begin

section \<open>What a successful append has committed\<close>

text \<open>
  The retry loop of Append put together, and the content of the commit that AppendTo returns: with
  a JSON library that reads back what it printed for a commit, the commit ID and the record hash
  are those of this call in every case, and the record hash determines the batch unless two byte
  strings with the same SHA-256 sum are at hand.
\<close>

context object_store
begin

lemma Append_Inr:
  assumes "Append W lg value s = (Inr rc, s')" and "good s"
  shows "\<exists>sn. snap_ok lg sn \<and> s_record sn = rc \<and> objs s' (logKey lg (Revision rc)) = Some (s_body sn) \<and>
    (\<forall>r. valid_rev r \<longrightarrow> objs s (logKey lg r) \<noteq> None \<longrightarrow> r < Revision rc)"
proof -
  from assms(1) obtain s0 event ident s1 where c: "w_ctx W s = (None, s0)"
      and p: "prepare W lg value s0 = (Inr (event, ident), s1)"
      and l: "appendLoop (nat (maxRetries lg)) W lg event ident s1 = (Inr rc, s')"
    unfolding Append_def by (auto simp: io_bind_eq_Inr_iff)
  have g0: "good s0" "objs s \<subseteq>\<^sub>m objs s0"
    using ctx_grows [OF c] assms(2) by (auto simp: grows_def)
  have g1: "good s1" "objs s0 \<subseteq>\<^sub>m objs s1"
    using grow_good [OF grow.rel_prepare p g0(1)] grow_objs [OF grow.rel_prepare p g0(1)] by auto
  from appendLoop_Inr [OF l g1(1)] obtain sn base s2
    where b: "good s2" "case base of None \<Rightarrow> True | Some b \<Rightarrow> snap_ok lg b"
      "\<forall>r. valid_rev r \<longrightarrow> objs s1 (logKey lg r) \<noteq> None \<longrightarrow> r \<le> snapRevision base"
      "appendPrepared W lg base event ident s2 = (Inr sn, s')" "rc = s_record sn" by blast
  note f = appendPrepared_Inr [OF b(4,1,2)]
  have "objs s k \<noteq> None \<Longrightarrow> objs s1 k \<noteq> None" for k
    using g0(2) g1(2) by (force simp: map_le_def dom_def)
  then show ?thesis using f(1,2,3) b(3,5) by (intro exI [of _ sn]) force
qed

end

subsection \<open>The record hash determines the record\<close>

text \<open>
  Two records with the same record hash are the same record, or their preimages are two different
  byte strings with one SHA-256 sum.
\<close>

definition collision :: "'a log \<Rightarrow> bytes \<Rightarrow> bytes \<Rightarrow> bool" where
  "collision lg a b \<longleftrightarrow> a \<noteq> b \<and> sum256 lg a = sum256 lg b"

definition preimageOf :: "'a log \<Rightarrow> projection \<Rightarrow> bytes" where
  "preimageOf lg p =
     (case validateProjection lg p of
        Inl _ \<Rightarrow> []
      | Inr r \<Rightarrow> recordPreimage r (p_CommitID p) (PreviousRecordHash p) (p_Event p))"

lemma recordHash_binds:
  assumes "validateProjection lg p = Inr r" and "validateProjection lg q = Inr r'"
    and "p_RecordHash p = p_RecordHash q"
  shows "p = q \<and> r = r' \<or> collision lg (preimageOf lg p) (preimageOf lg q)"
proof -
  note p = validateProjection_Inr [OF assms(1)] and q = validateProjection_Inr [OF assms(2)]
  let ?a = "recordPreimage r (p_CommitID p) (PreviousRecordHash p) (p_Event p)"
  let ?b = "recordPreimage r' (p_CommitID q) (PreviousRecordHash q) (p_Event q)"
  have "sum256 lg ?a = sum256 lg ?b"
    using trans [OF p(3) trans [OF assms(3) q(3) [symmetric]]] by (simp add: recordHash_def hexEncode_inj)
  moreover have "?a = ?b \<longleftrightarrow> r = r' \<and> p_CommitID p = p_CommitID q \<and>
      PreviousRecordHash p = PreviousRecordHash q \<and> p_Event p = p_Event q"
    by (rule recordPreimage_inj) (use p q in simp_all)
  ultimately show ?thesis
    using assms p(2) q(2) by (auto simp: collision_def preimageOf_def)
qed

text \<open>A hash chain of a given length is determined by its last hash, all the way back.\<close>

lemma linked_snoc:
  "linked lg (ps @ [p]) a (n, h) \<longleftrightarrow>
     (\<exists>m k. linked lg ps a (m, k) \<and> validateProjection lg p = Inr m \<and>
        (k \<noteq> [] \<longrightarrow> PreviousRecordHash p = k) \<and> n = m + 1 \<and> h = p_RecordHash p)"
  by (auto simp: linked_append)

lemma linked_rev_determined:
  assumes "linked lg (ps @ [p]) a (n, h)" and "linked lg (qs @ [q]) b (n, h)" and "length ps = length qs"
  shows "ps @ [p] = qs @ [q] \<or>
    (\<exists>x\<in>set (ps @ [p]). \<exists>y\<in>set (qs @ [q]). collision lg (preimageOf lg x) (preimageOf lg y))"
  using assms
proof (induction ps arbitrary: p q qs n h rule: rev_induct)
  case Nil
  then have "qs = []" by simp
  with Nil obtain r r' where "validateProjection lg p = Inr r" "validateProjection lg q = Inr r'"
      "p_RecordHash p = p_RecordHash q"
    by auto
  from recordHash_binds [OF this] show ?case using \<open>qs = []\<close> by auto
next
  case (snoc x ps)
  then obtain y qs' where qs: "qs = qs' @ [y]" "length ps = length qs'"
    by (cases qs rule: rev_cases) auto
  from snoc.prems(1) obtain m k where p: "linked lg (ps @ [x]) a (m, k)" "validateProjection lg p = Inr m"
      "k \<noteq> [] \<longrightarrow> PreviousRecordHash p = k" "n = m + 1" "h = p_RecordHash p"
    unfolding linked_snoc [of lg "ps @ [x]"] by blast
  from snoc.prems(2) qs(1) obtain m' k' where q: "linked lg (qs' @ [y]) b (m', k')"
      "validateProjection lg q = Inr m'" "k' \<noteq> [] \<longrightarrow> PreviousRecordHash q = k'"
      "n = m' + 1" "h = p_RecordHash q"
    unfolding qs(1) linked_snoc [of lg "qs' @ [y]"] by blast
  from recordHash_binds [OF p(2) q(2)] p(5) q(5)
  consider "p = q" | "collision lg (preimageOf lg p) (preimageOf lg q)" by auto
  then show ?case
  proof cases
    case 1
    have "k \<noteq> []" and "k' \<noteq> []"
      using p(1) q(1) linked_nonempty unfolding linked_snoc by auto
    with 1 p(3,4) q(3,4) have "m = m'" "k = k'" by auto
    then have "linked lg (qs' @ [y]) b (m, k)" using q(1) by simp
    from snoc.IH [OF p(1) this qs(2)] 1 qs(1) show ?thesis by auto
  next
    case 2
    then show ?thesis by auto
  qed
qed

subsection \<open>The commit AppendTo returns\<close>

text \<open>
  The JSON library reads back what it printed for a commit: the parsed tree has the members, strings
  and numbers that were printed (the texts of the values and the parse of the raw event are its own).
\<close>

definition reads_back :: "'a log \<Rightarrow> bool" where
  "reads_back lg \<longleftrightarrow>
     (\<forall>c b. commit_go c \<longrightarrow> json_print (plat lg) (outCommit c) = Some b \<longrightarrow>
        (\<exists>pr rd. json_parse (plat lg) b = Some (readback pr rd (outCommit c))))"

lemma reads_back_decode:
  assumes "reads_back lg" and "commit_go c" and "json_print (plat lg) (outCommit c) = Some b"
  shows "decodeJSON lg commitType commitOf b = Inr c"
  using assms commit_roundtrip [of c] unfolding reads_back_def decodeJSON_def by fastforce

lemma frontier_levels_go:
  assumes "validateFrontier lg f r h = Inr u"
  shows "\<forall>l\<in>set f. f_Level l < 256 \<and> (\<forall>ref\<in>set (Refs l). ref_go ref)"
proof -
  from assms obtain levels where f: "f = frontierOf levels" and l: "levels_ok levels (r - 1) [0..<16]"
    by (auto elim: validateFrontierE)
  from l show ?thesis
    unfolding f frontierOf_def levels_ok_def ref_go_def by auto
qed

lemma newCommit_go:
  "validateFrontier lg f r h = Inr u \<Longrightarrow> commit_go (newCommit lg base f event ident)"
  using frontier_levels_go by (simp add: commit_go_def newCommit_def Let_def)

lemma newCommit_simps [simp]:
  "c_CommitID (newCommit lg base f event ident) = ident"
  "c_Event (newCommit lg base f event ident) = event"
  "c_Revision (newCommit lg base f event ident) = hexRevision (nextRevision base)"
  "c_Frontier (newCommit lg base f event ident) = f"
  "PreviousRecordHash (project (newCommit lg base f event ident)) = previousHash (previousOfBase lg base)"
  "c_RecordHash (newCommit lg base f event ident) =
     recordHash lg (nextRevision base) ident (previousHash (previousOfBase lg base)) event"
  by (auto simp: newCommit_def Let_def project_def previousHash_def split: option.splits)

lemma previousHash_valid:
  assumes "case base of None \<Rightarrow> True | Some b \<Rightarrow> snap_ok lg b"
  shows "validHex (previousHash (previousOfBase lg base)) 64"
proof (cases base)
  case (Some b)
  with assms have "validateProjection lg (project (s_commit b)) = Inr (Revision (s_record b))"
    using recordOf_Inr(1) snap_okD(4) by fastforce
  from validateProjection_Inr(6) [OF this] Some show ?thesis
    by (simp add: previousHash_def previousOfBase_def project_def)
qed (simp add: previousHash_def previousOfBase_def validHex_def zeroHash_def isHexDigit_def list_all_iff)

context object_store
begin

text \<open>
  The returned snapshot has this call's commit ID and record hash. Its event is the one this call
  encoded and its predecessor is the base, unless two different preimages have one hash.
\<close>

lemma AppendTo_content:
  assumes "AppendTo W lg base value s = (Inr sn, s')" and "good s"
    and base: "case base of None \<Rightarrow> True | Some b \<Rightarrow> snap_ok lg b" and json: "reads_back lg"
  shows "\<exists>es event ident. value \<noteq> [] \<and> map (marshal_item (plat lg)) value = map Inr es \<and>
    event = ''['' @ joinItems 0 es @ '']'' \<and> int (length event) \<le> maxEvent lg \<and>
    c_CommitID (s_commit sn) = ident \<and>
    c_RecordHash (s_commit sn) =
      recordHash lg (snapRevision base + 1) ident (previousHash (previousOfBase lg base)) event \<and>
    (c_Event (s_commit sn) = event \<and>
      PreviousRecordHash (project (s_commit sn)) = previousHash (previousOfBase lg base) \<or>
     (\<exists>a b. collision lg a b))"
proof -
  obtain event ident s1
    where a: "appendPrepared W lg base event ident s1 = (Inr sn, s')" and g: "good s1"
      and ex: "\<exists>s0 s2. prepare W lg value s0 = (Inr (event, ident), s2)"
    by (rule AppendTo_Inr [OF assms(1,2) base])
  from ex obtain s0 s2 where p: "prepare W lg value s0 = (Inr (event, ident), s2)" by blast
  from p obtain es ib where e: "value \<noteq> []" "map (marshal_item (plat lg)) value = map Inr es"
      "event = ''['' @ joinItems 0 es @ '']''" "int (length event) \<le> maxEvent lg"
      "ident = hexEncode (copyInto 16 ib)" by (auto simp: prepare_Inr)
  note ap = appendPrepared_Inr [OF a g base]
  note nr = nextRevision_eq [OF base]
  let ?h = "previousHash (previousOfBase lg base)"
  from ap(4) obtain f where vf: "validateFrontier lg f (snapRevision base + 1) ?h = Inr ()"
      and or: "json_print (plat lg) (outCommit (newCommit lg base f event ident)) = Some (s_body sn) \<or>
        c_CommitID (s_commit sn) = ident \<and>
        c_RecordHash (s_commit sn) = c_RecordHash (newCommit lg base f event ident)"
    by (auto simp: Let_def)
  note ok = snap_okD [OF ap(1)]
  have v: "validateProjection lg (project (s_commit sn)) = Inr (snapRevision base + 1)"
    using recordOf_Inr(1) [OF ok(4)] ap(2) by simp
  note vp = validateProjection_Inr [OF v, unfolded project_def, simplified]
  have main: "c_CommitID (s_commit sn) = ident \<and>
      c_RecordHash (s_commit sn) = recordHash lg (snapRevision base + 1) ident ?h event"
    using or
  proof
    assume "json_print (plat lg) (outCommit (newCommit lg base f event ident)) = Some (s_body sn)"
    from reads_back_decode [OF json newCommit_go [OF vf] this]
    have "s_commit sn = newCommit lg base f event ident"
      using decodeCommit_Inr [OF ok(3)] by (metis Inr_inject)
    then show ?thesis using nr(1) by simp
  qed (use nr(1) in simp)
  let ?c = "s_commit sn"
  let ?p = "recordPreimage (snapRevision base + 1) (c_CommitID ?c) (PreviousRecordHash (project ?c)) (c_Event ?c)"
  let ?q = "recordPreimage (snapRevision base + 1) ident ?h event"
  have "validHex ident 32" using e(5) by (simp add: validHex_def)
  moreover have "validHex (c_CommitID ?c) 32"
      "recordHash lg (snapRevision base + 1) (c_CommitID ?c) (PreviousRecordHash (project ?c)) (c_Event ?c)
        = c_RecordHash ?c" "validHex (PreviousRecordHash (project ?c)) 64" "valid_rev (snapRevision base + 1)"
    using validateProjection_Inr [OF v] by (simp_all add: project_def)
  ultimately have "sum256 lg ?p = sum256 lg ?q" and
    "?p = ?q \<longleftrightarrow> c_Event ?c = event \<and> PreviousRecordHash (project ?c) = ?h"
    using main recordPreimage_inj [of "snapRevision base + 1" "snapRevision base + 1" "c_CommitID ?c" ident
        "PreviousRecordHash (project ?c)" ?h "c_Event ?c" event] previousHash_valid [OF base]
    by (auto simp: recordHash_def hexEncode_inj)
  then have "c_Event ?c = event \<and> PreviousRecordHash (project ?c) = ?h \<or> (\<exists>a b. collision lg a b)"
    by (auto simp: collision_def)
  with e main show ?thesis by blast
qed

end

end
