(* ===== verification/LogFacts.thy ===== *)
theory LogFacts
  imports ScanFacts Envelope
begin

section \<open>Failures, key lengths and read costs\<close>

text \<open>
  Every way in which stored bytes can fail to decode is a corruption error; the keys of an opened
  log stay within S3's limit; and a frontier has as many references as the hexadecimal digit sum
  of the number of records before the head.
\<close>

subsection \<open>Decoding failures\<close>

lemma validateProjection_Inl: "validateProjection lg p = Inl e \<Longrightarrow> errors_is e ErrCorrupt"
  by (auto simp: validateProjection_def ebind_eq_Inl_iff dest: parseRevision_Inl)

lemma collectLevels_Inl: "collectLevels f l lv = Inl e \<Longrightarrow> errors_is e ErrCorrupt"
  by (induction f arbitrary: l lv) (auto simp: ebind_eq_Inl_iff)

lemma checkRefs_Inl: "checkRefs lg level r rs acc = Inl e \<Longrightarrow> errors_is e ErrCorrupt"
  by (induction rs arbitrary: acc) (auto simp: ebind_eq_Inl_iff dest: validateRef_Inl)

lemma checkLevels_Inl: "checkLevels lg lv r ls acc = Inl e \<Longrightarrow> errors_is e ErrCorrupt"
  by (induction ls arbitrary: acc) (auto simp: ebind_eq_Inl_iff dest: checkRefs_Inl)

lemma validateFrontier_Inl: "validateFrontier lg f r h = Inl e \<Longrightarrow> errors_is e ErrCorrupt"
  by (auto simp: validateFrontier_def ebind_eq_Inl_iff dest: collectLevels_Inl checkLevels_Inl)

lemma parseLogKey_Inl: "parseLogKey lg k = Inl e \<Longrightarrow> errors_is e ErrCorrupt"
  by (auto simp: parseLogKey_def ebind_eq_Inl_iff Let_def dest: parseHexInt64_Inl)

lemma decodeCommit_Inl: "decodeCommit lg k b = Inl e \<Longrightarrow> errors_is e ErrCorrupt"
  by (auto simp: decodeCommit_def ebind_eq_Inl_iff split: if_splits
      dest: parseLogKey_Inl decodeJSON_Inl validateProjection_Inl validateFrontier_Inl)

lemma recordOf_Inl: "recordOf lg p = Inl e \<Longrightarrow> errors_is e ErrCorrupt"
  by (cases "unmarshal_batch (plat lg) (p_Event p)")
     (auto simp: recordOf_def ebind_eq_Inl_iff dest: validateProjection_Inl)

lemma wrapErr_Inl: "wrapErr m r = Inl e \<longleftrightarrow> (\<exists>e'. r = Inl e' \<and> e = Wrap m [e'])"
  by (cases r) (auto simp: wrapErr_def)

lemma snapshot_Inl: "snapshot lg k b = Inl e \<Longrightarrow> errors_is e ErrCorrupt"
  by (auto simp: snapshot_def ebind_eq_Inl_iff wrapErr_Inl dest: decodeCommit_Inl recordOf_Inl)

subsection \<open>Open\<close>

lemma Open_Inr:
  assumes "Open ident pl cfg = Inr lg"
  shows "prefix lg = [] \<or> (\<exists>p. p \<noteq> [] \<and> prefix lg = p @ ''/'' \<and> int (length p) \<le> maxPrefixBytes)"
    and "0 < maxRetries lg" and "0 < maxEvent lg" and "\<not> cfg_StoreNil cfg"
  using assms by (auto simp: Open_def Let_def ebind_eq_Inr_iff split: if_splits)

lemma Open_keys:
  assumes "Open ident pl cfg = Inr lg"
  shows "valid_rev r \<Longrightarrow> int (length (logKey lg r)) \<le> 1024"
    and "validateRef lg ref = Inr (a, b) \<Longrightarrow> int (length (Key ref)) \<le> 1024"
proof -
  have p: "int (length (prefix lg)) \<le> 907"
    using Open_Inr(1) [OF assms] by (auto simp: maxPrefixBytes_eq)
  show k: "int (length (logKey lg r)) \<le> 1024" if "valid_rev r" for r
    using p length_logKey [OF that, of lg] by linarith
  assume v: "validateRef lg ref = Inr (a, b)"
  note f = validateRef_facts [OF v]
  show "int (length (Key ref)) \<le> 1024"
  proof (cases "Level ref = 0")
    case True
    with f(9) k [OF f(2)] show ?thesis by (simp add: ref_fields_ok_def)
  next
    case False
    have "length (Start ref) = 16" "length (End ref) = 16"
      using f(2,3,7,8) by (simp_all add: hexRevision_valid)
    moreover have "length (SHA256 ref) = 64" using f(9) by (simp add: ref_fields_ok_def validHex_def)
    ultimately have "length (treeKey lg ref) = length (prefix lg) + 117"
      using f(1) by (intro length_treeKey) auto
    with f(9) False p show ?thesis by (simp add: ref_fields_ok_def)
  qed
qed

subsection \<open>The number of references\<close>

lemma digitSum_digits: "0 \<le> n \<Longrightarrow> n < 16 ^ k \<Longrightarrow> digitSum n = (\<Sum>l<k. digit n l)"
proof (induction k arbitrary: n)
  case 0
  then show ?case by (simp add: digitSum_eq)
next
  case (Suc k)
  have "digitSum n = n mod 16 + digitSum (n div 16)"
    using Suc.prems(1) digitSum_eq [of n] digitSum_eq [of 0] by (cases "n = 0") simp_all
  also have "digitSum (n div 16) = (\<Sum>l<k. digit (n div 16) l)"
    using Suc.prems by (intro Suc.IH) auto
  also have "n mod 16 + \<dots> = (\<Sum>l<Suc k. digit n l)"
    by (simp add: sum.lessThan_Suc_shift digit_def zdiv_zmult2_eq del: sum.lessThan_Suc)
  finally show ?case .
qed

lemma length_levelRefs: "length (levelRefs levels) = (\<Sum>l<16. length (levels ! l))"
  by (simp add: levelRefs_def length_concat comp_def rev_map [symmetric] sum_list_rev
      atLeast0LessThan [symmetric] interv_sum_list_conv_sum_set_nat del: upt_rec_numeral)

lemma validateFrontier_count:
  assumes "validateFrontier lg f r h = Inr u"
  shows "int (length (frontierRefs f)) = digitSum (r - 1)"
proof -
  from assms obtain levels where v: "valid_rev r" and f: "f = frontierOf levels"
      and l: "levels_ok levels (r - 1) [0..<16]" by (auto elim: validateFrontierE)
  have "r - 1 < 16 ^ 16" using v by (simp add: bounds)
  then have "digitSum (r - 1) = (\<Sum>l<16. digit (r - 1) l)" using v by (intro digitSum_digits) auto
  also have "\<dots> = (\<Sum>l<16. int (length (levels ! l)))"
    using l by (intro sum.cong) (auto simp: levels_ok_def)
  finally show ?thesis by (simp add: f length_levelRefs del: lessThan_nat_numeral)
qed

text \<open>At most 74 Gets below one million batches, so 75 with the head.\<close>

lemma digitSum_million:
  assumes "0 \<le> n" and "n < 1000000"
  shows "digitSum n \<le> 74"
proof -
  define a b where "a = n div 65536" and "b = n div 4096"
  have sum: "digitSum n = n mod 16 + n div 16 mod 16 + n div 256 mod 16 + b mod 16 + a mod 16"
  proof -
    have "{..<5} = {0, 1, 2, 3, 4::nat}" by auto
    moreover have "n < 16 ^ 5" using assms by simp
    ultimately have "digitSum n = digit n 0 + digit n 1 + digit n 2 + digit n 3 + digit n 4"
      using digitSum_digits [of n 5] assms(1) by simp
    moreover have "digit n 0 = n mod 16" "digit n 1 = n div 16 mod 16" "digit n 2 = n div 256 mod 16"
        "digit n 3 = b mod 16" "digit n 4 = a mod 16"
      by (simp_all add: digit_def a_def b_def)
    ultimately show ?thesis by (simp only:)
  qed
  have "n div (4096 * 16) = n div 4096 div 16" by (rule zdiv_zmult2_eq) simp
  then have ab: "b div 16 = a" "0 \<le> a" "b \<le> 244"
    using assms by (simp_all add: a_def b_def)
  then have "a \<le> 15" by auto
  have "a mod 16 + b mod 16 \<le> 29"
  proof (cases "a = 15")
    case True
    with ab have "b mod 16 = b - 240" using div_mult_mod_eq [of b 16] by simp
    with True ab(3) show ?thesis by simp
  next
    case False
    with \<open>a \<le> 15\<close> ab(2) have "a mod 16 \<le> 14" by simp
    moreover have "b mod 16 < 16" by simp
    ultimately show ?thesis by linarith
  qed
  moreover have "n mod 16 < 16" "n div 16 mod 16 < 16" "n div 256 mod 16 < 16" by simp_all
  ultimately show ?thesis unfolding sum by linarith
qed

end
