(* ===== verification/Protocol.thy ===== *)
theory Protocol
  imports AppendFacts LogFacts Projection
begin

section \<open>The log that a store holds\<close>

text \<open>
  The abstract state of a log is the list of its commits. \<open>log_is lg m sns\<close> says that the map
  \<open>m\<close> of objects holds the log \<open>sns\<close>: the log keys present are those of the revisions
  \<open>1..length sns\<close>, without a gap; each holds a valid commit; and each commit names the record
  hash of the one before. A map holds at most one log, so this is an abstraction function where
  it is defined.

  The contract of \<open>log_store\<close> is that of a store several writers share: whatever happens during
  an operation only extends the log (\<open>log_le\<close>), and a Create publishes, at one point between
  such steps, its value under a vacant key or nothing. Under it every append of this model extends
  the log by valid commits at the end, whether it succeeds or fails, so it keeps for the other
  writers what it asks of them.
\<close>

subsection \<open>Abstract logs\<close>

definition log_is :: "'a log \<Rightarrow> (string \<rightharpoonup> bytes) \<Rightarrow> 'a snap list \<Rightarrow> bool" where
  "log_is lg m sns \<longleftrightarrow>
     (\<forall>r. valid_rev r \<longrightarrow> (m (logKey lg r) \<noteq> None \<longleftrightarrow> r \<le> int (length sns))) \<and>
     (\<forall>i<length sns. m (logKey lg (int i + 1)) = Some (s_body (sns ! i)) \<and> snap_ok lg (sns ! i) \<and>
        Revision (s_record (sns ! i)) = int i + 1) \<and>
     (\<forall>i. Suc i < length sns \<longrightarrow>
        PreviousRecordHash (project (s_commit (sns ! Suc i))) = c_RecordHash (s_commit (sns ! i)))"

definition log_le :: "'a log \<Rightarrow> (string \<rightharpoonup> bytes) \<Rightarrow> (string \<rightharpoonup> bytes) \<Rightarrow> bool" where
  "log_le lg m m' \<longleftrightarrow> m \<subseteq>\<^sub>m m' \<and> (\<forall>sns. log_is lg m sns \<longrightarrow> (\<exists>ext. log_is lg m' (sns @ ext)))"

lemma log_isD:
  assumes "log_is lg m sns"
  shows "valid_rev r \<Longrightarrow> m (logKey lg r) \<noteq> None \<longleftrightarrow> r \<le> int (length sns)"
    and "i < length sns \<Longrightarrow> m (logKey lg (int i + 1)) = Some (s_body (sns ! i))"
    and "i < length sns \<Longrightarrow> snap_ok lg (sns ! i)"
    and "i < length sns \<Longrightarrow> Revision (s_record (sns ! i)) = int i + 1"
    and "Suc i < length sns \<Longrightarrow>
      PreviousRecordHash (project (s_commit (sns ! Suc i))) = c_RecordHash (s_commit (sns ! i))"
  using assms by (auto simp: log_is_def)

lemma last_take_nth: "0 < k \<Longrightarrow> k \<le> length xs \<Longrightarrow> last (take k xs) = xs ! (k - 1)"
  by (cases "xs = []") (auto simp: last_conv_nth min_def)

text \<open>The snapshot with given bytes at a given revision is unique.\<close>

lemma snap_ok_unique:
  assumes "snap_ok lg a" and "snap_ok lg b"
    and "Revision (s_record a) = Revision (s_record b)" and "s_body a = s_body b"
  shows "a = b"
proof -
  have "(Inr a :: goerr + 'a snap) = Inr b"
    using assms by (metis snap_ok_def)
  then show ?thesis by simp
qed

lemma log_is_stored:
  assumes "log_is lg m sns" and "snap_ok lg b"
    and "m (logKey lg (Revision (s_record b))) = Some (s_body b)"
  shows "1 \<le> Revision (s_record b)" and "Revision (s_record b) \<le> int (length sns)"
    and "sns ! nat (Revision (s_record b) - 1) = b"
proof -
  let ?r = "Revision (s_record b)" and ?i = "nat (Revision (s_record b) - 1)"
  have v: "valid_rev ?r" using snap_okD(1) [OF assms(2)] .
  then show "1 \<le> ?r" by simp
  from log_isD(1) [OF assms(1) v] assms(3) show le: "?r \<le> int (length sns)" by simp
  have i: "?i < length sns" "int ?i + 1 = ?r" using v le by auto
  show "sns ! ?i = b"
    using log_isD(2,3,4) [OF assms(1) i(1)] i(2) assms(2,3) by (intro snap_ok_unique) auto
qed

lemma log_is_unique:
  assumes "log_is lg m a" and "log_is lg m b"
  shows "a = b"
proof (rule nth_equalityI)
  have "length a \<le> length b" if "log_is lg m a" "log_is lg m b" for a b
  proof (cases "a = []")
    case False
    then have i: "length a - 1 < length a" by simp
    note f = log_isD(2,3,4) [OF that(1) i]
    have "int (length a - 1) + 1 = int (length a)" using i by simp
    with f log_isD(1) [OF that(2) snap_okD(1) [OF f(2)]] show ?thesis by simp
  qed simp
  then show l: "length a = length b" using assms by (metis le_antisym)
  fix i
  assume i: "i < length a"
  show "a ! i = b ! i"
    using log_isD(2,3,4) [OF assms(1) i] log_isD(2,3,4) [OF assms(2) i [unfolded l]]
    by (intro snap_ok_unique) auto
qed

lemma log_le_refl [simp]: "log_le lg m m"
  by (auto simp: log_le_def intro: exI [of _ "[]"])

lemma log_le_trans:
  assumes "log_le lg a b" and "log_le lg b c"
  shows "log_le lg a c"
proof -
  have "\<exists>ext. log_is lg c (sns @ ext)" if l: "log_is lg a sns" for sns
  proof -
    from assms(1) l obtain x where "log_is lg b (sns @ x)" unfolding log_le_def by blast
    with assms(2) obtain y where "log_is lg c ((sns @ x) @ y)" unfolding log_le_def by blast
    then show ?thesis by auto
  qed
  then show ?thesis using assms map_le_trans unfolding log_le_def by blast
qed

lemma log_is_last:
  assumes "log_is lg m sns" and "sns \<noteq> []"
  shows "m (logKey lg (int (length sns))) \<noteq> None \<and> valid_rev (int (length sns))"
proof -
  from assms(2) obtain i where i: "length sns = Suc i" by (cases sns) auto
  then have "i < length sns" by simp
  from log_isD(2) [OF assms(1) this] log_isD(4) [OF assms(1) this] snap_okD(1) [OF log_isD(3) [OF assms(1) this]]
  show ?thesis using i by (simp add: algebra_simps)
qed

text \<open>Publishing an object that is not a commit leaves the log as it is.\<close>

lemma log_is_cong:
  assumes "\<And>r. valid_rev r \<Longrightarrow> m' (logKey lg r) = m (logKey lg r)" and l: "log_is lg m sns"
  shows "log_is lg m' sns"
proof -
  have "valid_rev (int i + 1)" if "i < length sns" for i
    using snap_okD(1) [OF log_isD(3) [OF l that]] log_isD(4) [OF l that] by simp
  then have "m' (logKey lg (int i + 1)) = m (logKey lg (int i + 1))" if "i < length sns" for i
    using assms(1) that by blast
  then show ?thesis
    using l assms(1) unfolding log_is_def by (intro conjI) metis+
qed

lemma log_le_foreign:
  assumes "m k = None" and "\<forall>r. valid_rev r \<longrightarrow> k \<noteq> logKey lg r"
  shows "log_le lg m (m(k \<mapsto> v))"
proof -
  have "(m(k \<mapsto> v)) (logKey lg r) = m (logKey lg r)" if "valid_rev r" for r
    using assms(2) that by auto
  then have "\<exists>ext. log_is lg (m(k \<mapsto> v)) (sns @ ext)" if "log_is lg m sns" for sns
    using that log_is_cong [of "m(k \<mapsto> v)" lg m sns] by (intro exI [of _ "[]"]) simp
  moreover have "m \<subseteq>\<^sub>m m(k \<mapsto> v)" using assms(1) by (auto simp: map_le_def dom_def)
  ultimately show ?thesis by (simp add: log_le_def)
qed

text \<open>Publishing the next commit extends the log by it.\<close>

lemma log_is_extend:
  assumes "log_is lg m sns" and "snapshot lg k body = Inr sn"
    and "Revision (s_record sn) = int (length sns) + 1" and "m k = None"
    and "sns \<noteq> [] \<Longrightarrow> PreviousRecordHash (project (s_commit sn)) = c_RecordHash (s_commit (last sns))"
  shows "log_is lg (m(k \<mapsto> body)) (sns @ [sn])"
proof -
  note f = snapshot_Inr [OF assms(2)]
  let ?m = "m(k \<mapsto> body)"
  have other: "?m (logKey lg r) = m (logKey lg r)" if "valid_rev r" "r \<noteq> int (length sns) + 1" for r
    using logKey_inj [OF that(1) f(1), of lg] f(2) assms(3) that(2) by simp
  have here: "?m (logKey lg (int (length sns) + 1)) = Some (s_body sn)"
    using f(2,3) assms(3) by simp
  have old: "valid_rev (int i + 1)" if "i < length sns" for i
    using snap_okD(1) [OF log_isD(3) [OF assms(1) that]] log_isD(4) [OF assms(1) that] by simp
  have "?m (logKey lg r) \<noteq> None \<longleftrightarrow> r \<le> int (length (sns @ [sn]))" if "valid_rev r" for r
    using other [OF that] here log_isD(1) [OF assms(1) that]
    by (cases "r = int (length sns) + 1") auto
  moreover have "?m (logKey lg (int i + 1)) = Some (s_body ((sns @ [sn]) ! i)) \<and> snap_ok lg ((sns @ [sn]) ! i) \<and>
      Revision (s_record ((sns @ [sn]) ! i)) = int i + 1" if "i < length (sns @ [sn])" for i
  proof (cases "i = length sns")
    case True
    then show ?thesis using here f(7) assms(3) by simp
  next
    case False
    with that have i: "i < length sns" by simp
    then show ?thesis using other [OF old [OF i]] log_isD(2,3,4) [OF assms(1) i] by (simp add: nth_append)
  qed
  moreover have "PreviousRecordHash (project (s_commit ((sns @ [sn]) ! Suc i))) =
      c_RecordHash (s_commit ((sns @ [sn]) ! i))" if "Suc i < length (sns @ [sn])" for i
  proof (cases "Suc i = length sns")
    case True
    then have "sns \<noteq> []" by auto
    moreover from True have "i = length sns - 1" by simp
    ultimately have "sns ! i = last sns" "sns \<noteq> []" by (simp_all add: last_conv_nth)
    then show ?thesis using True assms(5) by (simp add: nth_append)
  next
    case False
    with that have "Suc i < length sns" by simp
    then show ?thesis using log_isD(5) [OF assms(1)] by (simp add: nth_append)
  qed
  ultimately show ?thesis unfolding log_is_def by blast
qed

subsection \<open>A store shared by writers that keep the log\<close>

locale log_store = object_store W objs good
  for W :: "'s world" and objs :: "'s \<Rightarrow> string \<rightharpoonup> bytes" and good :: "'s \<Rightarrow> bool" +
  fixes lg :: "'a log"
  assumes log_ctx: "w_ctx W s = (ce, s') \<Longrightarrow> good s \<Longrightarrow> log_le lg (objs s) (objs s')"
    and log_list: "w_list W p n s = (lr, s') \<Longrightarrow> good s \<Longrightarrow> log_le lg (objs s) (objs s')"
    and log_get: "w_get W k s = (gr, s') \<Longrightarrow> good s \<Longrightarrow> log_le lg (objs s) (objs s')"
    and log_rand: "w_rand W m s = (rr, s') \<Longrightarrow> good s \<Longrightarrow> log_le lg (objs s) (objs s')"
    and log_tmp: "w_tmp W q s = (te, s') \<Longrightarrow> good s \<Longrightarrow> log_le lg (objs s) (objs s')"
    and log_create: "w_create W k v s = (ce, s') \<Longrightarrow> good s \<Longrightarrow>
      \<exists>m1 m2. log_le lg (objs s) m1 \<and> (m2 = m1 \<or> m1 k = None \<and> m2 = m1(k \<mapsto> v)) \<and> log_le lg m2 (objs s')"

text \<open>A base snapshot that the store holds: one that LoadHead, LoadRevision or AppendTo returned.\<close>

definition held :: "'a log \<Rightarrow> (string \<rightharpoonup> bytes) \<Rightarrow> 'a snap option \<Rightarrow> bool" where
  "held lg m base \<longleftrightarrow>
     (case base of
        None \<Rightarrow> True
      | Some b \<Rightarrow> snap_ok lg b \<and> m (logKey lg (Revision (s_record b))) = Some (s_body b))"

lemma held_mono: "held lg m base \<Longrightarrow> m \<subseteq>\<^sub>m m' \<Longrightarrow> held lg m' base"
  by (auto simp: held_def map_le_def dom_def split: option.splits)

lemma held_ok: "held lg m base \<Longrightarrow> (case base of None \<Rightarrow> True | Some b \<Rightarrow> snap_ok lg b)"
  by (auto simp: held_def split: option.splits)

context log_store
begin

text \<open>The log is kept and the base stays held.\<close>

definition keeps :: "'a snap option \<Rightarrow> 's \<Rightarrow> 's \<Rightarrow> bool" where
  "keeps base s s' \<longleftrightarrow>
     (good s \<and> held lg (objs s) base \<longrightarrow>
      good s' \<and> held lg (objs s') base \<and> log_le lg (objs s) (objs s'))"

lemma keepsI:
  assumes "grows objs good s s'" and "good s \<Longrightarrow> log_le lg (objs s) (objs s')"
  shows "keeps base s s'"
  using assms held_mono unfolding keeps_def grows_def by blast

lemma keeps_world: "world_rel (keeps base) W"
proof unfold_locales
  show "keeps base s s" for s by (simp add: keeps_def)
  show "keeps base s u" if "keeps base s t" "keeps base t u" for s t u
    using that log_le_trans unfolding keeps_def by blast
  show "keeps base s s'" if "w_ctx W s = (ce, s')" for s ce s'
    by (rule keepsI [OF ctx_grows [OF that] log_ctx [OF that]])
  show "keeps base s s'" if "w_list W p n s = (lr, s')" for p n s lr s'
    by (rule keepsI [OF list_grows [OF that] log_list [OF that]])
  show "keeps base s s'" if "w_get W k s = (gr, s')" for k s gr s'
    by (rule keepsI [OF get_grows [OF that] log_get [OF that]])
  show "keeps base s s'" if "w_rand W m s = (rr, s')" for m s rr s'
    by (rule keepsI [OF rand_grows [OF that] log_rand [OF that]])
  show "keeps base s s'" if "w_tmp W q s = (te, s')" for q s te s'
    by (rule keepsI [OF tmp_grows [OF that] log_tmp [OF that]])
qed

text \<open>Creating a segment never touches a log key.\<close>

lemma create_foreign:
  assumes "\<forall>r. valid_rev r \<longrightarrow> k \<noteq> logKey lg r"
  shows "io_rel (keeps base) (io_poll (w_create W k v))"
proof (rule io_relI)
  fix s r s'
  assume "io_poll (w_create W k v) s = (r, s')"
  then obtain ce where c: "w_create W k v s = (ce, s')" by auto
  show "keeps base s s'"
  proof (rule keepsI [OF create_grows [OF c]])
    assume "good s"
    from log_create [OF c this] obtain m1 m2 where "log_le lg (objs s) m1"
        "m2 = m1 \<or> m1 k = None \<and> m2 = m1(k \<mapsto> v)" "log_le lg m2 (objs s')" by blast
    moreover from this(2) have "log_le lg m1 m2" using log_le_foreign [OF _ assms] by auto
    ultimately show "log_le lg (objs s) (objs s')" using log_le_trans by blast
  qed
qed

lemma create_next:
  assumes "snapshot lg (logKey lg (nextRevision base)) body = Inr sn"
    and "valid_rev (nextRevision base)"
    and "PreviousRecordHash (project (s_commit sn)) = previousHash (previousOfBase lg base)"
  shows "io_rel (keeps base) (io_poll (w_create W (logKey lg (nextRevision base)) body))"
proof (rule io_relI)
  fix s r s'
  let ?k = "logKey lg (nextRevision base)"
  assume "io_poll (w_create W ?k body) s = (r, s')"
  then obtain ce where c: "w_create W ?k body s = (ce, s')" by auto
  have le: "log_le lg (objs s) (objs s')" if g: "good s" and h: "held lg (objs s) base"
  proof -
    from log_create [OF c g] obtain m1 m2 where m: "log_le lg (objs s) m1"
        "m2 = m1 \<or> m1 ?k = None \<and> m2 = m1(?k \<mapsto> body)" "log_le lg m2 (objs s')" by blast
    have h1: "held lg m1 base" using held_mono [OF h] m(1) by (simp add: log_le_def)
    note nr = nextRevision_eq [OF held_ok [OF h]]
    have "log_is lg (m1(?k \<mapsto> body)) (sns @ [sn])" if l: "log_is lg m1 sns" and n: "m1 ?k = None" for sns
    proof (rule log_is_extend [OF l assms(1) _ n])
      have "\<not> nextRevision base \<le> int (length sns)" using log_isD(1) [OF l assms(2)] n by simp
      moreover have "snapRevision base \<le> int (length sns)"
        using h1 log_is_stored [OF l] by (auto simp: held_def snapRevision_def split: option.splits)
      ultimately have len: "int (length sns) = snapRevision base" using nr by simp
      have "Revision (s_record sn) = nextRevision base"
        using snapshot_Inr(1,2) [OF assms(1)] assms(2) logKey_inj by metis
      then show "Revision (s_record sn) = int (length sns) + 1" using len nr by simp
      show "PreviousRecordHash (project (s_commit sn)) = c_RecordHash (s_commit (last sns))" if "sns \<noteq> []"
      proof (cases base)
        case None
        with len that show ?thesis by (simp add: snapRevision_def)
      next
        case (Some b)
        with h1 log_is_stored [OF l, of b] have "sns ! nat (Revision (s_record b) - 1) = b"
          by (simp add: held_def)
        moreover have "nat (Revision (s_record b) - 1) = length sns - 1"
          using len Some by (simp add: snapRevision_def)
        ultimately have "last sns = b" using that by (simp add: last_conv_nth)
        with Some assms(3) show ?thesis by (simp add: previousHash_def previousOfBase_def)
      qed
    qed
    then have "log_le lg m1 (m1(?k \<mapsto> body))" if "m1 ?k = None"
      using that unfolding log_le_def by (auto simp: map_le_def)
    then have "log_le lg m1 m2" using m(2) by auto
    then show ?thesis using m(1,3) log_le_trans by blast
  qed
  show "keeps base s s'"
    using le create_grows [OF c] held_mono unfolding keeps_def grows_def by blast
qed

subsection \<open>Appends keep the log\<close>

lemma sealRef_foreign: "\<forall>r. valid_rev r \<longrightarrow> Key (sealRef lg ref tx) \<noteq> logKey lg r"
  by (simp add: sealRef_def Let_def)

lemma keeps_createSegment: "io_rel (keeps base) (createSegment W lg children b)"
proof -
  note w = keeps_world [of base]
  note p = world_rel.axioms(1) [OF w]
  have "io_rel (keeps base) (createAggregate W lg (sealRef lg ref tx) body)" for ref tx body
    by (intro world_rel.rel_createAggregate [OF w] create_foreign sealRef_foreign)
  then show ?thesis
    unfolding createSegment_def Let_def
    by (intro state_preorder.rel_bind [OF p] state_preorder.rel_lift [OF p] world_rel.rel_newTemp [OF w]
        world_rel.rel_defer_close [OF w] state_preorder.rel_local [OF p] world_rel.rel_mergeChildren [OF w]
        world_rel.rel_case_prod [OF w] world_rel.rel_closeParts [OF w] world_rel.rel_finishStream [OF w]
        state_preorder.rel_ret [OF p])
qed

lemma keeps_carry: "io_rel (keeps base) (carry W lg b)"
proof -
  note p = world_rel.axioms(1) [OF keeps_world [of base]]
  have "io_rel (keeps base) (carryLoop W lg b ls levels carried)" for ls levels carried
    by (induction ls arbitrary: levels carried)
       (simp_all only: carryLoop.simps Let_def state_preorder.rel_if [OF p] state_preorder.rel_bind [OF p]
          state_preorder.rel_ret [OF p] keeps_createSegment)
  then show ?thesis
    unfolding carry_def by (intro state_preorder.rel_bind [OF p] state_preorder.rel_ret [OF p])
qed

lemma keeps_reading:
  "io_rel (keeps base) (LoadHead W lg)" "io_rel (keeps base) (prepare W lg value)"
  "io_rel (keeps base) (resolveCreate W lg key r ident c ce)"
proof -
  note w = keeps_world [of base]
  note p = world_rel.axioms(1) [OF w]
  show "io_rel (keeps base) (LoadHead W lg)" by (rule world_rel.rel_LoadHead [OF w])
  show "io_rel (keeps base) (prepare W lg value)" by (rule world_rel.rel_prepare [OF w])
  show "io_rel (keeps base) (resolveCreate W lg key r ident c ce)"
    unfolding resolveCreate_def
    by (intro state_preorder.rel_bind [OF p] state_preorder.rel_try [OF p] world_rel.rel_getObject [OF w]
        state_preorder.rel_sum [OF p] state_preorder.rel_fail [OF p] state_preorder.rel_lift [OF p]
        state_preorder.rel_if [OF p] state_preorder.rel_ret [OF p])
qed

lemma keeps_publish:
  assumes "reads_back lg"
    and vf: "validateFrontier lg f (nextRevision base) (previousHash (previousOfBase lg base)) = Inr ()"
  shows "io_rel (keeps base)
    (publish W lg (nextRevision base) ident (newCommit lg base f event ident))"
proof (cases "json_print (plat lg) (outCommit (newCommit lg base f event ident))")
  case None
  then show ?thesis
    using state_preorder.rel_fail [OF world_rel.axioms(1) [OF keeps_world]] by (simp add: publish_def)
next
  case (Some body)
  note w = keeps_world [of base]
  note p = world_rel.axioms(1) [OF w]
  let ?k = "logKey lg (nextRevision base)"
  show ?thesis
  proof (cases "snapshot lg ?k body")
    case (Inl e)
    then show ?thesis
      using Some state_preorder.rel_fail [OF p] by (simp add: publish_def)
  next
    case (Inr sn)
    have "s_commit sn = newCommit lg base f event ident"
      using decodeCommit_Inr [OF snapshot_Inr(5) [OF Inr]]
        reads_back_decode [OF assms(1) newCommit_go [OF vf] Some] by (metis Inr_inject)
    then have "io_rel (keeps base) (io_poll (w_create W ?k body))"
      using vf validateFrontier_iff by (intro create_next [OF Inr]) auto
    then show ?thesis
      using Some Inr
      by (simp add: publish_def Let_def)
         (intro state_preorder.rel_bind [OF p] world_rel.rel_ctx [OF w] state_preorder.rel_option [OF p]
            state_preorder.rel_ret [OF p] keeps_reading)
  qed
qed

end

context state_preorder
begin

lemma rel_lift_bind: "(\<And>x. r = Inr x \<Longrightarrow> io_rel R (f x)) \<Longrightarrow> io_rel R (io_bind (io_lift r) f)"
  using rel_fail by (cases r) simp_all

end

context log_store
begin

lemma keeps_appendPrepared:
  assumes "reads_back lg"
  shows "io_rel (keeps base) (appendPrepared W lg base event ident)"
proof -
  note w = keeps_world [of base]
  note p = world_rel.axioms(1) [OF w]
  show ?thesis
    unfolding appendPrepared_def Let_def
    by (intro state_preorder.rel_bind [OF p] state_preorder.rel_lift [OF p] state_preorder.rel_option [OF p]
        state_preorder.rel_ret [OF p] keeps_carry state_preorder.rel_lift_bind [OF p] keeps_publish assms) simp
qed

lemma keeps_AppendTo:
  assumes "reads_back lg"
  shows "io_rel (keeps base) (AppendTo W lg base value)"
proof -
  note w = keeps_world [of base]
  note p = world_rel.axioms(1) [OF w]
  show ?thesis
    unfolding AppendTo_def
    by (intro state_preorder.rel_bind [OF p] state_preorder.rel_lift [OF p] world_rel.rel_ctx [OF w]
        keeps_reading world_rel.rel_case_prod [OF w] keeps_appendPrepared assms)
qed

lemma AppendTo_keeps_log:
  assumes "AppendTo W lg base value s = (r, s')" and "good s" and "reads_back lg"
    and "held lg (objs s) base" and "log_is lg (objs s) sns"
  shows "\<exists>ext. log_is lg (objs s') (sns @ ext)"
  using io_relD [OF keeps_AppendTo [OF assms(3)] assms(1)] assms(2,4,5) by (simp add: keeps_def log_le_def)

lemma keepsD: "keeps base s s' \<Longrightarrow> good s \<Longrightarrow> held lg (objs s) base \<Longrightarrow> good s' \<and> log_le lg (objs s) (objs s')"
  by (simp add: keeps_def)

lemma keeps_NoneD: "keeps None s s' \<Longrightarrow> good s \<Longrightarrow> good s' \<and> log_le lg (objs s) (objs s')"
  by (simp add: keeps_def held_def)

lemma LoadHead_held:
  assumes "LoadHead W lg s = (Inr base, s')" and "good s"
  shows "held lg (objs s') base"
  using LoadHead_Inr [OF assms] by (auto simp: held_def split: option.splits)

lemma appendLoop_keeps:
  assumes "appendLoop n W lg event ident s = (r, s')" and "good s" and "reads_back lg"
  shows "good s' \<and> log_le lg (objs s) (objs s')"
  using assms
proof (induction n arbitrary: s)
  case 0
  obtain q s1 where h: "LoadHead W lg s = (q, s1)" by (cases "LoadHead W lg s")
  have k: "good s1 \<and> log_le lg (objs s) (objs s1)"
    using keeps_NoneD [OF io_relD [OF keeps_reading(1) h] 0(2)] .
  show ?case
  proof (cases q)
    case (Inl e)
    with 0(1) h k show ?thesis by (simp add: io_bind_def)
  next
    case (Inr base)
    obtain q2 s2 where a: "appendPrepared W lg base event ident s1 = (q2, s2)"
      by (cases "appendPrepared W lg base event ident s1")
    have "good s2 \<and> log_le lg (objs s1) (objs s2)"
      using keepsD [OF io_relD [OF keeps_appendPrepared [OF 0(3)] a]] k LoadHead_held [OF h [unfolded Inr] 0(2)]
      by blast
    moreover have "s' = s2" using 0(1) h Inr a by (auto simp: io_bind_def split: sum.splits)
    ultimately show ?thesis using k log_le_trans by blast
  qed
next
  case (Suc n)
  obtain q s1 where h: "LoadHead W lg s = (q, s1)" by (cases "LoadHead W lg s")
  have k: "good s1 \<and> log_le lg (objs s) (objs s1)"
    using keeps_NoneD [OF io_relD [OF keeps_reading(1) h] Suc.prems(2)] .
  show ?case
  proof (cases q)
    case (Inl e)
    with Suc.prems(1) h k show ?thesis by (simp add: io_bind_def)
  next
    case (Inr base)
    obtain q2 s2 where a: "appendPrepared W lg base event ident s1 = (q2, s2)"
      by (cases "appendPrepared W lg base event ident s1")
    have k2: "good s2 \<and> log_le lg (objs s1) (objs s2)"
      using keepsD [OF io_relD [OF keeps_appendPrepared [OF Suc.prems(3)] a]] k
        LoadHead_held [OF h [unfolded Inr] Suc.prems(2)] by blast
    consider "s' = s2" | "appendLoop n W lg event ident s2 = (r, s')"
      using Suc.prems(1) h Inr a by (auto simp: io_bind_def io_try_def split: sum.splits if_splits)
    then show ?thesis
      using k k2 Suc.IH [OF _ _ Suc.prems(3)] log_le_trans by cases blast+
  qed
qed

lemma Append_keeps:
  assumes "Append W lg value s = (r, s')" and "good s" and "reads_back lg"
  shows "good s' \<and> log_le lg (objs s) (objs s')"
proof -
  obtain ce s0 where c: "w_ctx W s = (ce, s0)" by (cases "w_ctx W s")
  have k0: "good s0 \<and> log_le lg (objs s) (objs s0)"
    using ctx_grows [OF c] log_ctx [OF c] assms(2) by (auto simp: grows_def)
  obtain q s1 where p: "prepare W lg value s0 = (q, s1)" by (cases "prepare W lg value s0")
  have k1: "good s1 \<and> log_le lg (objs s0) (objs s1)"
    using keeps_NoneD [OF io_relD [OF keeps_reading(2) p]] k0 by blast
  consider "s' = s0" | "s' = s1" | e i where "appendLoop (nat (maxRetries lg)) W lg e i s1 = (r, s')"
    using assms(1) c p by (auto simp: Append_def io_bind_def io_check_def split: option.splits sum.splits)
  then show ?thesis
    using k0 k1 appendLoop_keeps [OF _ _ assms(3)] log_le_trans by cases blast+
qed

text \<open>What success means for the abstract log.\<close>

lemma AppendTo_log:
  assumes "AppendTo W lg base value s = (Inr sn, s')" and "good s" and "reads_back lg"
    and "held lg (objs s) base" and "log_is lg (objs s) sns"
  obtains ext where "log_is lg (objs s') (sns @ ext)" and "nat (snapRevision base) < length (sns @ ext)"
    and "(sns @ ext) ! nat (snapRevision base) = sn"
    and "\<forall>b. base = Some b \<longrightarrow> sns ! nat (snapRevision base - 1) = b"
proof -
  note ok = held_ok [OF assms(4)]
  obtain event ident s1 where a: "appendPrepared W lg base event ident s1 = (Inr sn, s')" and "good s1"
    by (rule AppendTo_Inr [OF assms(1,2) ok])
  note ap = appendPrepared_Inr [OF this ok]
  obtain ext where l: "log_is lg (objs s') (sns @ ext)"
    using AppendTo_keeps_log [OF assms] by blast
  note st = log_is_stored [OF l ap(1)]
  have "objs s' (logKey lg (Revision (s_record sn))) = Some (s_body sn)" using ap(2,3) by simp
  note st = st [OF this]
  have "0 \<le> snapRevision base" using ap(2) st(1) by simp
  with st ap(2) have "nat (snapRevision base) < length (sns @ ext)"
    "(sns @ ext) ! nat (snapRevision base) = sn" by auto
  moreover have "sns ! nat (snapRevision base - 1) = b" if "base = Some b" for b
    using log_is_stored(3) [OF assms(5), of b] assms(4) that by (simp add: held_def snapRevision_def)
  ultimately show ?thesis using that l by blast
qed

lemma Append_log:
  assumes "Append W lg value s = (Inr rc, s')" and "good s" and "reads_back lg"
    and "log_is lg (objs s) sns"
  obtains ext where "log_is lg (objs s') (sns @ ext)" and "rc \<in> s_record ` set ext"
    and "Revision rc \<le> int (length (sns @ ext))"
    and "s_record ((sns @ ext) ! nat (Revision rc - 1)) = rc"
proof -
  from Append_keeps [OF assms(1-3)] assms(4) obtain ext where l: "log_is lg (objs s') (sns @ ext)"
    by (auto simp: log_le_def)
  from Append_Inr [OF assms(1,2)] obtain sn where sn: "snap_ok lg sn" "s_record sn = rc"
      "objs s' (logKey lg (Revision rc)) = Some (s_body sn)"
      "\<forall>r. valid_rev r \<longrightarrow> objs s (logKey lg r) \<noteq> None \<longrightarrow> r < Revision rc" by blast
  note st = log_is_stored [OF l sn(1), unfolded sn(2), OF sn(3)]
  have "int (length sns) < Revision rc"
  proof (cases "sns = []")
    case True
    with st(1) show ?thesis by simp
  next
    case False
    from log_is_last [OF assms(4) this] sn(4) show ?thesis by blast
  qed
  then have i: "length sns \<le> nat (Revision rc - 1)" "nat (Revision rc - 1) < length (sns @ ext)"
    using st(2) by auto
  then have "sn \<in> set ext" using st(3) by (auto simp: nth_append intro: nth_mem)
  then have "rc \<in> s_record ` set ext" using sn(2) by blast
  with l st(2) show ?thesis using that st(3) sn(2) by blast
qed

lemma LoadHead_log:
  assumes "LoadHead W lg s = (Inr hd', s')" and "good s" and "log_is lg (objs s) sns"
  obtains ext where "log_is lg (objs s') (sns @ ext)"
    and "case hd' of None \<Rightarrow> sns = []
      | Some sn \<Rightarrow> \<exists>n\<le>length ext. sns @ take n ext \<noteq> [] \<and> last (sns @ take n ext) = sn"
proof -
  have "log_le lg (objs s) (objs s')"
    using keeps_NoneD [OF io_relD [OF keeps_reading(1) assms(1)] assms(2)] by blast
  with assms(3) obtain ext where l: "log_is lg (objs s') (sns @ ext)" by (auto simp: log_le_def)
  note h = LoadHead_Inr [OF assms(1,2)]
  have "case hd' of None \<Rightarrow> sns = []
      | Some sn \<Rightarrow> \<exists>n\<le>length ext. sns @ take n ext \<noteq> [] \<and> last (sns @ take n ext) = sn"
  proof (cases hd')
    case None
    have False if "sns \<noteq> []"
      using log_is_last [OF assms(3) that] h None by auto
    with None show ?thesis by auto
  next
    case (Some sn)
    with h have sn: "snap_ok lg sn" "objs s' (logKey lg (Revision (s_record sn))) = Some (s_body sn)"
        "\<forall>r. valid_rev r \<longrightarrow> objs s (logKey lg r) \<noteq> None \<longrightarrow> r \<le> Revision (s_record sn)" by auto
    note st = log_is_stored [OF l sn(1,2)]
    let ?r = "nat (Revision (s_record sn))"
    have "length sns \<le> ?r"
    proof (cases "sns = []")
      case False
      from log_is_last [OF assms(3) this] sn(3) have "int (length sns) \<le> Revision (s_record sn)" by blast
      then show ?thesis by simp
    qed simp
    then have t: "sns @ take (?r - length sns) ext = take ?r (sns @ ext)" by simp
    have r: "0 < ?r" "?r \<le> length (sns @ ext)" using st(1,2) by auto
    then have "take ?r (sns @ ext) \<noteq> []" by auto
    moreover have "last (take ?r (sns @ ext)) = (sns @ ext) ! (?r - 1)"
      using r by (intro last_take_nth) auto
    moreover have "?r - 1 = nat (Revision (s_record sn) - 1)" by simp
    ultimately show ?thesis
      using Some st(3) t r by (auto intro!: exI [of _ "?r - length sns"])
  qed
  then show ?thesis using that l by blast
qed

end

subsection \<open>Scans read the log\<close>

lemma linked_list:
  assumes "xs \<noteq> []" and "\<forall>i<length xs. validateProjection lg (xs ! i) = Inr (a + int i)"
    and "\<forall>i. Suc i < length xs \<longrightarrow> PreviousRecordHash (xs ! Suc i) = p_RecordHash (xs ! i)"
    and "h \<noteq> [] \<longrightarrow> PreviousRecordHash (hd xs) = h"
  shows "linked lg xs (a, h) (a + int (length xs), p_RecordHash (last xs))"
  using assms
proof (induction xs arbitrary: a h)
  case (Cons x xs)
  have x: "validateProjection lg x = Inr a" using Cons.prems(2) by force
  show ?case
  proof (cases "xs = []")
    case True
    with x Cons.prems(4) show ?thesis by simp
  next
    case False
    have "linked lg xs (a + 1, p_RecordHash x) (a + 1 + int (length xs), p_RecordHash (last xs))"
    proof (rule Cons.IH [OF False])
      show "\<forall>i<length xs. validateProjection lg (xs ! i) = Inr (a + 1 + int i)"
        using Cons.prems(2) by (auto simp: algebra_simps dest: spec [of _ "Suc _"])
      show "\<forall>i. Suc i < length xs \<longrightarrow> PreviousRecordHash (xs ! Suc i) = p_RecordHash (xs ! i)"
        using Cons.prems(3) by (auto dest: spec [of _ "Suc _"])
      show "p_RecordHash x \<noteq> [] \<longrightarrow> PreviousRecordHash (hd xs) = p_RecordHash x"
        using Cons.prems(3) False by (auto simp: hd_conv_nth dest: spec [of _ 0])
    qed
    with x Cons.prems(4) False show ?thesis by (simp add: algebra_simps)
  qed
qed simp

lemma linked_determined:
  assumes "linked lg ps a (n, h)" and "linked lg qs b (n, h)" and "length ps = length qs"
  shows "ps = qs \<or> (\<exists>a b. collision lg a b)"
proof (cases "ps = []")
  case True
  with assms(3) show ?thesis by simp
next
  case False
  then obtain ps' p where p: "ps = ps' @ [p]" by (cases ps rule: rev_cases) auto
  from assms(3) p obtain qs' q where q: "qs = qs' @ [q]" by (cases qs rule: rev_cases) auto
  from linked_rev_determined [OF assms(1,2) [unfolded p q]] assms(3) p q show ?thesis by auto
qed

text \<open>The commits of revisions \<open>f..n\<close> of a log.\<close>

definition log_slice :: "'a snap list \<Rightarrow> nat \<Rightarrow> nat \<Rightarrow> 'a snap list" where
  "log_slice sns f n = drop (f - 1) (take n sns)"

lemma log_slice_linked:
  assumes l: "log_is lg m sns" and n: "1 \<le> f" "f \<le> n" "n \<le> length sns"
  shows "linked lg (map (\<lambda>sn. project (s_commit sn)) (log_slice sns f n)) (int f, [])
    (int n + 1, c_RecordHash (s_commit (sns ! (n - 1))))"
proof -
  let ?xs = "map (\<lambda>sn. project (s_commit sn)) (log_slice sns f n)"
  have len: "length ?xs = n - (f - 1)" using n by (simp add: log_slice_def)
  have nth: "?xs ! i = project (s_commit (sns ! (f - 1 + i)))" if "i < n - (f - 1)" for i
    using that n by (simp add: log_slice_def)
  have v: "validateProjection lg (?xs ! i) = Inr (int f + int i)" if "i < length ?xs" for i
  proof -
    have i: "f - 1 + i < length sns" "int (f - 1 + i) + 1 = int f + int i" using that len n by auto
    from recordOf_Inr(1) [OF snap_okD(4) [OF log_isD(3) [OF l i(1)]]] log_isD(4) [OF l i(1)] i(2)
    show ?thesis using nth that len by simp
  qed
  have c: "PreviousRecordHash (?xs ! Suc i) = p_RecordHash (?xs ! i)" if "Suc i < length ?xs" for i
  proof -
    have "Suc (f - 1 + i) < length sns" using that len n by auto
    from log_isD(5) [OF l this] show ?thesis using nth that len by (simp add: project_def)
  qed
  have ne: "?xs \<noteq> []" using len n by auto
  then have "last ?xs = project (s_commit (sns ! (n - 1)))"
    using nth [of "n - (f - 1) - 1"] len n by (simp add: last_conv_nth)
  moreover have "int f + int (length ?xs) = int n + 1" using len n by simp
  moreover have "linked lg ?xs (int f, []) (int f + int (length ?xs), p_RecordHash (last ?xs))"
    using ne v c by (intro linked_list) auto
  ultimately show ?thesis by (simp add: project_def)
qed

text \<open>A chain of validated records that ends with a commit of the log is the log's, or gives a collision.\<close>

lemma slice_determined:
  assumes l: "log_is lg m sns" and n: "1 \<le> f" "f \<le> int n" "n \<le> length sns"
    and ps: "linked lg ps (f, []) (int n + 1, c_RecordHash (s_commit (sns ! (n - 1))))"
    and rcs: "map (recordOf lg) ps = map Inr rcs"
  shows "rcs = map s_record (log_slice sns (nat f) n) \<or> (\<exists>a b. collision lg a b)"
proof -
  let ?xs = "log_slice sns (nat f) n"
  have "1 \<le> nat f" "nat f \<le> n" using n by auto
  from log_slice_linked [OF l this n(3)] n
  have qs: "linked lg (map (\<lambda>sn. project (s_commit sn)) ?xs) (f, [])
      (int n + 1, c_RecordHash (s_commit (sns ! (n - 1))))" by simp
  have "length ps = length (map (\<lambda>sn. project (s_commit sn)) ?xs)"
    using linked_length [OF ps] linked_length [OF qs] by simp
  from linked_determined [OF ps qs this] show ?thesis
  proof
    assume ps: "ps = map (\<lambda>sn. project (s_commit sn)) ?xs"
    have "recordOf lg (project (s_commit x)) = Inr (s_record x)" if x: "x \<in> set ?xs" for x
    proof -
      have "x \<in> set sns" using x unfolding log_slice_def by (meson in_set_dropD in_set_takeD)
      then show ?thesis using snap_okD(4) log_isD(3) [OF l] by (metis in_set_conv_nth)
    qed
    then have "map (recordOf lg) ps = map Inr (map s_record ?xs)" unfolding ps by simp
    then have "map Inr rcs = (map Inr (map s_record ?xs) :: (goerr + 'a recd) list)" using rcs by simp
    then have "rcs = map s_record ?xs" by (rule map_injective) (simp add: inj_def)
    then show ?thesis by simp
  qed simp
qed

text \<open>
  A scan of a stored commit, through to its own record, yields the log's batches from the first
  revision asked for to that commit, or the scan has met a SHA-256 collision.
\<close>

lemma Scan_log:
  assumes l: "log_is lg m sns" and n: "1 \<le> n" "n \<le> length sns"
    and r: "1 \<le> First r" "First r \<le> int n" "int n \<le> Last r"
    and sc: "Scan (lift_world W) lg (Some (sns ! (n - 1))) r (Some collect) (s, []) = (Inr (), (s', out))"
  shows "out = map s_record (log_slice sns (nat (First r)) n) \<or> (\<exists>a b. collision lg a b)"
proof -
  have i: "n - 1 < length sns" "int (n - 1) + 1 = int n" using n by auto
  note ok = log_isD(3,4) [OF l i(1), unfolded i(2)]
  have z: "r \<noteq> zeroRange" using r(1) by (auto simp: zeroRange_def)
  have mn: "min (Last r) (Revision (s_record (sns ! (n - 1)))) + 1 = int n + 1"
      "Revision (s_record (sns ! (n - 1))) \<le> Last r" "First r \<le> Revision (s_record (sns ! (n - 1)))"
    using ok(2) r by auto
  from beside.Scan_run [OF sc ok(1) z mn(3), unfolded mn(1)] mn(2) obtain ps rcs where
    q: "map (recordOf lg) ps = map Inr rcs" "run_over snd collect rcs (s, []) (s', out)"
      "linked lg ps (First r, []) (int n + 1, c_RecordHash (s_commit (sns ! (n - 1))))"
    by blast
  have "out = rcs" using run_over_collect [OF q(2)] by simp
  with slice_determined [OF l r(1,2) n(2) q(3,1)] show ?thesis by simp
qed

text \<open>The same for a projection: a sync folds in the log's batches after its revision.\<close>

lemma SyncTo_log:
  assumes l: "log_is lg m sns" and n: "1 \<le> n" "n \<le> length sns" and r: "0 \<le> st_revision (snd x)"
    and sy: "SyncTo W lg ap (Some (sns ! (n - 1))) x = (Inr u, x')"
  shows "st_revision (snd x') = int n \<and>
    (foldItems ap (st_value (snd x)) (concat (map (\<lambda>sn. Value (s_record sn)) (drop (nat (st_revision (snd x))) (take n sns))))
        = Some (st_value (snd x')) \<or> (\<exists>a b. collision lg a b))"
proof -
  have i: "n - 1 < length sns" "int (n - 1) + 1 = int n" using n by auto
  note ok = log_isD(3,4) [OF l i(1), unfolded i(2)]
  let ?r = "st_revision (snd x)"
  have sr: "snapRevision (Some (sns ! (n - 1))) = int n" using ok(2) by (simp add: snapRevision_def)
  have "case Some (sns ! (n - 1)) of None \<Rightarrow> True | Some sn \<Rightarrow> snap_ok lg sn" using ok(1) by simp
  note s = SyncTo_Inr [OF sy this r, unfolded sr]
  from s(3) obtain qs rcs h where q: "map (recordOf lg) qs = map Inr rcs"
      "linked lg qs (?r + 1, []) (int n + 1, h)"
      "qs \<noteq> [] \<longrightarrow> h = c_RecordHash (s_commit (sns ! (n - 1)))"
      "foldItems ap (st_value (snd x)) (concat (map Value rcs)) = Some (st_value (snd x'))"
    by auto
  show ?thesis
  proof (cases "qs = []")
    case True
    with q have "?r = int n" "rcs = []" by auto
    with q(4) s(1) show ?thesis by simp
  next
    case False
    then have "?r + 1 \<le> int n" using linked_length [OF q(2)] by (cases qs) auto
    moreover have "nat (?r + 1) - 1 = nat ?r" using r by simp
    ultimately show ?thesis
      using slice_determined [OF l _ _ n(2), of "?r + 1" qs rcs] q False r s(1)
      by (auto simp: log_slice_def comp_def)
  qed
qed

end
