(* ===== verification/Writers.thy ===== *)
theory Writers
  imports Protocol MemWorld
begin

section \<open>The in-memory store with orderly writers\<close>

text \<open>
  The in-memory world satisfies the contract of \<open>log_store\<close> when the other writers of its schedule
  keep the log: \<open>orderly\<close> says of each scheduled object, at the time it would be written, that under
  a vacant key it extends the log or is foreign to it. The next commit of a log is orderly, so
  schedules in which another client wins the race for a revision are covered.
\<close>

primrec orderly :: "'a log \<Rightarrow> env_event list \<Rightarrow> (string \<rightharpoonup> bytes) \<Rightarrow> bool" where
  "orderly lg [] m = True"
| "orderly lg (ev # evs) m =
     (case ev of
        Other k v \<Rightarrow>
          (\<forall>m'. m \<subseteq>\<^sub>m m' \<longrightarrow> (if m' k = None then log_le lg m' (m'(k \<mapsto> v)) else orderly lg evs m'))
      | _ \<Rightarrow> orderly lg evs m)"

lemma orderly_mono: "orderly lg evs m \<Longrightarrow> m \<subseteq>\<^sub>m m' \<Longrightarrow> orderly lg evs m'"
  by (induction evs arbitrary: m m') (auto split: env_event.splits intro: map_le_trans)

definition log_good :: "'a log \<Rightarrow> mem_state \<Rightarrow> bool" where
  "log_good lg x \<longleftrightarrow> mem_good x \<and> orderly lg (events (fst x)) (mem_objs x)"

definition steady :: "mem_state \<Rightarrow> mem_state \<Rightarrow> bool" where
  "steady x x' \<longleftrightarrow> snd x' = snd x \<and> events (fst x') = events (fst x)"

interpretation steady: state_preorder steady
  by unfold_locales (auto simp: steady_def)

lemma onCtx_steady: "onCtx env_ctx x = (e, x') \<Longrightarrow> steady x x'"
  by (auto simp: onCtx_def env_ctx_def steady_def split: prod.splits option.splits nat.splits)

lemma steady_check: "io_rel steady (io_check (onCtx env_ctx))"
  by (intro steady.rel_check onCtx_steady)

lemma steady_poll: "io_rel steady (io_poll (onCtx env_ctx))"
  by (rule io_relI) (metis io_poll_eq_iff onCtx_steady)

lemma memList_steady: "memList env_ctx p n x = (r, x') \<Longrightarrow> steady x x'"
  unfolding memList_def
  by (erule io_relD [rotated], intro steady.rel_bind steady_check steady.rel_lift)
     (auto intro!: io_relI steady.R_refl)

lemma memReader_steady: "memReader env_ctx b x = (r, x') \<Longrightarrow> steady x x'"
  unfolding memReader_def
  by (erule io_relD [rotated], intro steady.rel_bind steady.rel_option steady.rel_ret steady_poll)

lemma memGet_steady: "memGet env_ctx k x = (r, x') \<Longrightarrow> steady x x'"
  unfolding memGet_def
  by (erule io_relD [rotated], intro steady.rel_bind steady_check steady.rel_option steady.rel_fail)
     (auto intro!: io_relI steady.R_refl dest: memReader_steady)

lemma memCreate_steady:
  assumes "memCreate env_ctx k (Some (bytes_source v)) x = (r, x')"
  shows "steady x x' \<or> (\<exists>x1. steady x x1 \<and> memPut k v x1 = (err_of r, x'))"
proof (cases r)
  case (Inl e)
  with assms show ?thesis
    by (auto simp: memCreate_def readSource_def bytes_source_def err_of_def io_bind_eq_Inl_iff
        io_bind_eq_Inr_iff simp del: split_paired_Ex dest!: onCtx_steady) (blast intro: steady.R_trans)+
next
  case (Inr u)
  with assms show ?thesis
    by (auto simp: memCreate_def readSource_def bytes_source_def err_of_def
        io_bind_eq_Inr_iff simp del: split_paired_Ex dest!: onCtx_steady) (blast intro: steady.R_trans)+
qed

subsection \<open>Turns of the environment\<close>

lemma steady_good: "steady x x' \<Longrightarrow> log_good lg x \<Longrightarrow> log_good lg x' \<and> mem_objs x' = mem_objs x"
  by (simp add: steady_def log_good_def mem_good_def mem_objs_def)

lemma memPut_objs:
  "mem_objs (snd (memPut k v x)) = (if mem_objs x k = None then (mem_objs x)(k \<mapsto> v) else mem_objs x)"
  "fst (snd (memPut k v x)) = fst x"
  by (auto simp: memPut_def mem_objs_def split: option.splits)

lemma memPut_good: "mem_good x \<Longrightarrow> mem_good (snd (memPut k v x))"
  by (simp add: mem_good_def memPut_ok)

lemma put_good:
  assumes "log_good lg x"
  shows "log_good lg (snd (memPut k v x))"
proof -
  have "mem_objs x \<subseteq>\<^sub>m mem_objs (snd (memPut k v x))"
    by (auto simp: memPut_objs map_le_def dom_def)
  from orderly_mono [OF _ this] show ?thesis
    using assms memPut_good memPut_objs(2) unfolding log_good_def by metis
qed

lemma turn_log:
  assumes "env_turn x = (b, x')" and "log_good lg x"
  shows "log_good lg x' \<and> log_le lg (mem_objs x) (mem_objs x')"
proof (cases "events (fst x)")
  case Nil
  with assms show ?thesis by (auto simp: env_turn_def)
next
  case (Cons ev evs)
  let ?x1 = "((fst x)\<lparr>events := evs\<rparr>, snd x)"
  have o1: "mem_objs ?x1 = mem_objs x" "mem_good ?x1 = mem_good x" by (simp_all add: mem_objs_def mem_good_def)
  show ?thesis
  proof (cases ev)
    case (Other k v)
    with assms(1) Cons have x': "x' = snd (memPut k v ?x1)" by (simp add: env_turn_def)
    have ord: "if m' k = None then log_le lg m' (m'(k \<mapsto> v)) else orderly lg evs m'"
      if "mem_objs x \<subseteq>\<^sub>m m'" for m'
      using assms(2) Cons Other that by (simp add: log_good_def del: if_split)
    have le: "mem_objs x \<subseteq>\<^sub>m mem_objs x'" and has: "mem_objs x' k \<noteq> None"
      unfolding x' memPut_objs o1 by (auto simp: map_le_def dom_def)
    have "events (fst x') = evs" unfolding x' memPut_objs by simp
    moreover have "orderly lg evs (mem_objs x')" using ord [OF le] has by simp
    moreover have "mem_good x'" unfolding x' using assms(2) o1(2) by (intro memPut_good) (simp add: log_good_def)
    ultimately have "log_good lg x'" by (simp add: log_good_def)
    moreover have "log_le lg (mem_objs x) (mem_objs x')"
      unfolding x' memPut_objs o1 using ord [of "mem_objs x"] by auto
    ultimately show ?thesis by blast
  next
    case Quiet
    with assms Cons o1 show ?thesis by (auto simp: env_turn_def log_good_def)
  next
    case LostReply
    with assms Cons o1 show ?thesis by (auto simp: env_turn_def log_good_def)
  qed
qed

lemma lossy_steady:
  assumes "lossy m x = (r, x')" and "log_good lg x" and "\<And>x r x'. m x = (r, x') \<Longrightarrow> steady x x'"
  shows "log_good lg x' \<and> log_le lg (mem_objs x) (mem_objs x')"
proof -
  obtain b x1 where t: "env_turn x = (b, x1)" by (cases "env_turn x")
  obtain q x2 where m: "m x1 = (q, x2)" by (cases "m x1")
  have "x' = x2" using assms(1) t m by (auto simp: lossy_def)
  then show ?thesis using turn_log [OF t assms(2)] steady_good [OF assms(3) [OF m]] by auto
qed

lemma create_log:
  assumes "w_create mem_world k v x = (ce, x')" and "log_good lg x"
  shows "log_good lg x' \<and> (\<exists>m1 m2. log_le lg (mem_objs x) m1 \<and>
    (m2 = m1 \<or> m1 k = None \<and> m2 = m1(k \<mapsto> v)) \<and> log_le lg m2 (mem_objs x'))"
proof -
  obtain b x1 where t: "env_turn x = (b, x1)" by (cases "env_turn x")
  obtain q x2 where m: "memCreate env_ctx k (Some (bytes_source v)) x1 = (q, x2)"
    by (cases "memCreate env_ctx k (Some (bytes_source v)) x1")
  have x': "x' = x2" using assms(1) t m by (auto simp: mem_world_def mem_create_def lossy_def split: prod.splits)
  note t1 = turn_log [OF t assms(2)]
  from memCreate_steady [OF m] show ?thesis
  proof
    assume "steady x1 x2"
    then show ?thesis using t1 steady_good x' by (metis log_le_refl)
  next
    assume "\<exists>x3. steady x1 x3 \<and> memPut k v x3 = (err_of q, x2)"
    then obtain x3 where s: "steady x1 x3" and p: "memPut k v x3 = (err_of q, x2)" by blast
    have x2: "x2 = snd (memPut k v x3)" using p by simp
    have g3: "log_good lg x3" "mem_objs x3 = mem_objs x1" using steady_good [OF s] t1 by auto
    have "log_good lg x2" unfolding x2 by (rule put_good [OF g3(1)])
    moreover have "mem_objs x2 = mem_objs x1 \<or> mem_objs x1 k = None \<and> mem_objs x2 = (mem_objs x1)(k \<mapsto> v)"
      unfolding x2 memPut_objs g3(2) by auto
    ultimately show ?thesis using t1 x' by (metis log_le_refl)
  qed
qed

subsection \<open>The contract\<close>

lemma log_good_mem: "log_good lg x \<Longrightarrow> mem_good x"
  by (simp add: log_good_def)

lemma steps_log:
  assumes "log_good lg x"
  shows "w_ctx mem_world x = (ce, x') \<Longrightarrow> log_good lg x' \<and> log_le lg (mem_objs x) (mem_objs x')"
    and "w_list mem_world p n x = (lr, x') \<Longrightarrow> log_good lg x' \<and> log_le lg (mem_objs x) (mem_objs x')"
    and "w_get mem_world k x = (gr, x') \<Longrightarrow> log_good lg x' \<and> log_le lg (mem_objs x) (mem_objs x')"
    and "w_rand mem_world i x = (rr, x') \<Longrightarrow> log_good lg x' \<and> log_le lg (mem_objs x) (mem_objs x')"
    and "w_tmp mem_world q x = (te, x') \<Longrightarrow> log_good lg x' \<and> log_le lg (mem_objs x) (mem_objs x')"
proof -
  have st: "steady x y \<Longrightarrow> log_good lg y \<and> log_le lg (mem_objs x) (mem_objs y)" for y
    using steady_good [OF _ assms] by fastforce
  show "w_ctx mem_world x = (ce, x') \<Longrightarrow> log_good lg x' \<and> log_le lg (mem_objs x) (mem_objs x')"
    by (rule st) (simp add: mem_world_def onCtx_steady)
  show "w_list mem_world p n x = (lr, x') \<Longrightarrow> log_good lg x' \<and> log_le lg (mem_objs x) (mem_objs x')"
    by (rule lossy_steady [of "memList env_ctx p n", OF _ assms memList_steady]) (simp_all add: mem_world_def)
  show "w_get mem_world k x = (gr, x') \<Longrightarrow> log_good lg x' \<and> log_le lg (mem_objs x) (mem_objs x')"
    by (rule lossy_steady [of "memGet env_ctx k", OF _ assms memGet_steady]) (simp_all add: mem_world_def)
  show "w_rand mem_world i x = (rr, x') \<Longrightarrow> log_good lg x' \<and> log_le lg (mem_objs x) (mem_objs x')"
    by (rule st) (auto simp: mem_world_def mem_rand_def steady_def)
  show "w_tmp mem_world q x = (te, x') \<Longrightarrow> log_good lg x' \<and> log_le lg (mem_objs x) (mem_objs x')"
    by (rule st) (auto simp: mem_world_def mem_tmp_def steady_def split: option.splits nat.splits)
qed

lemma mem_log_object_store: "object_store mem_world mem_objs (log_good lg)"
proof (rule mem.strengthen)
  show "log_good lg s'" if "w_ctx mem_world s = (ce, s')" "log_good lg s" for s ce s'
    using steps_log(1) [OF that(2,1)] by blast
  show "log_good lg s'" if "w_list mem_world p n s = (lr, s')" "log_good lg s" for p n s lr s'
    using steps_log(2) [OF that(2,1)] by blast
  show "log_good lg s'" if "w_get mem_world k s = (gr, s')" "log_good lg s" for k s gr s'
    using steps_log(3) [OF that(2,1)] by blast
  show "log_good lg s'" if "w_create mem_world k v s = (ce, s')" "log_good lg s" for k v s ce s'
    using create_log [OF that] by blast
  show "log_good lg s'" if "w_rand mem_world i s = (rr, s')" "log_good lg s" for i s rr s'
    using steps_log(4) [OF that(2,1)] by blast
  show "log_good lg s'" if "w_tmp mem_world q s = (te, s')" "log_good lg s" for q s te s'
    using steps_log(5) [OF that(2,1)] by blast
qed (rule log_good_mem)

interpretation writers: log_store mem_world mem_objs "log_good lg" lg for lg
proof (rule log_store.intro [OF mem_log_object_store], unfold_locales)
  show "log_le lg (mem_objs s) (mem_objs s')" if "w_ctx mem_world s = (ce, s')" "log_good lg s" for s ce s'
    using steps_log(1) [OF that(2,1)] by blast
  show "log_le lg (mem_objs s) (mem_objs s')" if "w_list mem_world p n s = (lr, s')" "log_good lg s" for p n s lr s'
    using steps_log(2) [OF that(2,1)] by blast
  show "log_le lg (mem_objs s) (mem_objs s')" if "w_get mem_world k s = (gr, s')" "log_good lg s" for k s gr s'
    using steps_log(3) [OF that(2,1)] by blast
  show "log_le lg (mem_objs s) (mem_objs s')" if "w_rand mem_world i s = (rr, s')" "log_good lg s" for i s rr s'
    using steps_log(4) [OF that(2,1)] by blast
  show "log_le lg (mem_objs s) (mem_objs s')" if "w_tmp mem_world q s = (te, s')" "log_good lg s" for q s te s'
    using steps_log(5) [OF that(2,1)] by blast
  show "\<exists>m1 m2. log_le lg (mem_objs s) m1 \<and> (m2 = m1 \<or> m1 k = None \<and> m2 = m1(k \<mapsto> v)) \<and>
      log_le lg m2 (mem_objs s')" if "w_create mem_world k v s = (ce, s')" "log_good lg s" for k v s ce s'
    using create_log [OF that] by blast
qed

text \<open>The next commit of a log is an orderly event.\<close>

lemma next_commit_orderly:
  assumes "log_is lg m sns" and "snapshot lg k body = Inr sn"
    and "Revision (s_record sn) = int (length sns) + 1"
    and "sns \<noteq> [] \<Longrightarrow> PreviousRecordHash (project (s_commit sn)) = c_RecordHash (s_commit (last sns))"
    and "\<And>m'. m \<subseteq>\<^sub>m m' \<Longrightarrow> m' k \<noteq> None \<Longrightarrow> orderly lg evs m'"
  shows "orderly lg (Other k body # evs) m"
proof -
  have "log_le lg m' (m'(k \<mapsto> body))" if le: "m \<subseteq>\<^sub>m m'" and n: "m' k = None" for m'
  proof -
    have "log_is lg (m'(k \<mapsto> body)) (xs @ [sn])" if l: "log_is lg m' xs" for xs
    proof -
      note f = snapshot_Inr [OF assms(2)]
      have "\<not> int (length sns) + 1 \<le> int (length xs)"
        using log_isD(1) [OF l f(1)] n f(2) assms(3) by simp
      moreover have "length sns \<le> length xs"
      proof (cases "sns = []")
        case False
        from log_is_last [OF assms(1) this] le
        have "m' (logKey lg (int (length sns))) \<noteq> None" "valid_rev (int (length sns))"
          by (auto simp: map_le_def dom_def)
        with log_isD(1) [OF l] show ?thesis by simp
      qed simp
      ultimately have len: "length xs = length sns" by simp
      have "xs = sns"
      proof (rule nth_equalityI [OF len])
        fix i
        assume i: "i < length xs"
        then have i': "i < length sns" using len by simp
        have "m' (logKey lg (int i + 1)) = m (logKey lg (int i + 1))"
          using log_isD(2) [OF assms(1) i'] le by (auto simp: map_le_def dom_def)
        then show "xs ! i = sns ! i"
          using log_isD(2,3,4) [OF assms(1) i'] log_isD(2,3,4) [OF l i] by (intro snap_ok_unique) auto
      qed
      then show ?thesis using log_is_extend [OF l assms(2) _ n] assms(3,4) by simp
    qed
    then show ?thesis using n by (auto simp: log_le_def map_le_def)
  qed
  then show ?thesis using assms(5) by simp
qed

end
