(* ===== verification/DemoRuns.thy ===== *)
theory DemoRuns
  imports Demo Writers
begin

section \<open>Runs of the concrete instance\<close>

text \<open>
  Reads, scans and appends of the two-commit log over the in-memory store, evaluated: the inputs
  at which the theorems about successful operations are applied.
\<close>

lemma demo_outCommit_inj:
  "outCommit c = outCommit d \<Longrightarrow> Previous c = None \<Longrightarrow> Previous d = None \<Longrightarrow>
     c_Frontier c = [] \<Longrightarrow> c_Frontier d = [] \<Longrightarrow> c = d"
  by (simp add: outCommit_def)

lemma demo_reads_back: "reads_back demoLog"
  unfolding reads_back_def
proof (intro allI impI)
  fix c b
  assume "json_print (plat demoLog) (outCommit c) = Some b"
  then have "outCommit c = outCommit demoCommit1 \<and> b = ''one'' \<or> outCommit c = outCommit demoCommit2 \<and> b = ''two'' \<or>
      outCommit c = outCommit demoRival \<and> b = ''uno''"
    by (auto simp: demoPlatform_def demoPrint_def outCommit_def split: if_splits)
  then show "\<exists>pr rd. json_parse (plat demoLog) b = Some (readback pr rd (outCommit c))"
    by (auto simp: demoPlatform_def demoParse_def demoTree_def
        intro!: exI [of _ "\<lambda>_. []"] exI [of _ "\<lambda>_. JNull"])
qed

lemma demo_Append1: "Append mem_world demoLog [7] mem_empty = (Inr (s_record demoSnap1), demoState1)"
proof -
  have p: "prepare mem_world demoLog [7] mem_empty = (Inr (''[7]'', demoID), (calm\<lparr>rng := 1\<rparr>, snd mem_empty))"
    using demo_prepare [of mem_empty] demo_ids by (simp add: mem_empty_def calm_def)
  let ?x = "(calm\<lparr>rng := 1\<rparr>, snd mem_empty)"
  have q: "quiet ?x" by (simp add: quiet_def calm_def)
  have a: "appendPrepared mem_world demoLog None ''[7]'' demoID ?x = (Inr demoSnap1, demoState1)"
    using demo_AppendTo1 p by (simp add: AppendTo_def io_bind_def)
  have "w_list mem_world (logPrefix demoLog) 1 ?x = (Inr [], ?x)"
    by (subst quiet_list [OF q]) (simp_all add: mem_empty_def mem_ok_def)
  then have h: "LoadHead mem_world demoLog ?x = (Inr None, ?x)"
    using q by (simp add: LoadHead_def io_bind_def io_wrap_def)
  have r: "nat (maxRetries demoLog) = 0" by (simp add: demoLog_def)
  show ?thesis
    unfolding Append_def r appendLoop.simps by (simp add: io_bind_def p h a io_try_def del: One_nat_def)
qed

lemma demo_LoadRevision: "LoadRevision mem_world demoLog 1 demoState1 = (Inr demoSnap1, demoState1)"
proof -
  have "getObject mem_world (demoKey 1) False demoState1 = (Inr ''one'', demoState1)"
    by (rule quiet_getObject) (simp_all add: demoState1_def quiet_def calm_def)
  then show ?thesis by (simp add: LoadRevision_def io_bind_def demo_snap1 fail_if_def MaxRevision_def)
qed

text \<open>A callback that collects what it is given in a list of its own.\<close>

lemma demo_Scan:
  assumes "y (s_record demoSnap1) (demoState1, u) = (Inr (), (demoState1, u'))"
  shows "Scan (lift_world mem_world) demoLog (Some demoSnap1) rangeAll (Some y) (demoState1, u) =
     (Inr (), (demoState1, u'))"
proof -
  let ?W = "lift_world mem_world"
  have c: "io_check (w_ctx (lift_world mem_world)) (demoState1, u) = (Inr (), (demoState1, u))" for u :: 'b
    by (simp add: io_check_def lift_world_def lift_op_def quiet_ctx)
  have c2: "io_check (w_ctx (lift_world (lift_world mem_world))) ((demoState1, u), v) = (Inr (), ((demoState1, u), v))"
    for u :: 'b and v :: scanVars
    by (simp add: io_check_def lift_world_def lift_op_def quiet_ctx)
  have p: "project (s_commit demoSnap1) = project demoCommit1" "c_Frontier (s_commit demoSnap1) = []"
      "PreviousRecordHash (project demoCommit1) = zeroHash" "parseRevision (p_Revision (project demoCommit1)) = Inr 1"
    by (simp_all add: demoSnap1_def demoCommit1_def project_def)
  have s: "snapRevision (Some demoSnap1) = 1" by (simp add: snapRevision_def demoSnap1_def)
  show ?thesis
    by (simp add: Scan_def io_bind_def c rangeAll_def zeroRange_def Let_def fail_if_def MaxRevision_def s
        demo_ok1 p demo_frontier1 run_local_def scanBody_def frontierRefs_def emit_def c2 demo_record1
        lift_op_def assms)
qed

definition demoSum :: "nat \<Rightarrow> nat \<Rightarrow> nat \<times> goerr option" where
  "demoSum v e = (v + e, if e = 0 then Some (Msg ''zero event'') else None)"

lemma demo_SyncTo:
  "SyncTo mem_world demoLog demoSum (Some demoSnap1)
     (demoState1, \<lparr>st_value = 0, st_revision = 0, st_err = None\<rparr>) =
   (Inr (), (demoState1, \<lparr>st_value = 7, st_revision = 1, st_err = None\<rparr>))"
proof -
  let ?u = "\<lparr>st_value = 0, st_revision = 0, st_err = None\<rparr> :: nat pstate"
  have "applyRecord demoSum (s_record demoSnap1) (demoState1, ?u) =
      (Inr (), (demoState1, \<lparr>st_value = 7, st_revision = 1, st_err = None\<rparr>))"
    by (simp add: applyRecord_def io_bind_def demoSnap1_def demoSum_def)
  from demo_Scan [of "applyRecord demoSum", OF this]
  have "Scan (lift_world mem_world) demoLog (Some demoSnap1) (After 0) (Some (applyRecord demoSum)) (demoState1, ?u) =
      (Inr (), (demoState1, \<lparr>st_value = 7, st_revision = 1, st_err = None\<rparr>))"
    by (simp add: After_first rangeAll_def MaxRevision_def)
  then show ?thesis
    by (simp add: SyncTo_def io_bind_def io_try_def io_check_def lift_world_def lift_op_def quiet_ctx demo_ok1
        fail_if_def) (simp add: snapRevision_def demoSnap1_def lift_world_def)
qed

lemma still_getObject:
  assumes "w_ctx W x = (None, x)" and "w_get W k x = (Inr \<lparr>s_bytes = b, s_reads = n, s_rerr = None, s_cerr = None\<rparr>, x)"
  shows "getObject W k r x = (Inr b, x)"
proof -
  have "pollTimes W m x = (Inr (), x)" for m
    using assms(1) by (induction m) (simp_all add: io_bind_def io_check_def)
  with assms show ?thesis
    by (simp add: getObject_def openObject_def readStream_def io_bind_def io_check_def io_wrap_def io_try_def
        io_poll_def errors_join_def List.map_filter_def del: pollTimes.simps)
qed

lemma demo_loadRecordFile:
  "loadRecordFile mem_world demoLog demoRef1 None demoState1 = (Inr [project demoCommit1], demoState1)"
proof -
  let ?W = "lift_world mem_world :: (mem_state \<times> projection list) world"
  have q: "w_ctx mem_world demoState1 = (None, demoState1)" "w_tmp mem_world t demoState1 = (None, demoState1)" for t
    by (simp_all add: quiet_ctx quiet_tmp)
  have lift: "w_ctx (lift_world mem_world) (demoState1, u) = (None, (demoState1, u))"
      "w_tmp (lift_world mem_world) t (demoState1, u) = (None, (demoState1, u))" for t and u :: "projection list"
    using q by (simp_all add: lift_world_def lift_op_def)
  have "w_get mem_world (demoKey 1) demoState1 =
      (Inr \<lparr>s_bytes = ''one'', s_reads = 1, s_rerr = None, s_cerr = None\<rparr>, demoState1)"
    by (subst quiet_get) (simp_all add: demoState1_def quiet_def calm_def)
  then have g: "getObject ?W (demoKey 1) True (demoState1, []) = (Inr ''one'', (demoState1, []))"
    by (intro still_getObject lift) (simp add: lift_world_def lift_op_def)
  have r: "Key demoRef1 = demoKey 1" "SHA256 demoRef1 = zeroHash" "Level demoRef1 = 0"
      "FirstPrevHash demoRef1 = zeroHash" "LastRecordHash demoRef1 = zeroHash"
    by (simp_all add: demoRef1_def)
  have p: "PreviousRecordHash (project demoCommit1) = zeroHash" "p_RecordHash (project demoCommit1) = zeroHash"
    by (simp_all add: demoCommit1_def project_def)
  have "loadCommitRef ?W demoLog demoRef1 None (demoState1, []) = (Inr demoCommit1, (demoState1, []))"
    using g by (simp add: loadCommitRef_def io_bind_def demo_ref r p demo_decode1)
  moreover have "emitRecord mem_world p (demoState1, []) = (Inr (), (demoState1, [p]))" for p
    using lift by (simp add: emitRecord_def tempWrite_def io_bind_def io_check_def io_wrap_def)
  ultimately show ?thesis
    using q by (simp add: loadRecordFile_def io_bind_def demo_ref r still_temp(1) io_check_def run_local_def
        io_onerr_def)
qed

definition demoOpened :: "nat log" where
  "demoOpened = \<lparr>lg_id = 1, plat = demoPlatform, prefix = ''a/'', maxRetries = 32, maxEvent = 1048576\<rparr>"

lemma demo_Open:
  "Open 1 demoPlatform \<lparr>cfg_Prefix = ''/a'', cfg_StoreNil = False, MaxConflictRetries = 0, MaxEventBytes = 0\<rparr> =
     Inr demoOpened"
  by (simp add: Open_def trimSlash_def maxPrefixBytes_eq demoOpened_def utf8Tail_def)

lemma demo_print2: "demoPrint (outCommit demoCommit2) = Some ''two''"
  by (rule demo_print)

subsection \<open>The logs of these states\<close>

lemma demo_log0: "log_is demoLog (mem_objs mem_empty) []"
  by (simp add: log_is_def mem_objs_def mem_empty_def)

lemma demo_log1: "log_is demoLog (mem_objs demoState1) [demoSnap1]"
proof -
  have "mem_objs demoState1 = (mem_objs mem_empty)(demoKey 1 \<mapsto> ''one'')"
    by (simp add: mem_objs_def demoState1_def mem_empty_def)
  moreover have "log_is demoLog ((mem_objs mem_empty)(demoKey 1 \<mapsto> ''one'')) ([] @ [demoSnap1])"
    by (rule log_is_extend [OF demo_log0 demo_snap1]) (simp_all add: demoSnap1_def mem_objs_def mem_empty_def)
  ultimately show ?thesis by simp
qed

lemma demo_held: "held demoLog (mem_objs demoState1) (Some demoSnap1)"
  using log_isD(2) [OF demo_log1, of 0] demo_ok1 by (simp add: held_def demoSnap1_def)

lemma demo_log_good: "log_good demoLog demoState1" "log_good demoLog mem_empty"
  by (simp_all add: log_good_def demoState1_def mem_empty_def calm_def demo_good [unfolded demoState1_def]
      mem_good_empty [unfolded mem_empty_def calm_def] del: demo_good mem_good_empty)
     (use demo_good mem_good_empty in \<open>simp_all add: demoState1_def mem_empty_def calm_def\<close>)

end
