(* ===== verification/Progress.thy ===== *)
theory Progress
  imports LogFacts AppendFacts
begin

section \<open>What a conflict tells\<close>

text \<open>
  \<open>ErrConflict\<close> is made in one place, where an append found another writer's commit at the revision
  it tried. In a world whose own errors are never \<open>ErrConflict\<close>, no other step of an append returns
  it: a conflict is a proof of progress by somebody else, and an Append that gives up has lost to
  as many commits as it made attempts.
\<close>

subsection \<open>Decoding fails with corruption only\<close>

definition corrupt_only :: "goerr + 'b \<Rightarrow> bool" where
  "corrupt_only r \<longleftrightarrow> (\<forall>e k. r = Inl e \<longrightarrow> errors_is e k \<longrightarrow> k = ErrCorrupt)"

lemma corrupt_only_intros:
  "corrupt_only (Inr x)" "corrupt_only (fail_if b (corrupt m))"
  "corrupt_only r \<Longrightarrow> (\<And>x. r = Inr x \<Longrightarrow> corrupt_only (f x)) \<Longrightarrow> corrupt_only (ebind r f)"
  by (auto simp: corrupt_only_def ebind_eq_Inl_iff)

lemma corrupt_onlyD: "corrupt_only r \<Longrightarrow> k \<noteq> ErrCorrupt \<Longrightarrow> r = Inl e \<Longrightarrow> \<not> errors_is e k"
  unfolding corrupt_only_def by blast

lemma co_parseHexInt64: "corrupt_only (parseHexInt64 s)"
  unfolding parseHexInt64_def by (intro corrupt_only_intros)

lemma co_parseRevision: "corrupt_only (parseRevision s)"
  unfolding parseRevision_def by (intro corrupt_only_intros co_parseHexInt64)

lemma co_parseLogKey: "corrupt_only (parseLogKey lg k)"
  unfolding parseLogKey_def Let_def by (intro corrupt_only_intros co_parseHexInt64)

lemma co_validateRef: "corrupt_only (validateRef lg ref)"
  unfolding validateRef_def Let_def by (intro corrupt_only_intros co_parseRevision)

lemma co_validateProjection: "corrupt_only (validateProjection lg p)"
  unfolding validateProjection_def by (intro corrupt_only_intros co_parseRevision)

lemma co_validateFrontier: "corrupt_only (validateFrontier lg f r h)"
proof -
  have c: "corrupt_only (collectLevels f l lv)" for f l lv
    by (induction f arbitrary: l lv) (simp_all only: collectLevels.simps corrupt_only_intros)
  have k: "corrupt_only (checkRefs lg level r rs acc)" for level r rs acc
    by (induction rs arbitrary: acc) (auto intro!: corrupt_only_intros co_validateRef)
  have "corrupt_only (checkLevels lg lv r ls acc)" for lv r ls acc
    by (induction ls arbitrary: acc) (auto intro!: corrupt_only_intros k)
  then show ?thesis unfolding validateFrontier_def by (intro corrupt_only_intros c)
qed

lemma requiredFields_corrupt_only:
  "requiredFields t j = Some e \<Longrightarrow> \<forall>k. errors_is e k \<longrightarrow> k = ErrCorrupt"
  "requiredMembers fs ms = Some e' \<Longrightarrow> \<forall>k. errors_is e' k \<longrightarrow> k = ErrCorrupt"
proof (induction t j and fs ms arbitrary: e and e' rule: requiredFields_requiredMembers.induct)
  case (4 t j)
  then show ?case
    by (auto split: jval.splits dest!: firstError_SomeD) metis
qed (auto split: jval.splits if_splits option.splits)

lemma co_decodeJSON: "corrupt_only (decodeJSON lg t f b)"
  by (auto simp: decodeJSON_def decodeTree_def corrupt_only_def dest: requiredFields_corrupt_only split: option.splits)

lemma co_decodeCommit: "corrupt_only (decodeCommit lg k b)"
  unfolding decodeCommit_def
  by (intro corrupt_only_intros co_parseLogKey co_decodeJSON co_validateProjection co_validateFrontier)
    (auto intro: corrupt_only_intros)

text \<open>The event codec is the application's: its errors are asked not to be conflicts either.\<close>

definition codec_calm :: "'a log \<Rightarrow> bool" where
  "codec_calm lg \<longleftrightarrow>
     (\<forall>b e. unmarshal_batch (plat lg) b = Inl e \<longrightarrow> \<not> errors_is e ErrConflict) \<and>
     (\<forall>x e. marshal_item (plat lg) x = Inl e \<longrightarrow> \<not> errors_is e ErrConflict)"

lemma recordOf_calm: "codec_calm lg \<Longrightarrow> recordOf lg p = Inl e \<Longrightarrow> \<not> errors_is e ErrConflict"
  using corrupt_onlyD [OF co_validateProjection, of ErrConflict lg p]
  by (cases "unmarshal_batch (plat lg) (p_Event p)")
    (auto simp: recordOf_def codec_calm_def eventCodecError_def ebind_eq_Inl_iff)

lemma snapshot_calm: "codec_calm lg \<Longrightarrow> snapshot lg k b = Inl e \<Longrightarrow> \<not> errors_is e ErrConflict"
  using corrupt_onlyD [OF co_decodeCommit, of ErrConflict lg k b] recordOf_calm [of lg]
  by (auto simp: snapshot_def wrapErr_Inl ebind_eq_Inl_iff)

subsection \<open>A world without conflicts of its own\<close>

locale no_conflict =
  fixes W :: "'s world"
  assumes nc_ctx: "w_ctx W s = (Some e, s') \<Longrightarrow> \<not> errors_is e ErrConflict"
    and nc_list: "w_list W p n s = (Inl e, s') \<Longrightarrow> \<not> errors_is e ErrConflict"
    and nc_get: "w_get W k s = (Inl e, s') \<Longrightarrow> \<not> errors_is e ErrConflict"
    and nc_stream: "w_get W k s = (Inr st, s') \<Longrightarrow> s_rerr st = Some e \<or> s_cerr st = Some e \<Longrightarrow> \<not> errors_is e ErrConflict"
    and nc_create: "w_create W k v s = (Some e, s') \<Longrightarrow> \<not> errors_is e ErrConflict"
    and nc_rand: "w_rand W m s = (Inl e, s') \<Longrightarrow> \<not> errors_is e ErrConflict"
    and nc_tmp: "w_tmp W q s = (Some e, s') \<Longrightarrow> \<not> errors_is e ErrConflict"
begin

abbreviation nc :: "('t, 'b) io \<Rightarrow> bool" where
  "nc \<equiv> never ErrConflict"

lemma no_conflict_lifted: "no_conflict (lift_world W)"
  by unfold_locales
    (auto simp: lift_world_def lift_op_eq_iff dest: nc_ctx nc_list nc_get nc_stream nc_create nc_rand nc_tmp)

lemma nc_fileClose: "tempFileClose W f s = (Some e, s') \<Longrightarrow> \<not> errors_is e ErrConflict"
proof -
  assume c: "tempFileClose W f s = (Some e, s')"
  obtain a s1 where a: "w_tmp W ''close'' s = (a, s1)" by (cases "w_tmp W ''close'' s")
  obtain b s2 where b: "w_tmp W ''remove'' s1 = (b, s2)" by (cases "w_tmp W ''remove'' s1")
  have "a = Some e \<or> errors_join [a, b] = Some e"
    using c a b by (auto simp: tempFileClose_def split: if_splits)
  then show "\<not> errors_is e ErrConflict"
    using nc_tmp a b join_never [of a b e ErrConflict] by blast
qed

lemma nc_close: "tempClose W s = (Some e, s') \<Longrightarrow> \<not> errors_is e ErrConflict"
  unfolding tempClose_def by (rule nc_fileClose)

lemma nc_check: "nc (io_check (w_ctx W))" "nc (io_check (w_tmp W q))"
  by (auto intro!: never_check dest: nc_ctx nc_tmp)

lemma nc_newTemp: "nc (newTemp W)"
  unfolding newTemp_def newTempFileIn_def Let_def
  by (intro never_bind never_if never_onerr nc_check never_simple nc_fileClose)

lemmas nc_checks = nc_check nc_newTemp

lemma nc_lift: "corrupt_only r \<Longrightarrow> nc (io_lift r)"
  by (auto intro!: never_simple dest: corrupt_onlyD [where k = ErrConflict])

lemmas nc_pure = nc_lift [OF co_decodeJSON] nc_lift [OF co_validateProjection] nc_lift [OF co_validateRef]
  nc_lift [OF co_decodeCommit] nc_lift [OF co_parseRevision] nc_lift [OF co_parseLogKey] nc_lift [OF co_validateFrontier]

lemma nc_corrupt: "nc (io_fail (corrupt m))" "nc (io_lift (fail_if b (corrupt m)))"
  by (auto intro!: never_simple)

lemma nc_poll:
  assumes "\<And>s e s'. c s = (Some e, s') \<Longrightarrow> \<not> errors_is e ErrConflict"
    and "\<And>p. (\<And>e. p = Some e \<Longrightarrow> \<not> errors_is e ErrConflict) \<Longrightarrow> nc (f p)"
  shows "nc (io_bind (io_poll c) f)"
proof (rule never_bind_answer)
  show "nc (io_poll c)" by (auto simp: never_def)
  show "nc (f x)" if "io_poll c s = (Inr x, s')" for s x s'
    by (rule assms(2)) (use that assms(1) in auto)
qed

lemma nc_pollTimes: "nc (pollTimes W n)"
  by (induction n) (simp_all only: pollTimes.simps never_simple never_bind nc_checks)

definition mild :: "stream \<Rightarrow> bool" where
  "mild st \<longleftrightarrow> (\<forall>e. s_rerr st = Some e \<or> s_cerr st = Some e \<longrightarrow> \<not> errors_is e ErrConflict)"

lemma nc_open_bind:
  assumes "\<And>st. mild st \<Longrightarrow> nc (f st)"
  shows "nc (io_bind (openObject W k b) f)"
proof (rule never_bind_answer)
  show "nc (openObject W k b)"
    unfolding openObject_def
    by (intro never_bind nc_checks never_wrap) (auto simp: never_def dest: nc_get)
  show "nc (f st)" if "openObject W k b s = (Inr st, s')" for s st s'
    by (rule assms) (use that in \<open>auto simp: openObject_def io_bind_eq_Inr_iff mild_def dest: nc_stream\<close>)
qed

lemma nc_readStream: "mild st \<Longrightarrow> nc (readStream W st)"
  unfolding readStream_def
  by (intro never_bind nc_pollTimes never_simple) (auto simp: mild_def split: option.splits)

lemma nc_getObject: "nc (getObject W k b)"
  unfolding getObject_def
proof (rule nc_open_bind, rule never_bind_try, erule nc_readStream)
  fix st assume st: "mild st"
  have fin: "nc (io_lift (case errors_join [r, s_cerr st, ce] of
        Some e \<Rightarrow> Inl (Wrap (''get '' @ k) [e]) | None \<Rightarrow> Inr (s_bytes st)))"
    if "\<And>e. r = Some e \<Longrightarrow> \<not> errors_is e ErrConflict" "\<And>e. ce = Some e \<Longrightarrow> \<not> errors_is e ErrConflict" for r ce
    by (rule never_simple)
      (use that st in \<open>cases r; cases ce; cases "s_cerr st"; auto simp: mild_def errors_join_def List.map_filter_def\<close>)
  show "nc (io_bind (io_poll (w_ctx W)) (\<lambda>ce. io_lift (case errors_join [errOf (Inl e), s_cerr st, ce] of
        Some e \<Rightarrow> Inl (Wrap (''get '' @ k) [e]) | None \<Rightarrow> Inr (s_bytes st))))"
    if "\<not> errors_is e ErrConflict" for e
    by (rule nc_poll [OF nc_ctx fin]) (use that in auto)
  show "nc (io_bind (io_poll (w_ctx W)) (\<lambda>ce. io_lift (case errors_join [errOf (Inr y), s_cerr st, ce] of
        Some e \<Rightarrow> Inl (Wrap (''get '' @ k) [e]) | None \<Rightarrow> Inr (s_bytes st))))" for y :: bytes
    by (rule nc_poll [OF nc_ctx fin]) auto
qed

lemma nc_tempWrite: "nc (tempWrite W)"
  unfolding tempWrite_def by (intro never_bind nc_checks)

lemma nc_copyBody: "mild st \<Longrightarrow> nc (copyBody W k st)"
  unfolding copyBody_def by (intro never_bind never_wrap nc_readStream nc_checks never_simple) auto

lemma nc_download: "nc (download W ref)"
  unfolding download_def
proof (rule nc_open_bind, rule never_bind_try [OF nc_checks(3)], unfold sum.case)
  fix st assume st: "mild st"
  show "nc (io_defer (\<lambda>s. (s_cerr st, s)) (io_fail e))" if "\<not> errors_is e ErrConflict" for e
    by (intro never_defer never_simple that) (use st in \<open>auto simp: mild_def\<close>)
  show "nc (io_onerr (tempClose W) (io_defer (\<lambda>s. (s_cerr st, s)) (copyBody W (Key ref) st)))"
    by (intro never_onerr never_defer nc_copyBody st) (use st in \<open>auto simp: mild_def dest: nc_close\<close>)
qed

text \<open>Segments.\<close>

lemma nc_frameBlocks: "nc (frameBlocks W body pos)"
proof (induction "nat (int (length body) - pos)" arbitrary: pos rule: less_induct)
  case less
  have nonneg: "0 \<le> blockLength n" for n by (simp add: blockLength_def)
  then have "nc (frameBlocks W body (pos + 3 + blockLength (blockBits body pos)))"
    if "\<not> int (length body) - 3 < pos"
    using that nonneg [of "blockBits body pos"] by (intro less) linarith
  then show ?case
    by (subst frameBlocks.simps) (auto simp: Let_def intro!: never_bind nc_checks never_if nc_corrupt never_simple)
qed

lemma nc_decompress: "nc (decompress W lg body)"
  unfolding decompress_def singleFrame_def
  by (auto intro!: never_bind nc_checks nc_corrupt nc_frameBlocks never_simple split: option.splits sum.splits)

lemma nc_parseRecords:
  assumes "\<forall>y. yield = Some y \<longrightarrow> (\<forall>p. nc (y p))"
  shows "nc (parseRecords W lg endr yield text toks next chain)"
proof (induction "length toks" arbitrary: toks "next" chain rule: less_induct)
  case less
  have "nc (case yield of None \<Rightarrow> io_ret () | Some y \<Rightarrow> y p)" for p
    using assms by (intro never_option never_simple) simp
  then show ?case
    by (subst parseRecords.simps)
       (auto intro!: never_bind nc_checks nc_pure nc_corrupt never_if never_option
          never_simple(1-3) less readValue_shorter split: prod.splits)
qed

lemma nc_cases:
  "(\<And>a b. x = (a, b) \<Longrightarrow> never k (f1 a b)) \<Longrightarrow> never k (case x of (a, b) \<Rightarrow> f1 a b)"
  "(xs = [] \<Longrightarrow> never k m) \<Longrightarrow> (\<And>y ys. xs = y # ys \<Longrightarrow> never k (f2 y ys)) \<Longrightarrow>
     never k (case xs of [] \<Rightarrow> m | y # ys \<Rightarrow> f2 y ys)"
  "never k a1 \<Longrightarrow> never k a2 \<Longrightarrow> never k a3 \<Longrightarrow> never k a4 \<Longrightarrow> (\<And>s. t = TokString s \<Longrightarrow> never k (f3 s)) \<Longrightarrow>
     never k a5 \<Longrightarrow> never k (case t of BeginObject \<Rightarrow> a1 | EndObject \<Rightarrow> a2 | BeginArray \<Rightarrow> a3 | EndArray \<Rightarrow> a4
       | TokString s \<Rightarrow> f3 s | TokLiteral \<Rightarrow> a5)"
  by (simp_all split: prod.splits list.splits jtok.splits)

lemma nc_parseFields:
  assumes "\<forall>y. yield = Some y \<longrightarrow> (\<forall>p. nc (y p))"
  shows "nc (parseFields n W lg ref endr yield text toks seen next chain)"
proof (induction n arbitrary: toks seen "next" chain)
  case 0
  show ?case by (simp only: parseFields.simps nc_corrupt)
next
  case (Suc n)
  show ?case
    unfolding parseFields.simps
    by (intro never_if never_bind nc_checks nc_corrupt never_simple(1) never_option Suc
          nc_parseRecords [OF assms] nc_cases)
qed

lemma nc_decodeSegment:
  assumes "\<forall>y. yield = Some y \<longrightarrow> (\<forall>p. nc (y p))"
  shows "nc (decodeSegment W lg ref body yield)"
proof -
  have "nc (parseSegment W lg ref input yield)" for input
    unfolding parseSegment_def Let_def
    by (intro never_bind nc_pure nc_corrupt nc_parseFields [OF assms] nc_cases)
  then show ?thesis
    unfolding decodeSegment_def
    by (intro never_bind nc_pure nc_decompress never_bind_try nc_checks nc_corrupt never_simple) auto
qed

lemma nc_loadCommitRef: "nc (loadCommitRef W lg ref cached)"
  unfolding loadCommitRef_def
  by (intro never_bind nc_pure never_if never_simple nc_getObject nc_corrupt)

lemma nc_each: "(\<And>p. nc (yield p)) \<Longrightarrow> nc (each W yield ps)"
  by (induction ps) (auto simp: eventCodecError_def intro!: never_bind nc_checks never_wrap)

text \<open>A step on the closure's own variables does not fail.\<close>

lemma nc_own: "nc (\<lambda>x. (Inr (g x), h x))"
  by (simp add: never_def)

end

context no_conflict
begin

lemma nc_emitRecord: "never ErrConflict (emitRecord W p)"
  unfolding emitRecord_def
  by (intro never_wrap never_bind no_conflict.nc_tempWrite [OF no_conflict_lifted] nc_own)
    (simp add: eventCodecError_def)

lemma nc_loadRecordFile: "never ErrConflict (loadRecordFile W lg ref base)"
proof -
  note l = no_conflict_lifted
  have "never ErrConflict
     (if Level ref = 0
      then io_bind (loadCommitRef (lift_world W) lg ref base) (\<lambda>c. emitRecord W (project c))
      else
        io_bind (download (lift_world W) ref) (\<lambda>body.
        io_defer (tempClose (lift_world W))
          (decodeSegment (lift_world W) lg ref body (Some (emitRecord W)))))"
    by (intro never_if never_bind no_conflict.nc_loadCommitRef [OF l] no_conflict.nc_download [OF l]
        never_defer no_conflict.nc_decodeSegment [OF l] nc_emitRecord)
      (auto simp: nc_emitRecord dest: no_conflict.nc_close [OF l])
  then show ?thesis
    unfolding loadRecordFile_def
    by (intro never_bind nc_pure nc_checks never_onerr never_bind_local)
      (auto intro!: never_bind never_simple nc_checks dest: nc_close split: prod.splits)
qed

lemma nc_mergeRecord: "never ErrConflict (mergeRecord W p)"
  unfolding mergeRecord_def
  by (intro never_bind no_conflict.nc_tempWrite [OF no_conflict_lifted]) (auto simp: never_def)

lemma nc_mergeChildren: "never ErrConflict (mergeChildren W lg base ref children)"
proof -
  note l = no_conflict_lifted
  have load: "never ErrConflict (loadParts W lg base cs)" for cs
    by (induction cs) (auto intro!: never_bind no_conflict.nc_loadRecordFile [OF l] nc_own never_simple)
  have merge: "never ErrConflict (mergeParts W parts)" for parts
  proof (induction parts)
    case Nil
    show ?case by (simp only: mergeParts.simps never_simple)
  next
    case (Cons p ps)
    show ?case
      unfolding mergeParts.simps
      by (intro never_bind no_conflict.nc_each [OF l] nc_mergeRecord nc_own never_check no_conflict.nc_close [OF l] Cons)
  qed
  have "never ErrConflict (mergeGroups W lg base gs)" for gs
  proof (induction gs)
    case Nil
    show ?case by (simp only: mergeGroups.simps never_simple)
  next
    case (Cons g gs)
    show ?case
      unfolding mergeGroups.simps by (intro never_bind load merge no_conflict.nc_checks [OF l] Cons)
  qed
  then show ?thesis
    unfolding mergeChildren_def by (intro never_bind) (auto simp: never_def)
qed

lemma nc_finishStream:
  assumes "\<And>e. r = Inl e \<Longrightarrow> \<not> errors_is e ErrConflict"
  shows "never ErrConflict (finishStream W r text)"
proof -
  let ?m = "case r of Inl e \<Rightarrow> Some e | Inr x \<Rightarrow> if text = None then Some (Msg ''json: invalid value'') else None"
  have m: "\<not> errors_is x ErrConflict" if "?m = Some x" for x
    using that assms by (auto split: sum.splits if_splits)
  have fin: "nc (io_lift (case errors_join [?m, pa, pb] of
      None \<Rightarrow> Inr (the text) | Some e \<Rightarrow> Inl (eventCodecError ''encode segment'' e)))"
    if p: "\<And>e. pa = Some e \<Longrightarrow> \<not> errors_is e ErrConflict" "\<And>e. pb = Some e \<Longrightarrow> \<not> errors_is e ErrConflict" for pa pb
  proof (rule never_simple(4))
    fix e
    assume "(case errors_join [?m, pa, pb] of
      None \<Rightarrow> Inr (the text) | Some e \<Rightarrow> Inl (eventCodecError ''encode segment'' e)) = Inl e"
    then obtain e1 where e: "e = eventCodecError ''encode segment'' e1" and j: "errors_join [?m, pa, pb] = Some e1"
      by (auto split: option.splits)
    have "\<not> errors_is e1 ErrConflict"
    proof
      assume "errors_is e1 ErrConflict"
      from join_members [OF j this] obtain x where "Some x \<in> set [?m, pa, pb]" and x: "errors_is x ErrConflict" by blast
      then have "?m = Some x \<or> pa = Some x \<or> pb = Some x" by (simp only: list.set insert_iff empty_iff) metis
      with x m p show False by blast
    qed
    then show "\<not> errors_is e ErrConflict" by (simp add: e eventCodecError_def)
  qed
  show ?thesis
    unfolding finishStream_def Let_def
    by (rule nc_poll, erule nc_tmp, rule nc_poll [OF nc_ctx], assumption, rule fin)
qed

lemma nc_createAggregate: "never ErrConflict (createAggregate W lg ref body)"
  unfolding createAggregate_def
proof (rule never_bind [OF nc_checks(1)], rule nc_poll, erule nc_create)
  fix p :: "goerr option"
  assume p: "\<And>e. p = Some e \<Longrightarrow> \<not> errors_is e ErrConflict"
  have d: "never ErrConflict (io_defer (tempClose W) (decodeSegment W lg ref actual None))" for actual
    by (intro never_defer nc_decodeSegment) (auto dest: nc_close)
  show "never ErrConflict (case p of
       None \<Rightarrow> io_ret ()
     | Some ce \<Rightarrow>
         io_bind (io_try (download W ref)) (\<lambda>r. case r of
           Inl err \<Rightarrow>
             io_fail (if errors_is err ErrNotFound \<and> \<not> errors_is ce ErrExists
                      then Wrap (''create '' @ Key ref) [ce] else err)
         | Inr actual \<Rightarrow> io_defer (tempClose W) (decodeSegment W lg ref actual None)))"
  proof (cases p)
    case (Some ce)
    show ?thesis
      unfolding Some option.case
      by (rule never_bind_try [OF nc_download]) (simp_all add: d p [OF Some] never_simple)
  qed (simp add: never_simple)
qed

lemma nc_closeParts: "never ErrConflict m \<Longrightarrow> never ErrConflict (closeParts W n m)"
  by (induction n) (auto intro!: never_defer dest: nc_close)

lemma nc_createSegment: "never ErrConflict (createSegment W lg children base)"
  unfolding createSegment_def Let_def
  by (rule never_bind [OF nc_corrupt(2)], rule never_bind [OF nc_checks(3)], rule never_defer,
    rule never_bind [OF nc_pure(5)], rule never_bind_local [OF nc_mergeChildren], unfold prod.case)
   (intro nc_closeParts never_bind nc_finishStream nc_pure nc_createAggregate never_simple(1), blast, erule nc_close)

lemma nc_carry: "never ErrConflict (carry W lg b)"
proof -
  have "never ErrConflict (carryLoop W lg b ls levels carried)" for ls levels carried
    by (induction ls arbitrary: levels carried) (auto simp: Let_def intro!: never_bind never_simple nc_createSegment)
  then show ?thesis unfolding carry_def by (intro never_bind never_simple)
qed

subsection \<open>Where a conflict comes from\<close>

lemma nc_snapshot: "codec_calm lg \<Longrightarrow> never ErrConflict (io_lift (snapshot lg k b))"
  by (rule never_simple) (rule snapshot_calm)

lemma nc_LoadHead: "codec_calm lg \<Longrightarrow> never ErrConflict (LoadHead W lg)"
proof -
  assume c: "codec_calm lg"
  have l: "never ErrConflict (w_list W p n)" for p n by (auto simp: never_def dest: nc_list)
  show ?thesis
    unfolding LoadHead_def
    by (intro never_bind nc_checks never_wrap l nc_pure nc_corrupt nc_getObject nc_snapshot c never_simple(1) nc_cases) simp
qed

lemma nc_prepare: "codec_calm lg \<Longrightarrow> never ErrConflict (prepare W lg value)"
proof -
  assume c: "codec_calm lg"
  have "\<not> errors_is e ErrConflict" if "prepareItems lg b i value = Inl e" for b i e
    using prepareItems_Inl [OF that] c by (auto simp: codec_calm_def eventCodecError_def)
  then show ?thesis
    unfolding prepare_def by (intro never_bind never_simple never_wrap) (auto simp: never_def dest: nc_rand)
qed

lemma nc_appendPrepared_start: "never ErrConflict (case base of None \<Rightarrow> io_ret [] | Some b \<Rightarrow> carry W lg b)"
  by (intro never_option never_simple nc_carry)

end

subsection \<open>Progress\<close>

locale contended = object_store W objs good + no_conflict W
  for W :: "'s world" and objs :: "'s \<Rightarrow> string \<rightharpoonup> bytes" and good :: "'s \<Rightarrow> bool"
begin

lemma publish_conflict:
  assumes "publish W lg r ident c s = (Inl e, s')" and "good s" and "codec_calm lg" and "errors_is e ErrConflict"
  shows "\<exists>winner. snapshot lg (logKey lg r) (s_body winner) = Inr winner \<and>
    objs s' (logKey lg r) = Some (s_body winner) \<and> c_CommitID (s_commit winner) \<noteq> ident"
proof -
  note calm = snapshot_calm [OF assms(3), where k = "logKey lg r"]
  from assms(1,4) obtain body s1 ce s2
    where cx: "w_ctx W s = (None, s1)" and cr: "w_create W (logKey lg r) body s1 = (Some ce, s2)"
      and res: "resolveCreate W lg (logKey lg r) r ident c ce s2 = (Inl e, s')"
    unfolding publish_def Let_def
    by (auto simp: io_bind_eq_Inl_iff split: option.splits dest: nc_ctx calm)
  have g2: "good s2"
    using create_grows [OF cr] ctx_grows [OF cx] assms(2) by (simp add: grows_def)
  obtain q s3 where q: "getObject W (logKey lg r) False s2 = (q, s3)" by (cases "getObject W (logKey lg r) False s2")
  note eval = res [unfolded resolveCreate_def io_bind_def io_try_def q prod.case sum.case]
  show ?thesis
  proof (cases q)
    case (Inl err)
    then have "\<not> errors_is err ErrConflict" using neverD [OF nc_getObject] q by blast
    then have False using eval Inl assms(4) nc_create [OF cr] by (auto split: if_splits)
    then show ?thesis ..
  next
    case (Inr actual)
    show ?thesis
    proof (cases "snapshot lg (logKey lg r) actual")
      case (Inl e')
      then show ?thesis using eval Inr calm assms(4) by auto
    next
      case w: (Inr winner)
      have "c_CommitID (s_commit winner) \<noteq> ident" "s' = s3"
        using eval Inr w assms(4) by (auto simp: fail_if_def split: if_splits)
      then show ?thesis
        using getObject_ok [OF q [unfolded Inr] g2] snapshot_Inr(3) [OF w] w by auto
    qed
  qed
qed

lemma appendPrepared_conflict:
  assumes "appendPrepared W lg base event ident s = (Inl e, s')" and "good s" and "codec_calm lg"
    and "errors_is e ErrConflict" and "case base of None \<Rightarrow> True | Some b \<Rightarrow> snap_ok lg b"
  shows "\<exists>winner. snap_ok lg winner \<and> Revision (s_record winner) = snapRevision base + 1 \<and>
    objs s' (logKey lg (snapRevision base + 1)) = Some (s_body winner) \<and> c_CommitID (s_commit winner) \<noteq> ident"
proof -
  have chk: "checkSnapshot lg base = Inr ()" using assms(5) by (cases base) simp_all
  obtain frontier s1
    where ca: "(case base of None \<Rightarrow> io_ret [] | Some b \<Rightarrow> carry W lg b) s = (Inr frontier, s1)"
      and vf: "validateFrontier lg frontier (nextRevision base) (previousHash (previousOfBase lg base)) = Inr ()"
      and pb: "publish W lg (nextRevision base) ident (newCommit lg base frontier event ident) s1 = (Inl e, s')"
    using assms(1,4) corrupt_onlyD [OF co_validateFrontier, of ErrConflict lg]
    unfolding appendPrepared_def Let_def
    by (auto simp: io_bind_eq_Inl_iff chk dest: neverD [OF nc_appendPrepared_start])
  have "io_rel (grows objs good) (case base of None \<Rightarrow> io_ret [] | Some b \<Rightarrow> carry W lg b)"
    by (intro grow.rel_option grow.rel_ret grow_carry)
  from grow_good [OF this ca assms(2)] have g1: "good s1" .
  obtain winner where w: "snapshot lg (logKey lg (nextRevision base)) (s_body winner) = Inr winner"
      "objs s' (logKey lg (nextRevision base)) = Some (s_body winner)" "c_CommitID (s_commit winner) \<noteq> ident"
    using publish_conflict [OF pb g1 assms(3,4)] by blast
  have v: "valid_rev (nextRevision base)"
    using validateFrontier_iff [of lg frontier "nextRevision base"] vf by blast
  note f = snapshot_Inr [OF w(1)]
  have "Revision (s_record winner) = nextRevision base" using f(1,2) v logKey_inj by metis
  then show ?thesis using f(7) w nextRevision_eq(1) [OF assms(5)] by metis
qed

lemma AppendTo_lost:
  assumes "AppendTo W lg base value s = (Inl e, s')" and "good s" and "codec_calm lg"
    and "errors_is e ErrConflict" and "case base of None \<Rightarrow> True | Some b \<Rightarrow> snap_ok lg b"
  obtains event ident s0 s1 winner where "prepare W lg value s0 = (Inr (event, ident), s1)"
    and "snap_ok lg winner" and "Revision (s_record winner) = snapRevision base + 1"
    and "objs s' (logKey lg (snapRevision base + 1)) = Some (s_body winner)"
    and "c_CommitID (s_commit winner) \<noteq> ident"
proof -
  have chk: "checkSnapshot lg base = Inr ()" using assms(5) by (cases base) simp_all
  obtain s0 event ident s1 where c: "w_ctx W s = (None, s0)"
      and p: "prepare W lg value s0 = (Inr (event, ident), s1)"
      and a: "appendPrepared W lg base event ident s1 = (Inl e, s')"
    using assms(1,4) neverD [OF nc_prepare [OF assms(3)]] nc_ctx
    unfolding AppendTo_def by (auto simp: io_bind_eq_Inl_iff chk)
  have "good s0" using ctx_grows [OF c] assms(2) by (simp add: grows_def)
  from grow_good [OF grow.rel_prepare p this] have "good s1" .
  from appendPrepared_conflict [OF a this assms(3-5)] show ?thesis using that [OF p] by blast
qed

text \<open>
  Every retry finds a head at least one revision further on, so the last conflict is that many
  revisions above everything committed before.
\<close>

lemma appendLoop_conflict:
  assumes "codec_calm lg"
  shows "appendLoop n W lg event ident s = (Inl e, s') \<Longrightarrow> good s \<Longrightarrow> errors_is e ErrConflict \<Longrightarrow>
    \<exists>r'. valid_rev r' \<and> objs s' (logKey lg r') \<noteq> None \<and> int n + 1 \<le> r' \<and>
      (\<forall>r. valid_rev r \<and> objs s (logKey lg r) \<noteq> None \<longrightarrow> r + int n + 1 \<le> r')"
proof -
  have head: "good s1 \<and> (case base of None \<Rightarrow> True | Some b \<Rightarrow> snap_ok lg b) \<and> 0 \<le> snapRevision base \<and>
      (\<forall>r. valid_rev r \<longrightarrow> objs s (logKey lg r) \<noteq> None \<longrightarrow> r \<le> snapRevision base)"
    if "LoadHead W lg s = (Inr base, s1)" "good s" for base s s1
    using LoadHead_Inr [OF that] grow_good [OF grow.rel_LoadHead that]
    by (auto simp: snapRevision_def dest: snap_okD(1) split: option.splits)
  have lost: "valid_rev (snapRevision base + 1) \<and> objs s2 (logKey lg (snapRevision base + 1)) \<noteq> None \<and> good s2"
    if h: "LoadHead W lg s = (Inr base, s1)" "good s"
      and q: "appendPrepared W lg base event ident s1 = (Inl err, s2)" "errors_is err ErrConflict" for base s s1 s2 err
  proof -
    note hd = head [OF h]
    obtain w where "snap_ok lg w" "Revision (s_record w) = snapRevision base + 1"
        "objs s2 (logKey lg (snapRevision base + 1)) = Some (s_body w)"
      using appendPrepared_conflict [OF q(1) _ assms q(2)] hd by blast
    moreover have "good s2" using grow_good [OF grow_appendPrepared q(1)] hd by blast
    ultimately show ?thesis using snap_okD(1) by fastforce
  qed
  show "appendLoop n W lg event ident s = (Inl e, s') \<Longrightarrow> good s \<Longrightarrow> errors_is e ErrConflict \<Longrightarrow> ?thesis"
  proof (induction n arbitrary: s)
    case 0
    obtain base s1 where h: "LoadHead W lg s = (Inr base, s1)"
        and q: "appendPrepared W lg base event ident s1 = (Inl e, s')"
      using 0(1,3) neverD [OF nc_LoadHead [OF assms]] by (auto simp: io_bind_eq_Inl_iff)
    show ?case
      using head [OF h 0(2)] lost [OF h 0(2) q 0(3)] by (intro exI [of _ "snapRevision base + 1"]) auto
  next
    case (Suc n)
    obtain base s1 where h: "LoadHead W lg s = (Inr base, s1)"
      using Suc.prems(1,3) neverD [OF nc_LoadHead [OF assms]] by (auto simp: io_bind_eq_Inl_iff)
    obtain q s2 where q: "appendPrepared W lg base event ident s1 = (q, s2)"
      by (cases "appendPrepared W lg base event ident s1")
    note eval = Suc.prems(1) [unfolded appendLoop.simps io_bind_def io_try_def h q prod.case sum.case]
    obtain err where err: "q = Inl err" "errors_is err ErrConflict"
      using eval Suc.prems(3) by (cases q) (auto split: if_splits)
    then have l: "appendLoop n W lg event ident s2 = (Inl e, s')" using eval by simp
    note lo = lost [OF h Suc.prems(2) q [unfolded err(1)] err(2)]
    obtain r' where r': "valid_rev r'" "objs s' (logKey lg r') \<noteq> None"
        and le: "\<And>r. valid_rev r \<Longrightarrow> objs s2 (logKey lg r) \<noteq> None \<Longrightarrow> r + int n + 1 \<le> r'"
      using Suc.IH [OF l _ Suc.prems(3)] lo by blast
    have "snapRevision base + 1 + int n + 1 \<le> r'" by (rule le) (use lo in blast)+
    moreover note head [OF h Suc.prems(2)]
    ultimately show ?case using r' by (intro exI [of _ r']) force
  qed
qed

lemma Append_conflict:
  assumes "Append W lg value s = (Inl e, s')" and "good s" and "codec_calm lg" and "errors_is e ErrConflict"
  shows "\<exists>r'. valid_rev r' \<and> objs s' (logKey lg r') \<noteq> None \<and> int (nat (maxRetries lg)) + 1 \<le> r' \<and>
      (\<forall>r. valid_rev r \<and> objs s (logKey lg r) \<noteq> None \<longrightarrow> r + int (nat (maxRetries lg)) + 1 \<le> r')"
proof -
  obtain s0 event ident s1 where c: "w_ctx W s = (None, s0)"
      and p: "prepare W lg value s0 = (Inr (event, ident), s1)"
      and a: "appendLoop (nat (maxRetries lg)) W lg event ident s1 = (Inl e, s')"
    using assms(1,4) neverD [OF nc_prepare [OF assms(3)]] nc_ctx
    unfolding Append_def by (auto simp: io_bind_eq_Inl_iff)
  have g0: "good s0" "objs s \<subseteq>\<^sub>m objs s0" using ctx_grows [OF c] assms(2) by (auto simp: grows_def)
  have g1: "good s1" "objs s0 \<subseteq>\<^sub>m objs s1"
    using grow_good [OF grow.rel_prepare p g0(1)] grow_objs [OF grow.rel_prepare p g0(1)] by auto
  have "objs s k \<noteq> None \<Longrightarrow> objs s1 k \<noteq> None" for k
    using g0(2) g1(2) by (force simp: map_le_def dom_def)
  then show ?thesis using appendLoop_conflict [OF assms(3) a g1(1) assms(4)] by blast
qed

end

end
