(* ===== verification/DemoConflict.thy ===== *)
theory DemoConflict
  imports DemoRuns Progress
begin

section \<open>A lost race, evaluated\<close>

text \<open>
  The in-memory store reports no conflicts of its own, so the theory of conflicts applies to it; and
  a run in which another writer creates the first commit between an append's decision and its Create.
\<close>

lemma mem_get_errors:
  assumes "memGet env_ctx k x = (r, x')"
  shows "r = Inl e \<Longrightarrow> e = Sentinel Canceled \<or> e = Sentinel ErrNotFound"
    and "r = Inr st \<Longrightarrow> s_rerr st = Some e \<or> s_cerr st = Some e \<Longrightarrow> e = Sentinel Canceled"
  using assms
  by (auto simp: memGet_def memReader_def io_bind_def io_check_def io_poll_def split: prod.splits option.splits sum.splits
      dest!: onCtx_err)

interpretation mem_calm: no_conflict mem_world
proof
  show "\<not> errors_is e ErrConflict" if "w_ctx mem_world s = (Some e, s')" for s e s'
    using that by (auto simp: mem_world_def dest!: onCtx_err)
  show "\<not> errors_is e ErrConflict" if "w_list mem_world p n s = (Inl e, s')" for p n s e s'
    using that by (auto simp: mem_world_def memList_def io_bind_eq_Inl_iff lost_reply_def elim!: lossy_Inl dest!: onCtx_err)
  show "\<not> errors_is e ErrConflict" if "w_get mem_world k s = (Inl e, s')" for k s e s'
    using that by (auto simp: mem_world_def lost_reply_def elim!: lossy_Inl dest!: mem_get_errors(1))
  show "\<not> errors_is e ErrConflict" if "w_get mem_world k s = (Inr st, s')" "s_rerr st = Some e \<or> s_cerr st = Some e" for k s st s' e
  proof -
    have "lossy (memGet env_ctx k) s = (Inr st, s')" using that(1) by (simp add: mem_world_def)
    then obtain x1 where "memGet env_ctx k x1 = (Inr st, s')" by (rule lossy_Inr)
    from mem_get_errors(2) [OF this refl that(2)] show ?thesis by simp
  qed
  show "\<not> errors_is e ErrConflict" if "w_create mem_world k v s = (Some e, s')" for k v s e s'
  proof -
    have "lossy (memCreate env_ctx k (Some (bytes_source v))) s = (Inl e, s')"
      using that by (auto simp: mem_world_def mem_create_def err_of_def split: prod.splits sum.splits)
    then show ?thesis
    proof (rule lossy_Inl)
      fix x1 assume "memCreate env_ctx k (Some (bytes_source v)) x1 = (Inl e, s')"
      then show ?thesis
        by (rule memCreate_cases) (auto simp: err_of_def memPut_def split: option.splits)
    qed (simp add: lost_reply_def)
  qed
  show "\<not> errors_is e ErrConflict" if "w_rand mem_world m s = (Inl e, s')" for m s e s'
    using that by (simp add: mem_world_def mem_rand_def)
  show "\<not> errors_is e ErrConflict" if "w_tmp mem_world q s = (Some e, s')" for q s e s'
    using that by (auto simp: mem_world_def mem_tmp_def split: option.splits nat.splits)
qed

interpretation mem_contended: contended mem_world mem_objs mem_good
  by (rule contended.intro [OF mem.object_store_axioms mem_calm.no_conflict_axioms])

lemma demo_calm: "codec_calm demoLog"
  by (simp add: codec_calm_def demoPlatform_def)

subsection \<open>The race\<close>

definition demoRivalSnap :: "nat snap" where
  "demoRivalSnap =
     \<lparr>s_owner = 1, s_commit = demoRival, s_body = ''uno'',
      s_record = \<lparr>Revision = 1, CommitID = CHR 0x01 # replicate 15 (CHR 0x00), Value = [7],
                  RecordHash = replicate 32 (CHR 0x00)\<rparr>\<rparr>"

lemma demo_rival_tree: "decodeTree commitType commitOf (demoTree demoRival) = Inr demoRival"
  by (simp add: decodeTree_def demoTree_def outCommit_def demoRival_def demoCommit1_def commitType_def commitOf_def
      unmarshalField_def unmarshalString_def unmarshalSlice_def unmarshalPointer_def equalFold_def)

lemma demo_rival_project: "validateProjection demoLog (project demoRival) = Inr 1"
  by (simp add: validateProjection_def project_def demoRival_def demoCommit1_def demoPlatform_def demoPrint_def)

lemma demo_rival_decode: "decodeCommit demoLog (demoKey 1) ''uno'' = Inr demoRival"
  using demo_rival_tree demo_rival_project demo_frontier1
  by (simp add: decodeCommit_def decodeJSON_def demoPlatform_def demoParse_def)
     (simp add: demoRival_def demoCommit1_def project_def)

lemma demo_rival_record: "recordOf demoLog (project demoRival) = Inr (s_record demoRivalSnap)"
  using demo_rival_project
  by (simp add: recordOf_def demoPlatform_def)
     (simp add: demoRivalSnap_def project_def demoRival_def demoCommit1_def demo_hexDecode)

lemma demo_rival_snap: "snapshot demoLog (demoKey 1) ''uno'' = Inr demoRivalSnap"
  using demo_rival_decode demo_rival_record by (simp add: snapshot_def wrapErr_def) (simp add: demoRivalSnap_def)

definition demoRace :: "env_event list \<Rightarrow> mem_state" where
  "demoRace evs = (calm\<lparr>events := evs\<rparr>, \<lparr>objects = Map.empty, keys = []\<rparr>)"

definition demoLost :: mem_state where
  "demoLost = (calm\<lparr>rng := Suc 0\<rparr>, \<lparr>objects = [demoKey 1 \<mapsto> ''uno''], keys = [demoKey 1]\<rparr>)"

lemma demo_conflict:
  "appendPrepared mem_world demoLog None ''[7]'' demoID
     (calm\<lparr>events := [Other (demoKey 1) ''uno''], rng := Suc 0\<rparr>, \<lparr>objects = Map.empty, keys = []\<rparr>) =
   (Inl (Wrap (''revision '' @ decStr (Suc 0)) [Sentinel ErrConflict]), demoLost)"
proof -
  let ?x = "(calm\<lparr>events := [Other (demoKey 1) ''uno''], rng := Suc 0\<rparr>, \<lparr>objects = Map.empty, keys = []\<rparr>) :: mem_state"
  have ctx: "w_ctx mem_world ?x = (None, ?x)"
    by (simp add: mem_world_def onCtx_def env_ctx_def calm_def)
  have put: "insertKey [] (demoKey 1) = [demoKey 1]"
    by (simp add: insertKey_def searchStrings_def searchLoop.simps)
  have turn: "env_turn ?x = (False, demoLost)"
    by (simp add: env_turn_def memPut_def put demoLost_def calm_def Let_def)
  have q: "quiet demoLost" by (simp add: quiet_def demoLost_def calm_def)
  have "memCreate env_ctx (demoKey 1) (Some (bytes_source ''one'')) demoLost = (Inl (Sentinel ErrExists), demoLost)"
    using quiet_onCtx [OF q]
    by (simp add: memCreate_def readSource_def bytes_source_def io_bind_def io_check_def memPut_def)
      (simp add: demoLost_def)
  then have cr: "w_create mem_world (demoKey 1) ''one'' ?x = (Some (Sentinel ErrExists), demoLost)"
    by (simp add: mem_world_def mem_create_def lossy_def turn err_of_def)
  have g: "getObject mem_world (demoKey 1) False demoLost = (Inr ''uno'', demoLost)"
    by (rule quiet_getObject [OF q]) (simp add: demoLost_def)
  have res: "resolveCreate mem_world demoLog (demoKey 1) 1 demoID demoCommit1 (Sentinel ErrExists) demoLost =
      (Inl (Wrap (''revision '' @ decStr (Suc 0)) [Sentinel ErrConflict]), demoLost)"
    by (simp add: resolveCreate_def io_bind_def io_try_def g demo_rival_snap)
      (simp add: demoRivalSnap_def demoRival_def demoCommit1_def demoID_def demoID2_def numeral_eq_Suc)
  show ?thesis
    by (simp add: appendPrepared_def publish_def io_bind_def demo_commit1 demo_frontier1
        nextRevision_def previousOfBase_def previousHash_def demoPlatform_def demo_print demo_snap1 io_poll_def
        io_check_def ctx cr res snapRevision_def Let_def)
qed

lemma demo_race_AppendTo:
  "AppendTo mem_world demoLog None [7] (demoRace [Other (demoKey 1) ''uno'']) =
   (Inl (Wrap (''revision '' @ decStr (Suc 0)) [Sentinel ErrConflict]), demoLost)"
proof -
  let ?x = "demoRace [Other (demoKey 1) ''uno'']"
  have "prepare mem_world demoLog [7] ?x = (Inr (''[7]'', demoID),
      (calm\<lparr>events := [Other (demoKey 1) ''uno''], rng := Suc 0\<rparr>, \<lparr>objects = Map.empty, keys = []\<rparr>))"
    using demo_prepare [of ?x] demo_ids by (simp add: demoRace_def calm_def)
  moreover have "w_ctx mem_world ?x = (None, ?x)"
    by (simp add: demoRace_def mem_world_def onCtx_def env_ctx_def calm_def)
  ultimately show ?thesis
    by (simp add: AppendTo_def io_bind_def io_check_def demo_conflict)
qed

lemma demo_race_Append:
  "Append mem_world demoLog [7] (demoRace [Quiet, Other (demoKey 1) ''uno'']) =
   (Inl (Wrap (''revision '' @ decStr (Suc 0)) [Sentinel ErrConflict]), demoLost)"
proof -
  let ?x = "demoRace [Quiet, Other (demoKey 1) ''uno'']"
  let ?y = "(calm\<lparr>events := [Quiet, Other (demoKey 1) ''uno''], rng := Suc 0\<rparr>, \<lparr>objects = Map.empty, keys = []\<rparr>) :: mem_state"
  let ?z = "(calm\<lparr>events := [Other (demoKey 1) ''uno''], rng := Suc 0\<rparr>, \<lparr>objects = Map.empty, keys = []\<rparr>) :: mem_state"
  have p: "prepare mem_world demoLog [7] ?x = (Inr (''[7]'', demoID), ?y)"
    using demo_prepare [of ?x] demo_ids by (simp add: demoRace_def calm_def)
  have c: "w_ctx mem_world ?x = (None, ?x)" "w_ctx mem_world ?y = (None, ?y)"
    by (simp_all add: demoRace_def mem_world_def onCtx_def env_ctx_def calm_def)
  have "w_list mem_world (logPrefix demoLog) 1 ?y = (Inr [], ?z)"
    by (simp add: mem_world_def lossy_def env_turn_def memList_def io_bind_def io_check_def onCtx_def env_ctx_def
        calm_def Let_def)
  then have h: "LoadHead mem_world demoLog ?y = (Inr None, ?z)"
    by (simp add: LoadHead_def io_bind_def io_check_def io_wrap_def c)
  have r: "nat (maxRetries demoLog) = 0" by (simp add: demoLog_def)
  show ?thesis
    unfolding Append_def r appendLoop.simps by (simp add: io_bind_def io_check_def p c h demo_conflict)
qed

end
