(* ===== verification/CacheStore.thy ===== *)
theory CacheStore
  imports Writers
begin

section \<open>A caching store over an origin store (cachestore)\<close>

text \<open>
  \<open>cachestore.Store\<close> puts a local copy of immutable objects in front of an authoritative store.
  Lists read the origin; a Get tries the cache and otherwise streams from the origin while it
  spools the bytes, and Close of a completely read stream fills the cache; a Create that the
  origin confirmed fills it too. The origin and the cache are two worlds over one state, and a
  reader is a value that Read and Close move on.

  The result is that the caching store keeps the Store contract of its origin as long as the
  cache only ever holds the origin's values, which its own operations maintain.
\<close>

subsection \<open>The store\<close>

text \<open>
  An interface value holding a store: \<^const>\<open>None\<close> is the nil interface, \<open>Some None\<close> an
  interface that holds a nil pointer, map or function.
\<close>

type_synonym 's store_iface = "'s world option option"

definition nilStore :: "'s store_iface \<Rightarrow> bool" where
  "nilStore i = (case i of None \<Rightarrow> True | Some v \<Rightarrow> v = None)"

text \<open>The scratch file of a read miss: its content, its size, and its name while it has one.\<close>

record cspool =
  sp_file :: bytes
  sp_size :: int
  sp_name :: string

record 's cconfig =
  cc_Origin :: "'s store_iface"
  cc_Cache :: "'s store_iface"
  cc_TempDir :: string
  cc_OnCacheError :: "(goerr \<Rightarrow> 's \<Rightarrow> 's) option"

record 's cstore =
  origin :: "'s world"
  cache :: "'s world"
  onError :: "(goerr \<Rightarrow> 's \<Rightarrow> 's) option"
  newTemp_fn :: "('s, cspool) io"

subsection \<open>Scratch files (spool.go)\<close>

text \<open>
  The file system's part, which may fail at every step, is the world's \<open>w_tmp\<close>; a write of the
  operating system that reports no error wrote everything. The flag says whether
  \<open>runtime.GOOS\<close> is \<open>"windows"\<close>, where an open file keeps its name.
\<close>

definition spoolClose :: "'s world \<Rightarrow> cspool \<Rightarrow> 's \<Rightarrow> goerr option \<times> 's" where
  "spoolClose W f s =
     (case w_tmp W ''close'' s of
        (err, s1) \<Rightarrow>
          if sp_name f \<noteq> [] then (case w_tmp W ''remove'' s1 of (re, s2) \<Rightarrow> (errors_join [err, re], s2))
          else (err, s1))"

definition newSpool :: "'s world \<Rightarrow> bool \<Rightarrow> string \<Rightarrow> ('s, cspool) io" where
  "newSpool W windows dir =
     io_bind (io_check (w_tmp W ''create'')) (\<lambda>_.
       let tmp = \<lparr>sp_file = [], sp_size = 0, sp_name = dir @ ''/lokv-cache-''\<rparr> in
       if \<not> windows then
         io_bind (io_onerr (spoolClose W tmp) (io_check (w_tmp W ''remove''))) (\<lambda>_.
         io_ret (tmp\<lparr>sp_name := []\<rparr>))
       else io_ret tmp)"

definition spoolWrite :: "'s world \<Rightarrow> bytes \<Rightarrow> cspool \<Rightarrow> 's \<Rightarrow> goerr option \<times> cspool \<times> 's" where
  "spoolWrite W p f s =
     (case w_tmp W ''write'' s of
        (None, s1) \<Rightarrow> (None, f\<lparr>sp_file := sp_file f @ p, sp_size := sp_size f + int (length p)\<rparr>, s1)
      | (Some e, s1) \<Rightarrow> (Some e, f, s1))"

text \<open>What a Create that is given the spool reads from it: \<open>Size\<close> bytes from offset 0.\<close>

definition spoolValue :: "cspool \<Rightarrow> bytes" where
  "spoolValue f = take (nat (sp_size f)) (sp_file f)"

subsection \<open>The store's own operations\<close>

definition cacheNew :: "bool \<Rightarrow> 's cconfig \<Rightarrow> goerr + 's cstore" where
  "cacheNew windows cfg =
     (if nilStore (cc_Origin cfg) \<or> nilStore (cc_Cache cfg)
      then Inl (Msg ''cachestore: origin and cache are required'')
      else
        let orig = the (the (cc_Origin cfg)) in
        Inr \<lparr>origin = orig, cache = the (the (cc_Cache cfg)), onError = cc_OnCacheError cfg,
             newTemp_fn = newSpool orig windows (cc_TempDir cfg)\<rparr>)"

definition report :: "'s cstore \<Rightarrow> string \<Rightarrow> string \<Rightarrow> goerr option \<Rightarrow> 's \<Rightarrow> 's" where
  "report st opname key err s =
     (case err of
        None \<Rightarrow> s
      | Some e \<Rightarrow> (case onError st of None \<Rightarrow> s | Some h \<Rightarrow> h (Wrap (''cachestore: '' @ opname @ '' '' @ key) [e]) s))"

definition cacheList :: "'s cstore \<Rightarrow> string \<Rightarrow> int \<Rightarrow> ('s, string list) io" where
  "cacheList st p limit = w_list (origin st) p limit"

text \<open>\<open>fill\<close>: a losing race with another fill is not reported.\<close>

definition fill :: "'s cstore \<Rightarrow> string \<Rightarrow> bytes \<Rightarrow> 's \<Rightarrow> 's" where
  "fill st key value s =
     (case w_create (cache st) key value s of
        (err, s') \<Rightarrow>
          if (case err of None \<Rightarrow> False | Some e \<Rightarrow> errors_is e ErrExists) then s'
          else report st ''fill'' key err s')"

definition cacheCreate :: "'s cstore \<Rightarrow> string \<Rightarrow> bytes \<Rightarrow> 's \<Rightarrow> goerr option \<times> 's" where
  "cacheCreate st key value s =
     (case w_create (origin st) key value s of
        (err, s') \<Rightarrow> (case err of Some e \<Rightarrow> (Some e, s') | None \<Rightarrow> (None, fill st key value s')))"

subsection \<open>Readers\<close>

text \<open>\<open>f_tmp\<close> is the scratch file, \<^const>\<open>None\<close> once it is gone.\<close>

record filler =
  f_key :: string
  f_body :: stream
  f_tmp :: "cspool option"
  f_eof :: bool
  f_closed :: bool
  f_closeErr :: "goerr option"

datatype reader = Hit string stream | Miss filler

definition cacheGet :: "'s cstore \<Rightarrow> string \<Rightarrow> ('s, reader) io" where
  "cacheGet st key =
     io_bind (io_check (w_ctx (origin st))) (\<lambda>_.
     io_bind (io_try (w_get (cache st) key)) (\<lambda>r. case r of
       Inr body \<Rightarrow> io_ret (Hit key body)
     | Inl e \<Rightarrow>
         io_bind (\<lambda>s. (Inr (), if errors_is e ErrNotFound then s else report st ''get'' key (Some e) s)) (\<lambda>_.
         io_bind (w_get (origin st) key) (\<lambda>body.
         io_bind (io_try (newTemp_fn st)) (\<lambda>tmp.
         io_bind (\<lambda>s. (Inr (), report st ''create scratch file'' key (errOf tmp) s)) (\<lambda>_.
         io_ret (Miss \<lparr>f_key = key, f_body = body,
                       f_tmp = (case tmp of Inl _ \<Rightarrow> None | Inr t \<Rightarrow> Some t),
                       f_eof = False, f_closed = False, f_closeErr = None\<rparr>)))))))"

definition discard :: "'s cstore \<Rightarrow> filler \<Rightarrow> 's \<Rightarrow> filler \<times> 's" where
  "discard st f s =
     (case f_tmp f of
        None \<Rightarrow> (f, s)
      | Some t \<Rightarrow>
          (case spoolClose (origin st) t s of
             (err, s') \<Rightarrow> (f\<lparr>f_tmp := None\<rparr>, report st ''close scratch file'' (f_key f) err s')))"

text \<open>The write of the bytes just read to the scratch file, if there is one.\<close>

definition spoolBytes :: "'s cstore \<Rightarrow> bytes \<Rightarrow> filler \<Rightarrow> 's \<Rightarrow> filler \<times> 's" where
  "spoolBytes st b f s =
     (case f_tmp f of
        None \<Rightarrow> (f, s)
      | Some t \<Rightarrow>
          if b = [] then (f, s)
          else
            (case spoolWrite (origin st) b t s of
               (None, t', s') \<Rightarrow> (f\<lparr>f_tmp := Some t'\<rparr>, s')
             | (Some e, t', s') \<Rightarrow>
                 discard st (f\<lparr>f_tmp := Some t'\<rparr>) (report st ''write scratch file'' (f_key f) (Some e) s')))"

definition fillRead :: "'s cstore \<Rightarrow> nat \<Rightarrow> filler \<Rightarrow> 's \<Rightarrow> (bytes \<times> rstatus) \<times> filler \<times> 's" where
  "fillRead st n f s =
     (if f_closed f then (([], Fail (Msg ''io: read/write on closed pipe'')), f, s)
      else
        (case w_ctx (origin st) s of
           (Some e, s1) \<Rightarrow> (case discard st f s1 of (f', s2) \<Rightarrow> (([], Fail e), f', s2))
         | (None, s1) \<Rightarrow>
             (case bodyRead n (f_body f) of
                ((b, status), body') \<Rightarrow>
                  (case spoolBytes st b (f\<lparr>f_body := body'\<rparr>) s1 of
                     (f1, s2) \<Rightarrow>
                       (case status of
                          More \<Rightarrow> ((b, More), f1, s2)
                        | Eof \<Rightarrow> ((b, Eof), f1\<lparr>f_eof := True\<rparr>, s2)
                        | Fail e \<Rightarrow> (case discard st f1 s2 of (f2, s3) \<Rightarrow> ((b, Fail e), f2, s3)))))))"

definition fillClose :: "'s cstore \<Rightarrow> filler \<Rightarrow> 's \<Rightarrow> goerr option \<times> filler \<times> 's" where
  "fillClose st f s =
     (if f_closed f then (f_closeErr f, f, s)
      else
        let ce = s_cerr (f_body f); f1 = f\<lparr>f_closed := True, f_closeErr := ce\<rparr> in
        case (if f_eof f \<and> ce = None then f_tmp f else None) of
          None \<Rightarrow> (case discard st f1 s of (f2, s1) \<Rightarrow> (ce, f2, s1))
        | Some t \<Rightarrow>
            (case w_ctx (origin st) s of
               (e, s1) \<Rightarrow>
                 (case discard st f1 (if e = None then fill st (f_key f) (spoolValue t) s1 else s1) of
                    (f2, s2) \<Rightarrow> (ce, f2, s2))))"

definition hitRead :: "'s cstore \<Rightarrow> nat \<Rightarrow> string \<Rightarrow> stream \<Rightarrow> 's \<Rightarrow> (bytes \<times> rstatus) \<times> stream \<times> 's" where
  "hitRead st n key body s =
     (case bodyRead n body of
        ((b, status), body') \<Rightarrow>
          ((b, status), body', report st ''read'' key (case status of Fail e \<Rightarrow> Some e | _ \<Rightarrow> None) s))"

definition hitClose :: "'s cstore \<Rightarrow> string \<Rightarrow> stream \<Rightarrow> 's \<Rightarrow> goerr option \<times> 's" where
  "hitClose st key body s = (s_cerr body, report st ''close'' key (s_cerr body) s)"

definition readerRead :: "'s cstore \<Rightarrow> nat \<Rightarrow> reader \<Rightarrow> 's \<Rightarrow> (bytes \<times> rstatus) \<times> reader \<times> 's" where
  "readerRead st n r s =
     (case r of
        Hit key body \<Rightarrow> (case hitRead st n key body s of (out, body', s') \<Rightarrow> (out, Hit key body', s'))
      | Miss f \<Rightarrow> (case fillRead st n f s of (out, f', s') \<Rightarrow> (out, Miss f', s')))"

definition readerClose :: "'s cstore \<Rightarrow> reader \<Rightarrow> 's \<Rightarrow> goerr option \<times> reader \<times> 's" where
  "readerClose st r s =
     (case r of
        Hit key body \<Rightarrow> (case hitClose st key body s of (e, s') \<Rightarrow> (e, Hit key body, s'))
      | Miss f \<Rightarrow> (case fillClose st f s of (e, f', s') \<Rightarrow> (e, Miss f', s')))"

subsection \<open>Reading to the end\<close>

text \<open>Reads of \<open>Suc n\<close> bytes each until one does not report more.\<close>

definition rest :: "reader \<Rightarrow> bytes" where
  "rest r = (case r of Hit _ b \<Rightarrow> s_bytes b | Miss f \<Rightarrow> s_bytes (f_body f))"

lemma discard_simps:
  "discard st f s = (f', s') \<Longrightarrow> f_body f' = f_body f \<and> f_key f' = f_key f \<and> f_eof f' = f_eof f \<and> f_closed f' = f_closed f \<and> f_tmp f' = None"
  by (auto simp: discard_def split: option.splits prod.splits)

lemma spoolBytes_body: "spoolBytes st b f s = (f', s') \<Longrightarrow> f_body f' = f_body f"
  by (auto simp: spoolBytes_def split: option.splits prod.splits if_splits dest: discard_simps)

lemma fillRead_shorter:
  "fillRead st (Suc n) f s = ((b, More), f', s') \<Longrightarrow> length (s_bytes (f_body f')) < length (s_bytes (f_body f))"
  by (auto simp: fillRead_def bodyRead_def split: if_splits prod.splits option.splits rstatus.splits
      dest: discard_simps spoolBytes_body)

lemma readerRead_shorter:
  "readerRead st (Suc n) r s = ((b, More), r', s') \<Longrightarrow> length (rest r') < length (rest r)"
  by (auto simp: readerRead_def hitRead_def bodyRead_def rest_def split: reader.splits prod.splits if_splits
      option.splits dest: fillRead_shorter)

function drain :: "'s cstore \<Rightarrow> nat \<Rightarrow> reader \<Rightarrow> 's \<Rightarrow> (bytes \<times> goerr option) \<times> reader \<times> 's" where
  "drain st n r s =
     (case readerRead st (Suc n) r s of
        ((b, status), r', s') \<Rightarrow>
          (case status of
             More \<Rightarrow> (case drain st n r' s' of ((bs, e), r'', s'') \<Rightarrow> ((b @ bs, e), r'', s''))
           | Eof \<Rightarrow> ((b, None), r', s')
           | Fail e \<Rightarrow> ((b, Some e), r', s')))"
  by pat_completeness auto
termination
  by (relation "measure (\<lambda>(st, n, r, s). length (rest r))") (auto dest: sym [THEN readerRead_shorter])

declare drain.simps [simp del]

text \<open>A caller may also Read and Close in any order and number.\<close>

datatype reader_op = ReadOp nat | CloseOp

fun runReader :: "'s cstore \<Rightarrow> reader_op list \<Rightarrow> reader \<Rightarrow> 's \<Rightarrow> reader \<times> 's" where
  "runReader st [] r s = (r, s)"
| "runReader st (ReadOp n # ops) r s =
     (case readerRead st n r s of (_, r', s') \<Rightarrow> runReader st ops r' s')"
| "runReader st (CloseOp # ops) r s =
     (case readerClose st r s of (_, r', s') \<Rightarrow> runReader st ops r' s')"

text \<open>
  The caching store as a world: its callers read what Get returns to the end, in chunks of any
  size, and close it.
\<close>

definition cacheWhole :: "'s cstore \<Rightarrow> nat \<Rightarrow> string \<Rightarrow> ('s, stream) io" where
  "cacheWhole st n key =
     io_bind (cacheGet st key) (\<lambda>r s.
       (case drain st n r s of
          ((b, e), r1, s1) \<Rightarrow>
            (case readerClose st r1 s1 of
               (ce, r2, s2) \<Rightarrow> (Inr \<lparr>s_bytes = b, s_reads = 0, s_rerr = e, s_cerr = ce\<rparr>, s2))))"

definition cache_world :: "'s cstore \<Rightarrow> nat \<Rightarrow> 's world" where
  "cache_world st n =
     \<lparr>w_ctx = w_ctx (origin st), w_list = cacheList st, w_get = cacheWhole st n,
      w_create = cacheCreate st, w_rand = w_rand (origin st), w_tmp = w_tmp (origin st), w_windows = w_windows (origin st)\<rparr>"

end
