(* ===== verification/CacheFacts.thy ===== *)
theory CacheFacts
  imports CacheStore
begin

section \<open>The caching store keeps its origin's contract\<close>

text \<open>
  The contract between the caching store and its two stores, as a locale: the origin is an
  object store, and its invariant \<open>good\<close> includes that whatever the cache returns in full is the
  origin's value. Inside it: no sequence of Reads and Closes breaks that invariant, and the
  caching store is itself an object store over the origin's objects.
\<close>

locale cached =
  fixes st :: "'s cstore" and objs :: "'s \<Rightarrow> string \<rightharpoonup> bytes" and good :: "'s \<Rightarrow> bool"
  assumes origin_store: "object_store (origin st) objs good"
    and ctx_present: "w_ctx (origin st) s = (Some e, s') \<Longrightarrow> \<not> errors_is e ErrNotFound"
    and temp_grows: "newTemp_fn st s = (tr, s') \<Longrightarrow> grows objs good s s'"
    and temp_empty: "newTemp_fn st s = (Inr t, s') \<Longrightarrow> sp_file t = [] \<and> sp_size t = 0"
    and handler_grows: "onError st = Some h \<Longrightarrow> grows objs good s (h e s)"
    and hit_grows: "w_get (cache st) k s = (gr, s') \<Longrightarrow> grows objs good s s'"
    and hit_exact: "w_get (cache st) k s = (Inr b, s') \<Longrightarrow> good s \<Longrightarrow> s_rerr b = None \<Longrightarrow>
      objs s' k = Some (s_bytes b)"
    and fill_grows: "w_create (cache st) k v s = (ce, s') \<Longrightarrow> objs s k = Some v \<Longrightarrow> grows objs good s s'"
begin

lemma ctx_step: "w_ctx (origin st) s = (ce, s') \<Longrightarrow> grows objs good s s'"
  by (rule object_store.ctx_grows [OF origin_store])

lemma get_step: "w_get (origin st) k s = (ce, s') \<Longrightarrow> grows objs good s s'"
  by (rule object_store.get_grows [OF origin_store])

lemma tmp_step: "w_tmp (origin st) q s = (ce, s') \<Longrightarrow> grows objs good s s'"
  by (rule object_store.tmp_grows [OF origin_store])

lemma step_refl [simp]: "grows objs good s s"
  by (simp add: grows_def)

lemma step_trans: "grows objs good s t \<Longrightarrow> grows objs good t u \<Longrightarrow> grows objs good s u"
  by (auto simp: grows_def intro: map_le_trans)

lemma step_some: "grows objs good s s' \<Longrightarrow> good s \<Longrightarrow> objs s k = Some v \<Longrightarrow> good s' \<and> objs s' k = Some v"
  unfolding grows_def map_le_def by (metis domI)

lemma step_none: "grows objs good s s' \<Longrightarrow> good s \<Longrightarrow> objs s' k = None \<Longrightarrow> objs s k = None"
  unfolding grows_def map_le_def by (metis domIff option.exhaust_sel domI)

lemma report_grows: "grows objs good s (report st q k err s)"
  by (auto simp: report_def handler_grows split: option.splits)

lemma fill_step:
  assumes "objs s k = Some v" shows "grows objs good s (fill st k v s)"
proof -
  obtain e s' where c: "w_create (cache st) k v s = (e, s')" by (cases "w_create (cache st) k v s")
  show ?thesis
    using fill_grows [OF c assms] report_grows step_trans by (fastforce simp: fill_def c)
qed

lemma spoolClose_grows: "spoolClose (origin st) t s = (e, s') \<Longrightarrow> grows objs good s s'"
  by (auto simp: spoolClose_def split: prod.splits if_splits dest!: tmp_step intro: step_trans)

lemma discard_grows: "discard st f s = (f', s') \<Longrightarrow> grows objs good s s'"
  by (auto simp: discard_def split: prod.splits option.splits dest!: spoolClose_grows
      intro: step_trans report_grows)

lemma spoolWrite_grows: "spoolWrite (origin st) b t s = (e, t', s') \<Longrightarrow> grows objs good s s'"
  by (auto simp: spoolWrite_def split: prod.splits option.splits dest!: tmp_step)

lemma spoolBytes_grows: "spoolBytes st b f s = (f', s') \<Longrightarrow> grows objs good s s'"
  by (auto simp: spoolBytes_def split: prod.splits option.splits if_splits
      dest!: spoolWrite_grows discard_grows)
    (meson step_trans report_grows)+

subsection \<open>Readers\<close>

text \<open>
  The invariant of a read miss: while the scratch file is there, it holds what has been read, so
  that it and what the origin's stream still holds make up the object; the end was seen only
  when nothing was left.
\<close>

definition sound :: "string \<Rightarrow> bytes option \<Rightarrow> filler \<Rightarrow> bool" where
  "sound k v f \<longleftrightarrow>
     f_key f = k \<and>
     (case f_tmp f of
        None \<Rightarrow> True
      | Some t \<Rightarrow> sp_size t = int (length (sp_file t)) \<and>
          (s_rerr (f_body f) = None \<longrightarrow> v = Some (sp_file t @ s_bytes (f_body f)))) \<and>
     (f_eof f \<longrightarrow> s_bytes (f_body f) = [] \<and> s_rerr (f_body f) = None)"

lemma sound_discard: "discard st f s = (f', s') \<Longrightarrow> sound k v f \<Longrightarrow> sound k v f'"
  by (auto simp: sound_def dest: discard_simps)

lemma bodyRead_cases:
  "bodyRead n b = ((bs, stt), b') \<Longrightarrow>
     s_bytes b = bs @ s_bytes b' \<and> s_rerr b' = s_rerr b \<and> s_cerr b' = s_cerr b \<and>
     (stt = Eof \<longrightarrow> s_bytes b = [] \<and> s_rerr b = None) \<and> (\<forall>e. stt = Fail e \<longrightarrow> s_rerr b = Some e)"
  by (auto simp: bodyRead_def split: if_splits option.splits)

lemma sound_spool:
  assumes "spoolBytes st bs f s = (f', s')" and "s_bytes b = bs @ s_bytes b'" and "s_rerr b' = s_rerr b"
    and "sound k v (f\<lparr>f_body := b, f_eof := False\<rparr>)" and "f_body f = b'"
  shows "sound k v (f'\<lparr>f_eof := False\<rparr>) \<and> f_body f' = b' \<and> f_eof f' = f_eof f \<and> f_closed f' = f_closed f"
  using assms
  by (auto simp: spoolBytes_def sound_def spoolWrite_def split: option.splits if_splits prod.splits
      dest!: discard_simps)

lemma fillRead_sound:
  assumes "fillRead st n f s = ((bs, stt), f', s')" and "sound k v f"
  shows "grows objs good s s' \<and> sound k v f' \<and> f_closed f' = f_closed f"
proof (cases "f_closed f")
  case True
  then show ?thesis using assms by (simp add: fillRead_def)
next
  case False
  obtain ce s1 where c: "w_ctx (origin st) s = (ce, s1)" by (cases "w_ctx (origin st) s")
  obtain b0 st0 body' where r: "bodyRead n (f_body f) = ((b0, st0), body')"
    by (metis surj_pair)
  obtain f1 s2 where p: "spoolBytes st b0 (f\<lparr>f_body := body'\<rparr>) s1 = (f1, s2)"
    by (cases "spoolBytes st b0 (f\<lparr>f_body := body'\<rparr>) s1")
  note rc = bodyRead_cases [OF r]
  have s0: "sound k v (f\<lparr>f_body := f_body f, f_eof := False\<rparr>)"
    using assms(2) by (auto simp: sound_def split: option.splits)
  have f1: "sound k v (f1\<lparr>f_eof := False\<rparr>)" "f_body f1 = body'" "f_eof f1 = f_eof f" "f_closed f1 = f_closed f"
    using sound_spool [OF p, of "f_body f" body' k v] rc s0 by (simp_all add: sound_def)
  have eof: "f_eof f \<longrightarrow> s_bytes body' = [] \<and> s_rerr body' = None"
    using assms(2) rc by (auto simp: sound_def)
  have sf1: "sound k v f1"
    using f1 eof by (auto simp: sound_def split: option.splits)
  show ?thesis
  proof (cases ce)
    case (Some e)
    then show ?thesis
      using assms False c ctx_step [OF c]
      by (auto simp: fillRead_def split: prod.splits intro: step_trans sound_discard discard_grows
          dest: discard_simps)
  next
    case None
    have g: "grows objs good s s2"
      using ctx_step [OF c] spoolBytes_grows [OF p] by (rule step_trans)
    show ?thesis
    proof (cases st0)
      case More
      then show ?thesis using assms(1) False c None r p g sf1 f1 by (simp add: fillRead_def)
    next
      case Eof
      then have "sound k v (f1\<lparr>f_eof := True\<rparr>)"
        using f1 rc by (auto simp: sound_def split: option.splits)
      then show ?thesis using assms(1) Eof False c None r p g f1 by (auto simp: fillRead_def)
    next
      case (Fail e)
      obtain f2 s3 where d: "discard st f1 s2 = (f2, s3)" by (cases "discard st f1 s2")
      show ?thesis
        using assms(1) Fail False c None r p f1 d step_trans [OF g discard_grows [OF d]]
          sound_discard [OF d sf1] discard_simps [OF d]
        by (simp add: fillRead_def)
    qed
  qed
qed

text \<open>Close fills the cache only with the whole object.\<close>

lemma fillClose_sound:
  assumes "fillClose st f s = (e, f', s')" and "sound k v f" and "\<And>b. v = Some b \<Longrightarrow> objs s k = Some b"
    and "good s"
  shows "grows objs good s s' \<and> sound k v f'"
proof (cases "f_closed f")
  case True
  then show ?thesis using assms by (simp add: fillClose_def)
next
  case False
  let ?ce = "s_cerr (f_body f)"
  let ?f1 = "f\<lparr>f_closed := True, f_closeErr := ?ce\<rparr>"
  have s1: "sound k v ?f1" using assms(2) by (auto simp: sound_def split: option.splits)
  show ?thesis
  proof (cases "if f_eof f \<and> ?ce = None then f_tmp f else None")
    case None
    obtain f2 s2 where d: "discard st ?f1 s = (f2, s2)" by (cases "discard st ?f1 s")
    show ?thesis
      using assms(1) False None d discard_grows [OF d] sound_discard [OF d s1]
      by (auto simp: fillClose_def Let_def)
  next
    case (Some t)
    obtain xe s2 where c: "w_ctx (origin st) s = (xe, s2)" by (cases "w_ctx (origin st) s")
    define s3 where "s3 = (if xe = None then fill st (f_key f) (spoolValue t) s2 else s2)"
    obtain f2 s4 where d: "discard st ?f1 s3 = (f2, s4)" by (cases "discard st ?f1 s3")
    have "v = Some (spoolValue t)" and "f_key f = k"
      using Some assms(2) by (auto simp: sound_def spoolValue_def split: if_splits)
    then have "objs s2 k = Some (spoolValue t)" "f_key f = k"
      using step_some [OF ctx_step [OF c] assms(4)] assms(3) by auto
    then have "grows objs good s2 s3"
      using fill_step by (simp add: s3_def)
    then have "grows objs good s s4"
      using ctx_step [OF c] discard_grows [OF d] step_trans by blast
    then show ?thesis
      using assms(1) False Some c d sound_discard [OF d s1]
      by (auto simp: fillClose_def Let_def s3_def)
  qed
qed

subsection \<open>Whole readers\<close>

definition sound_reader :: "string \<Rightarrow> bytes option \<Rightarrow> reader \<Rightarrow> bool" where
  "sound_reader k v r = (case r of Hit _ _ \<Rightarrow> True | Miss f \<Rightarrow> sound k v f)"

lemma hit_steps:
  "hitRead st n k b s = (out, b', s') \<Longrightarrow> grows objs good s s'"
  "hitClose st k b s = (e, s') \<Longrightarrow> grows objs good s s'"
  by (auto simp: hitRead_def hitClose_def report_grows split: prod.splits)

lemma read_sound:
  "readerRead st n r s = (out, r', s') \<Longrightarrow> sound_reader k v r \<Longrightarrow> grows objs good s s' \<and> sound_reader k v r'"
  by (cases r; cases out)
     (auto simp: readerRead_def sound_reader_def split: prod.splits dest: hit_steps fillRead_sound)

lemma close_sound:
  "readerClose st r s = (e, r', s') \<Longrightarrow> sound_reader k v r \<Longrightarrow> (\<And>b. v = Some b \<Longrightarrow> objs s k = Some b) \<Longrightarrow>
     good s \<Longrightarrow> grows objs good s s' \<and> sound_reader k v r'"
  by (cases r)
     (auto simp: readerClose_def sound_reader_def split: prod.splits dest: hit_steps fillClose_sound)

lemma run_sound:
  assumes "runReader st ops r s = (r', s')" and "sound_reader k v r"
    and "\<And>b. v = Some b \<Longrightarrow> objs s k = Some b" and "good s"
  shows "grows objs good s s'"
  using assms
proof (induction ops arbitrary: r s)
  case (Cons op ops)
  obtain r1 s1 where s1: "runReader st ops r1 s1 = (r', s')" and g: "grows objs good s s1" and r1: "sound_reader k v r1"
    using Cons.prems read_sound close_sound
    by (cases op) (auto split: prod.splits)
  have "grows objs good s1 s'"
    using Cons.IH [OF s1 r1] g step_some Cons.prems(3,4) by (metis (no_types) grows_def)
  with g show ?case by (rule step_trans)
qed simp

text \<open>A reader that Get returns is sound for the object it reads.\<close>

lemma cacheGet_Inr:
  assumes "cacheGet st k s = (Inr r, s')" and "good s"
  obtains b where "r = Hit k b" and "grows objs good s s'" and "s_rerr b = None \<longrightarrow> objs s' k = Some (s_bytes b)"
  | f v where "r = Miss f" and "grows objs good s s'" and "sound k v f" and "f_closed f = False"
      and "\<forall>b. v = Some b \<longrightarrow> objs s' k = Some b"
      and "s_rerr (f_body f) = None \<longrightarrow> v = Some (s_bytes (f_body f))"
proof -
  obtain s1 where c: "w_ctx (origin st) s = (None, s1)"
    using assms(1) by (auto simp: cacheGet_def io_bind_eq_Inr_iff)
  obtain cr s2 where h: "w_get (cache st) k s1 = (cr, s2)" by (cases "w_get (cache st) k s1")
  have g2: "grows objs good s s2"
    using ctx_step [OF c] hit_grows [OF h] by (rule step_trans)
  show ?thesis
  proof (cases cr)
    case (Inr b)
    have "good s1" using ctx_step [OF c] assms(2) by (simp add: grows_def)
    with Inr show ?thesis
      using that(1) assms(1) c h g2 hit_exact [of k s1 b s2]
      by (auto simp: cacheGet_def io_bind_eq_Inr_iff)
  next
    case (Inl e)
    define s3 where "s3 = (if errors_is e ErrNotFound then s2 else report st ''get'' k (Some e) s2)"
    have g3: "grows objs good s s3"
      using g2 report_grows step_trans by (auto simp: s3_def)
    obtain body s4 where o: "w_get (origin st) k s3 = (Inr body, s4)"
      using assms(1) Inl c h by (auto simp: cacheGet_def io_bind_eq_Inr_iff s3_def)
    obtain tmp s5 where t: "newTemp_fn st s4 = (tmp, s5)" by (cases "newTemp_fn st s4")
    define f where "f = \<lparr>f_key = k, f_body = body, f_tmp = (case tmp of Inl _ \<Rightarrow> None | Inr t \<Rightarrow> Some t),
                       f_eof = False, f_closed = False, f_closeErr = None\<rparr>"
    have r: "r = Miss f" and s': "s' = report st ''create scratch file'' k (errOf tmp) s5"
      using assms(1) Inl c h o t by (auto simp: cacheGet_def io_bind_eq_Inr_iff s3_def f_def)
    have g4: "grows objs good s s4" using g3 get_step [OF o] by (rule step_trans)
    have g5: "grows objs good s4 s'"
      unfolding s' using temp_grows [OF t] report_grows by (rule step_trans)
    define v where "v = (if s_rerr body = None then Some (s_bytes body) else None)"
    have val: "objs s' k = Some (s_bytes body)" if "s_rerr body = None"
    proof -
      have "good s3" using g3 assms(2) by (simp add: grows_def)
      then have "objs s4 k = Some (s_bytes body)"
        using object_store.get_ok [OF origin_store o] that by simp
      moreover have "good s4" using g4 assms(2) by (simp add: grows_def)
      ultimately show ?thesis using step_some [OF g5] by blast
    qed
    show ?thesis
    proof (rule that(2) [of f v])
      show "sound k v f"
        using temp_empty [of s4 _ s5] t by (auto simp: sound_def f_def v_def split: sum.splits)
      show "grows objs good s s'" using g4 g5 by (rule step_trans)
    qed (use r val in \<open>auto simp: f_def v_def split: if_splits\<close>)
  qed
qed

lemma cacheGet_Inl:
  assumes "cacheGet st k s = (Inl e, s')"
  shows "grows objs good s s' \<and> (good s \<longrightarrow> errors_is e ErrNotFound \<longrightarrow> objs s k = None)"
proof -
  obtain ce s1 where c: "w_ctx (origin st) s = (ce, s1)" by (cases "w_ctx (origin st) s")
  show ?thesis
  proof (cases ce)
    case (Some ce')
    then show ?thesis
      using assms c ctx_step [OF c] ctx_present [of s ce' s1]
      by (auto simp: cacheGet_def io_bind_eq_Inl_iff)
  next
    case None
    obtain cr s2 where h: "w_get (cache st) k s1 = (cr, s2)" by (cases "w_get (cache st) k s1")
    obtain e1 where e1: "cr = Inl e1"
      using assms c None h by (cases cr) (auto simp: cacheGet_def io_bind_eq_Inl_iff)
    define s3 where "s3 = (if errors_is e1 ErrNotFound then s2 else report st ''get'' k (Some e1) s2)"
    have g3: "grows objs good s s3"
      using ctx_step [OF c] hit_grows [OF h] report_grows step_trans by (auto simp: s3_def)
    have o: "w_get (origin st) k s3 = (Inl e, s')"
      using assms c None h e1 by (auto simp: cacheGet_def io_bind_eq_Inl_iff s3_def)
    have "objs s k = None" if "good s" "errors_is e ErrNotFound"
      using step_none [OF g3 that(1)] object_store.get_absent [OF origin_store o] that g3
      by (simp add: grows_def)
    then show ?thesis using step_trans [OF g3 get_step [OF o]] by blast
  qed
qed

text \<open>Reading to the end without an error returns all that was left.\<close>

lemma read_bytes:
  assumes "readerRead st n r s = ((b, stt), r', s')"
  shows "(stt = More \<longrightarrow> rest r = b @ rest r') \<and> (stt = Eof \<longrightarrow> b = [] \<and> rest r = [])"
proof -
  have "(stt = More \<longrightarrow> s_bytes (f_body f) = b @ s_bytes (f_body f')) \<and> (stt = Eof \<longrightarrow> b = [] \<and> s_bytes (f_body f) = [])"
    if "fillRead st n f s = ((b, stt), f', s')" for f f'
    using that
    by (auto simp: fillRead_def bodyRead_def split: if_splits prod.splits option.splits rstatus.splits
        dest: discard_simps spoolBytes_body)
  then show ?thesis
    using assms
    by (auto simp: readerRead_def hitRead_def bodyRead_def rest_def split: reader.splits prod.splits if_splits
        option.splits)
qed

definition reader_err :: "reader \<Rightarrow> goerr option" where
  "reader_err r = (case r of Hit _ b \<Rightarrow> s_rerr b | Miss f \<Rightarrow> s_rerr (f_body f))"

lemma read_eof: "readerRead st n r s = ((b, Eof), r', s') \<Longrightarrow> reader_err r = None"
  by (auto simp: readerRead_def hitRead_def fillRead_def bodyRead_def reader_err_def
      split: reader.splits prod.splits if_splits option.splits rstatus.splits)

lemma read_err: "readerRead st n r s = (out, r', s') \<Longrightarrow> reader_err r' = reader_err r"
  by (auto simp: readerRead_def hitRead_def fillRead_def reader_err_def
      split: reader.splits prod.splits if_splits option.splits rstatus.splits
      dest!: discard_simps spoolBytes_body bodyRead_cases)

lemma drain_sound:
  assumes "drain st n r s = ((b, e), r', s')" and "sound_reader k v r"
  shows "grows objs good s s' \<and> sound_reader k v r' \<and> (e = None \<longrightarrow> b = rest r \<and> reader_err r = None)"
  using assms
proof (induction "length (rest r)" arbitrary: r s b e r' s' rule: less_induct)
  case less
  obtain b1 stt r1 s1 where rd: "readerRead st (Suc n) r s = ((b1, stt), r1, s1)"
    by (metis surj_pair)
  note g = read_sound [OF rd less.prems(2)] and bs = read_bytes [OF rd] and er = read_err [OF rd]
  show ?case
  proof (cases stt)
    case More
    obtain bs2 e2 r2 s2 where d: "drain st n r1 s1 = ((bs2, e2), r2, s2)"
      by (metis surj_pair)
    have out: "b = b1 @ bs2" "e = e2" "r' = r2" "s' = s2"
      using less.prems(1) More rd d by (simp_all add: drain.simps [of st n r s])
    have "grows objs good s1 s2 \<and> sound_reader k v r2 \<and> (e2 = None \<longrightarrow> bs2 = rest r1 \<and> reader_err r1 = None)"
      by (rule less.hyps [OF readerRead_shorter [OF rd [unfolded More]] d conjunct2 [OF g]])
    then show ?thesis
      using out g bs er More step_trans by auto
  next
    case Eof
    then show ?thesis
      using less.prems(1) rd g bs read_eof by (auto simp: drain.simps [of st n r s])
  next
    case (Fail x)
    then show ?thesis
      using less.prems(1) rd g by (auto simp: drain.simps [of st n r s])
  qed
qed

lemma whole_cases:
  assumes "cacheWhole st n k s = (r, s')" and "good s"
  obtains e where "r = Inl e" and "cacheGet st k s = (Inl e, s')"
  | b where "r = Inr b" and "grows objs good s s'" and "s_rerr b = None \<longrightarrow> objs s' k = Some (s_bytes b)"
proof -
  obtain gr s1 where gt: "cacheGet st k s = (gr, s1)" by (cases "cacheGet st k s")
  show ?thesis
  proof (cases gr)
    case (Inl e)
    then show ?thesis using that(1) assms(1) gt by (simp add: cacheWhole_def io_bind_def)
  next
    case (Inr rd)
    obtain b e r1 s2 where d: "drain st n rd s1 = ((b, e), r1, s2)" by (metis surj_pair)
    obtain ce r2 s3 where cl: "readerClose st r1 s2 = (ce, r2, s3)" by (metis surj_pair)
    have out: "r = Inr \<lparr>s_bytes = b, s_reads = 0, s_rerr = e, s_cerr = ce\<rparr>" "s' = s3"
      using assms(1) gt Inr d cl by (simp_all add: cacheWhole_def io_bind_def)
    obtain v where g1: "grows objs good s s1" and sr: "sound_reader k v rd"
      and v: "\<forall>b. v = Some b \<longrightarrow> objs s1 k = Some b" and ok: "reader_err rd = None \<longrightarrow> objs s1 k = Some (rest rd)"
    proof (rule cacheGet_Inr [OF gt [unfolded Inr] assms(2)])
      fix b assume "rd = Hit k b" "grows objs good s s1" "s_rerr b = None \<longrightarrow> objs s1 k = Some (s_bytes b)"
      then show ?thesis using that [of None] by (simp add: sound_reader_def reader_err_def rest_def)
    next
      fix f v assume "rd = Miss f" "grows objs good s s1" "sound k v f" "\<forall>b. v = Some b \<longrightarrow> objs s1 k = Some b"
        "s_rerr (f_body f) = None \<longrightarrow> v = Some (s_bytes (f_body f))"
      then show ?thesis using that [of v] by (simp add: sound_reader_def reader_err_def rest_def)
    qed
    have gd: "good s1" using g1 assms(2) by (simp add: grows_def)
    note ds = drain_sound [OF d sr]
    have g2: "good s2" using ds gd by (simp add: grows_def)
    have v2: "\<And>b. v = Some b \<Longrightarrow> objs s2 k = Some b" using v ds gd step_some by blast
    have g3: "grows objs good s2 s3" using close_sound [OF cl _ v2 g2] ds by blast
    have "grows objs good s1 s3" using ds g3 step_trans by blast
    moreover have "objs s3 k = Some b" if "e = None"
      using step_some [OF \<open>grows objs good s1 s3\<close> gd] ds ok that by simp
    ultimately show ?thesis
      using that(2) [OF out(1)] out(2) step_trans [OF g1] by simp
  qed
qed

lemma create_steps:
  assumes "cacheCreate st k v s = (ce, s')" and "good s"
  shows "\<exists>s1. w_create (origin st) k v s = (ce, s1) \<and> grows objs good s s1 \<and> grows objs good s1 s'"
proof -
  obtain e s1 where c: "w_create (origin st) k v s = (e, s1)" by (cases "w_create (origin st) k v s")
  have g: "grows objs good s s1" by (rule object_store.create_grows [OF origin_store c])
  show ?thesis
    using assms c g fill_step [of s1 k v] object_store.create_ok [OF origin_store, of k v s s1]
    by (auto simp: cacheCreate_def split: option.splits)
qed

text \<open>The caching store is an object store over its origin's objects.\<close>

lemma cache_contract: "object_store (cache_world st n) objs good"
proof unfold_locales
  fix s ce s' show "w_ctx (cache_world st n) s = (ce, s') \<Longrightarrow> grows objs good s s'"
    by (simp add: cache_world_def ctx_step)
next
  fix p m s lr s' show "w_list (cache_world st n) p m s = (lr, s') \<Longrightarrow> grows objs good s s'"
    by (simp add: cache_world_def cacheList_def object_store.list_grows [OF origin_store])
next
  fix k s gr s' assume "w_get (cache_world st n) k s = (gr, s')"
  then have "cacheWhole st n k s = (gr, s')" by (simp add: cache_world_def)
  then have "good s \<Longrightarrow> grows objs good s s'"
    by (metis whole_cases cacheGet_Inl)
  then show "grows objs good s s'" by (auto simp: grows_def)
next
  fix k v s ce s' assume "w_create (cache_world st n) k v s = (ce, s')"
  then have "good s \<Longrightarrow> grows objs good s s'"
    using create_steps step_trans by (fastforce simp: cache_world_def)
  then show "grows objs good s s'" by (auto simp: grows_def)
next
  fix m s rr s' show "w_rand (cache_world st n) m s = (rr, s') \<Longrightarrow> grows objs good s s'"
    by (simp add: cache_world_def object_store.rand_grows [OF origin_store])
next
  fix q s ce s' show "w_tmp (cache_world st n) q s = (ce, s') \<Longrightarrow> grows objs good s s'"
    by (simp add: cache_world_def tmp_step)
next
  fix p m s ks s'
  show "w_list (cache_world st n) p m s = (Inr ks, s') \<Longrightarrow> good s \<Longrightarrow> is_listing p m (objs s) (objs s') ks"
    by (simp add: cache_world_def cacheList_def object_store.list_ok [OF origin_store])
next
  fix k s b s' assume "w_get (cache_world st n) k s = (Inr b, s')" "good s" "s_rerr b = None"
  then show "objs s' k = Some (s_bytes b)"
    by (auto simp: cache_world_def elim: whole_cases)
next
  fix k s e s' assume "w_get (cache_world st n) k s = (Inl e, s')" "good s" "errors_is e ErrNotFound"
  then show "objs s k = None"
    by (auto simp: cache_world_def elim!: whole_cases dest: cacheGet_Inl)
next
  fix k v s s' assume "w_create (cache_world st n) k v s = (None, s')" "good s"
  then show "objs s k = None \<and> objs s' k = Some v"
    using create_steps [of k v s None s'] object_store.create_ok [OF origin_store, of k v s]
    by (auto simp: cache_world_def) (metis grows_def step_some)
next
  fix k v s e s' assume a: "w_create (cache_world st n) k v s = (Some e, s')" "good s" "errors_is e ErrExists"
  then obtain s1 where s1: "w_create (origin st) k v s = (Some e, s1)" "grows objs good s s1" "grows objs good s1 s'"
    using create_steps [of k v s "Some e" s'] by (auto simp: cache_world_def)
  then have "objs s1 k \<noteq> None" "good s1"
    using object_store.create_exists [OF origin_store] a by (auto simp: grows_def)
  then show "objs s' k \<noteq> None" using step_some [OF s1(3)] by blast
qed

text \<open>
  Whatever the caller does with the reader, the invariant is kept: in particular the cache holds
  nothing but values of the origin.
\<close>

lemma reader_safe:
  assumes "cacheGet st k s = (Inr r, s1)" and "good s" and "runReader st ops r s1 = (r', s')"
  shows "grows objs good s s'"
proof (rule cacheGet_Inr [OF assms(1,2)])
  fix b assume "r = Hit k b" "grows objs good s s1"
  then show ?thesis
    using run_sound [OF assms(3), of k None] assms(2) step_trans by (auto simp: sound_reader_def grows_def)
next
  fix f v assume f: "r = Miss f" "grows objs good s s1" "sound k v f" "\<forall>b. v = Some b \<longrightarrow> objs s1 k = Some b"
  have "grows objs good s1 s'"
    by (rule run_sound [OF assms(3), of k v]) (use f assms(2) in \<open>auto simp: sound_reader_def grows_def\<close>)
  with f(2) show ?thesis by (rule step_trans)
qed

end

end
