(* ===== verification/CacheMem.thy ===== *)
theory CacheMem
  imports CacheFacts
begin

section \<open>A cache in memory before an origin in memory\<close>

text \<open>
  The caching store that \<open>cachestore.New\<close> returns for two in-memory stores: its state is the pair
  of theirs, each with an environment of its own, and other writers may create objects in the
  origin between any two calls but not in the cache, which the package requires to be private.
\<close>

definition snd_op :: "('u \<Rightarrow> 'r \<times> 'u) \<Rightarrow> 's \<times> 'u \<Rightarrow> 'r \<times> ('s \<times> 'u)" where
  "snd_op f x = (case f (snd x) of (r, u') \<Rightarrow> (r, (fst x, u')))"

definition snd_world :: "'u world \<Rightarrow> ('s \<times> 'u) world" where
  "snd_world W =
     \<lparr>w_ctx = snd_op (w_ctx W), w_list = (\<lambda>p n. snd_op (w_list W p n)),
      w_get = (\<lambda>k. snd_op (w_get W k)), w_create = (\<lambda>k v. snd_op (w_create W k v)),
      w_rand = (\<lambda>n. snd_op (w_rand W n)), w_tmp = (\<lambda>q. snd_op (w_tmp W q)),
      w_windows = w_windows W\<rparr>"

lemma snd_op_eq_iff: "snd_op f x = (r, y) \<longleftrightarrow> f (snd x) = (r, snd y) \<and> fst y = fst x"
  by (cases y) (auto simp: snd_op_def split: prod.splits)

type_synonym tiers = "mem_state \<times> mem_state"

text \<open>An error handler that counts, in a part of the state no store uses.\<close>

definition countError :: "goerr \<Rightarrow> tiers \<Rightarrow> tiers" where
  "countError e x = (fst x, (fst (snd x))\<lparr>rng := Suc (rng (fst (snd x)))\<rparr>, snd (snd x))"

definition memTiers :: "bool \<Rightarrow> string \<Rightarrow> tiers cstore" where
  "memTiers windows dir =
     (case cacheNew windows
        \<lparr>cc_Origin = Some (Some (lift_world mem_world)), cc_Cache = Some (Some (snd_world mem_world)),
         cc_TempDir = dir, cc_OnCacheError = Some countError\<rparr> of
        Inr st \<Rightarrow> st
      | Inl e \<Rightarrow> undefined)"

lemma memTiers_simps [simp]:
  "origin (memTiers w dir) = lift_world mem_world"
  "cache (memTiers w dir) = snd_world mem_world"
  "onError (memTiers w dir) = Some countError"
  "newTemp_fn (memTiers w dir) = newSpool (lift_world mem_world) w dir"
  by (simp_all add: memTiers_def cacheNew_def nilStore_def Let_def)

definition unshared :: "mem_state \<Rightarrow> bool" where
  "unshared x \<longleftrightarrow> (\<forall>ev\<in>set (events (fst x)). case ev of Other k v \<Rightarrow> False | _ \<Rightarrow> True)"

definition coherent :: "tiers \<Rightarrow> bool" where
  "coherent x \<longleftrightarrow> mem_good (fst x) \<and> mem_good (snd x) \<and> unshared (snd x) \<and> mem_objs (snd x) \<subseteq>\<^sub>m mem_objs (fst x)"

definition tier_objs :: "tiers \<Rightarrow> string \<rightharpoonup> bytes" where
  "tier_objs x = mem_objs (fst x)"

lemma unshared_steady: "steady x x' \<Longrightarrow> unshared x \<Longrightarrow> unshared x'"
  by (simp add: unshared_def steady_def)

lemma unshared_turn:
  assumes "unshared x" and "env_turn x = (b, x')" shows "snd x' = snd x \<and> unshared x'"
  using assms by (cases "events (fst x)") (auto simp: unshared_def env_turn_def split: env_event.splits)

lemma unshared_lossy:
  assumes "unshared x" and "lossy m x = (r, x')"
  obtains x1 r1 where "snd x1 = snd x" and "unshared x1" and "m x1 = (r1, x')"
proof -
  obtain b x1 where t: "env_turn x = (b, x1)" by (cases "env_turn x")
  obtain r1 x2 where m: "m x1 = (r1, x2)" by (cases "m x1")
  show ?thesis using that [of x1 r1] unshared_turn [OF assms(1) t] assms(2) t m by (simp add: lossy_def)
qed

lemma unshared_get:
  assumes "w_get mem_world k x = (r, x')" and "unshared x"
  shows "snd x' = snd x \<and> unshared x'"
proof -
  obtain x1 r1 where "snd x1 = snd x" "unshared x1" "memGet env_ctx k x1 = (r1, x')"
    using assms by (auto simp: mem_world_def elim: unshared_lossy)
  then show ?thesis
    using memGet_steady unshared_steady memGet_state by metis
qed

lemma unshared_create:
  assumes "w_create mem_world k v x = (r, x')" and "unshared x"
  shows "unshared x' \<and> (mem_objs x' = mem_objs x \<or> mem_objs x' = (mem_objs x)(k \<mapsto> v))"
proof -
  obtain x1 r1 where x1: "snd x1 = snd x" "unshared x1"
      and c: "memCreate env_ctx k (Some (bytes_source v)) x1 = (r1, x')"
    using assms by (auto simp: mem_world_def mem_create_def split: prod.splits elim: unshared_lossy)
  from memCreate_steady [OF c] show ?thesis
  proof
    assume "steady x1 x'"
    with x1 show ?thesis by (auto simp: mem_objs_def steady_def unshared_def)
  next
    assume "\<exists>x3. steady x1 x3 \<and> memPut k v x3 = (err_of r1, x')"
    then obtain x3 where x3: "steady x1 x3" and p: "memPut k v x3 = (err_of r1, x')" by blast
    have x': "x' = snd (memPut k v x3)" using p by simp
    have o: "mem_objs x3 = mem_objs x" using x3 x1 by (simp add: steady_def mem_objs_def)
    have "unshared x'" using unshared_steady [OF x3 x1(2)] memPut_objs(2) by (simp add: x' unshared_def)
    then show ?thesis by (auto simp: x' memPut_objs o)
  qed
qed

lemma coherent_origin:
  assumes "coherent x" and "snd x' = snd x" and "mgrows (fst x) (fst x')"
  shows "coherent x'"
  using assms by (auto simp: coherent_def grows_def intro: map_le_trans)

lemma tier_step:
  assumes "mgrows (fst x) (fst x')" and "snd x' = snd x"
  shows "grows tier_objs coherent x x'"
  using assms coherent_origin by (auto simp: grows_def tier_objs_def coherent_def)

lemma tier_origin: "object_store (lift_world mem_world) tier_objs coherent"
  unfolding tier_objs_def
proof (rule object_store.strengthen [OF mem.lifted_store])
  show "\<And>s. coherent s \<Longrightarrow> mem_good (fst s)" by (simp add: coherent_def)
  show "coherent s'" if "w_ctx (lift_world mem_world) s = (ce, s')" "coherent s" for s ce s'
    using that mem.ctx_grows [of "fst s" ce "fst s'"] coherent_origin [of s s'] by (auto simp: lift_world_def lift_op_eq_iff)
  show "coherent s'" if "w_list (lift_world mem_world) p n s = (lr, s')" "coherent s" for p n s lr s'
    using that mem.list_grows [of p n "fst s" lr "fst s'"] coherent_origin [of s s'] by (auto simp: lift_world_def lift_op_eq_iff)
  show "coherent s'" if "w_get (lift_world mem_world) k s = (gr, s')" "coherent s" for k s gr s'
    using that mem.get_grows [of k "fst s" gr "fst s'"] coherent_origin [of s s'] by (auto simp: lift_world_def lift_op_eq_iff)
  show "coherent s'" if "w_create (lift_world mem_world) k v s = (ce, s')" "coherent s" for k v s ce s'
    using that mem.create_grows [of k v "fst s" ce "fst s'"] coherent_origin [of s s'] by (auto simp: lift_world_def lift_op_eq_iff)
  show "coherent s'" if "w_rand (lift_world mem_world) i s = (rr, s')" "coherent s" for i s rr s'
    using that mem.rand_grows [of i "fst s" rr "fst s'"] coherent_origin [of s s'] by (auto simp: lift_world_def lift_op_eq_iff)
  show "coherent s'" if "w_tmp (lift_world mem_world) q s = (te, s')" "coherent s" for q s te s'
    using that mem.tmp_grows [of q "fst s" te "fst s'"] coherent_origin [of s s'] by (auto simp: lift_world_def lift_op_eq_iff)
qed

lemma tmp_tier: "w_tmp (lift_world mem_world) q x = (e, x') \<Longrightarrow> grows tier_objs coherent x x'"
  by (auto simp: lift_world_def lift_op_eq_iff intro: tier_step dest: mem.tmp_grows)

interpretation tier_pre: state_preorder "grows tier_objs coherent"
  by unfold_locales (auto simp: grows_def intro: map_le_trans)

lemma newSpool_tier:
  assumes "newSpool (lift_world mem_world) w dir x = (r, x')"
  shows "grows tier_objs coherent x x'"
proof -
  have c: "spoolClose (lift_world mem_world) t y = (e, y') \<Longrightarrow> grows tier_objs coherent y y'" for t y e y'
    by (auto simp: spoolClose_def split: prod.splits if_splits dest!: tmp_tier intro: tier_pre.R_trans)
  have "io_rel (grows tier_objs coherent) (newSpool (lift_world mem_world) w dir)"
    unfolding newSpool_def Let_def
    by (intro tier_pre.rel_bind tier_pre.rel_check tier_pre.rel_if tier_pre.rel_ret tier_pre.rel_onerr)
      (blast intro: tmp_tier c)+
  then show ?thesis using assms by (rule io_relD)
qed

interpretation tiers: cached "memTiers w dir" tier_objs coherent for w dir
proof (rule cached.intro)
  show "object_store (origin (memTiers w dir)) tier_objs coherent"
    by (simp add: tier_origin)
  show "\<not> errors_is e ErrNotFound" if "w_ctx (origin (memTiers w dir)) s = (Some e, s')" for s e s'
    using that onCtx_err by (fastforce simp: lift_world_def lift_op_eq_iff mem_world_def)
  show "grows tier_objs coherent s s'" if "newTemp_fn (memTiers w dir) s = (tr, s')" for s tr s'
    using that newSpool_tier by simp
  show "sp_file t = [] \<and> sp_size t = 0" if "newTemp_fn (memTiers w dir) s = (Inr t, s')" for s t s'
    using that by (auto simp: newSpool_def io_bind_eq_Inr_iff Let_def split: if_splits)
  show "grows tier_objs coherent s (h e s)" if "onError (memTiers w dir) = Some h" for h s e
    using that by (auto simp: countError_def grows_def tier_objs_def coherent_def unshared_def mem_good_def mem_objs_def)
  show "grows tier_objs coherent s s'" if "w_get (cache (memTiers w dir)) k s = (gr, s')" for k s gr s'
    using that unshared_get [of k "snd s" gr "snd s'"]
    by (auto simp: snd_world_def snd_op_eq_iff grows_def tier_objs_def coherent_def mem_good_def mem_objs_def)
  show "tier_objs s' k = Some (s_bytes b)"
    if g: "w_get (cache (memTiers w dir)) k s = (Inr b, s')" "coherent s" "s_rerr b = None" for k s b s'
  proof -
    have gg: "w_get mem_world k (snd s) = (Inr b, snd s')" and f: "fst s' = fst s"
      using g(1) by (auto simp: snd_world_def snd_op_eq_iff)
    have "mem_objs (snd s') k = Some (s_bytes b)"
      using mem.get_ok [OF gg _ g(3)] g(2) by (simp add: coherent_def)
    moreover have "mem_objs (snd s') = mem_objs (snd s)"
      using unshared_get [OF gg] g(2) by (simp add: coherent_def mem_objs_def)
    ultimately show ?thesis
      using g(2) f by (metis coherent_def domI map_le_def tier_objs_def)
  qed
  show "grows tier_objs coherent s s'"
    if c: "w_create (cache (memTiers w dir)) k v s = (ce, s')" "tier_objs s k = Some v" for k v s ce s'
  proof (rule growsI)
    assume co: "coherent s"
    have cc: "w_create mem_world k v (snd s) = (ce, snd s')" and f: "fst s' = fst s"
      using c(1) by (auto simp: snd_world_def snd_op_eq_iff)
    have "mem_good (snd s')"
      using mem.create_grows [OF cc] co by (simp add: grows_def coherent_def)
    moreover have "unshared (snd s')" "mem_objs (snd s') \<subseteq>\<^sub>m mem_objs (fst s)"
      using unshared_create [OF cc] co c(2)
      by (auto simp: coherent_def tier_objs_def map_le_def split: if_splits) (metis domI)+
    ultimately show "coherent s' \<and> tier_objs s \<subseteq>\<^sub>m tier_objs s'"
      using co f by (simp add: coherent_def tier_objs_def)
  qed
qed

end
