(* ===== verification/DiskStore.thy ===== *)
theory DiskStore
  imports Writers "HOL-Library.AList"
begin

section \<open>The disk store (diskstore)\<close>

text \<open>
  \<open>diskstore.Store\<close> keeps each value in a file named by its key in hexadecimal, one directory
  component for every 128 digits. Create writes a temporary file, syncs it and links it into
  place; List walks the directories that overlap the prefix. The package \<open>os\<close> is modelled as far
  as the code uses it, over a table of paths. Each call into the operating system may fail, and
  before each one other processes may publish values in the same directory.
\<close>

subsection \<open>The file system\<close>

type_synonym path = "string list"

datatype fsnode = Regular bytes | Directory | Irregular

record disk =
  fs_nodes :: "(path \<times> fsnode) list"
  tmp_next :: nat

type_synonym disk_state = "env \<times> disk"

definition fsLookup :: "disk_state \<Rightarrow> path \<Rightarrow> fsnode option" where
  "fsLookup x p = map_of (fs_nodes (snd x)) p"

definition setNode :: "path \<Rightarrow> fsnode \<Rightarrow> disk_state \<Rightarrow> disk_state" where
  "setNode p n x = (fst x, (snd x)\<lparr>fs_nodes := AList.update p n (fs_nodes (snd x))\<rparr>)"

definition delNode :: "path \<Rightarrow> disk_state \<Rightarrow> disk_state" where
  "delNode p x = (fst x, (snd x)\<lparr>fs_nodes := AList.delete p (fs_nodes (snd x))\<rparr>)"

text \<open>What the mount fixes: how long a path may be, and whether it is Windows.\<close>

record osinfo =
  path_max :: nat
  on_windows :: bool

subsection \<open>The store and the paths of its values\<close>

record dstore =
  ds_dir :: path

definition keyChunk :: nat where
  "keyChunk = 128"

definition valueName :: string where
  "valueName = ''!''"

function pathLoop :: "path \<Rightarrow> string \<Rightarrow> path" where
  "pathLoop p encoded =
     (if 0 < length encoded then
        (let n = min (length encoded) keyChunk in pathLoop (p @ [take n encoded]) (drop n encoded))
      else p)"
  by pat_completeness auto
termination by (relation "measure (\<lambda>(p, e). length e)") (auto simp: keyChunk_def)

declare pathLoop.simps [simp del]

definition dsPath :: "dstore \<Rightarrow> string \<Rightarrow> path" where
  "dsPath st key = pathLoop (ds_dir st @ [''v1'']) (hexEncode key) @ [valueName]"

definition validChunk :: "string \<Rightarrow> bool" where
  "validChunk name \<longleftrightarrow>
     \<not> (length name = 0 \<or> length name > keyChunk \<or> length name mod 2 \<noteq> 0) \<and> list_all isHexDigit name"

subsection \<open>Calls into the operating system\<close>

text \<open>Another process publishes a value: the directories it lacks, then the value if it is absent.\<close>

fun addDirs :: "path list \<Rightarrow> disk_state \<Rightarrow> disk_state" where
  "addDirs [] x = x"
| "addDirs (p # ps) x = addDirs ps (if fsLookup x p = None \<and> fsLookup x (butlast p) = Some Directory then setNode p Directory x else x)"

definition otherPublish :: "dstore \<Rightarrow> string \<Rightarrow> bytes \<Rightarrow> disk_state \<Rightarrow> disk_state" where
  "otherPublish st key v x =
     (let p = dsPath st key; x1 = addDirs (map (\<lambda>n. take n p) [0..<length p]) x in
      if fsLookup x1 p = None \<and> fsLookup x1 (butlast p) = Some Directory then setNode p (Regular v) x1
      else x1)"

definition disk_turn :: "dstore \<Rightarrow> disk_state \<Rightarrow> bool \<times> disk_state" where
  "disk_turn st x =
     (case events (fst x) of
        [] \<Rightarrow> (False, x)
      | ev # evs \<Rightarrow>
          (let x1 = ((fst x)\<lparr>events := evs\<rparr>, snd x) in
           case ev of
             Quiet \<Rightarrow> (False, x1)
           | Other k v \<Rightarrow> (False, otherPublish st k v x1)
           | LostReply \<Rightarrow> (True, x1)))"

definition os_error :: goerr where
  "os_error = Msg ''input/output error''"

definition os_call :: "dstore \<Rightarrow> (disk_state, 'a) io \<Rightarrow> (disk_state, 'a) io" where
  "os_call st m x = (case disk_turn st x of (fault, x1) \<Rightarrow> if fault then (Inl os_error, x1) else m x1)"

definition osStat :: "dstore \<Rightarrow> path \<Rightarrow> (disk_state, fsnode) io" where
  "osStat st p = os_call st (\<lambda>x.
     (case fsLookup x p of None \<Rightarrow> Inl (Sentinel NotExist) | Some n \<Rightarrow> Inr n, x))"

definition osMkdir :: "dstore \<Rightarrow> path \<Rightarrow> (disk_state, unit) io" where
  "osMkdir st p = os_call st (\<lambda>x.
     if fsLookup x p \<noteq> None then (Inl (Sentinel OsExist), x)
     else if fsLookup x (butlast p) \<noteq> Some Directory then (Inl (Sentinel NotExist), x)
     else (Inr (), setNode p Directory x))"

text \<open>\<open>os.MkdirAll\<close>, on the path's components from the last to the first.\<close>

fun mkdirAllRev :: "dstore \<Rightarrow> path \<Rightarrow> (disk_state, unit) io" where
  "mkdirAllRev st [] = io_ret ()"
| "mkdirAllRev st (c # rp) =
     (let p = rev (c # rp) in
      io_bind (io_try (osStat st p)) (\<lambda>r. case r of
        Inr n \<Rightarrow> if n = Directory then io_ret () else io_fail (Msg ''not a directory'')
      | Inl _ \<Rightarrow>
          io_bind (mkdirAllRev st rp) (\<lambda>_.
          io_bind (io_try (osMkdir st p)) (\<lambda>m. case m of
            Inr _ \<Rightarrow> io_ret ()
          | Inl e \<Rightarrow> io_bind (io_try (osStat st p)) (\<lambda>r2.
              if r2 = Inr Directory then io_ret () else io_fail e)))))"

definition osMkdirAll :: "dstore \<Rightarrow> path \<Rightarrow> (disk_state, unit) io" where
  "osMkdirAll st p = mkdirAllRev st (rev p)"

text \<open>\<open>os.CreateTemp(dir, ".tmp-*")\<close> puts something new in place of the star.\<close>

definition osCreateTemp :: "dstore \<Rightarrow> path \<Rightarrow> (disk_state, path) io" where
  "osCreateTemp st dir = os_call st (\<lambda>x.
     let p = dir @ [''.tmp-'' @ replicate (tmp_next (snd x)) (CHR ''0'')] in
     if fsLookup x p \<noteq> None then (Inl (Sentinel OsExist), x)
     else if fsLookup x dir \<noteq> Some Directory then (Inl (Sentinel NotExist), x)
     else (Inr p, setNode p (Regular []) (fst x, (snd x)\<lparr>tmp_next := Suc (tmp_next (snd x))\<rparr>)))"

definition osWrite :: "dstore \<Rightarrow> path \<Rightarrow> bytes \<Rightarrow> (disk_state, unit) io" where
  "osWrite st p b = os_call st (\<lambda>x.
     case fsLookup x p of
       Some (Regular c) \<Rightarrow> (Inr (), setNode p (Regular (c @ b)) x)
     | _ \<Rightarrow> (Inl os_error, x))"

text \<open>Syncing and closing change nothing a later call can see.\<close>

definition osFlush :: "dstore \<Rightarrow> (disk_state, unit) io" where
  "osFlush st = os_call st (io_ret ())"

definition osLink :: "dstore \<Rightarrow> path \<Rightarrow> path \<Rightarrow> (disk_state, unit) io" where
  "osLink st a b = os_call st (\<lambda>x.
     case fsLookup x a of
       Some (Regular c) \<Rightarrow>
         if fsLookup x b \<noteq> None then (Inl (Sentinel OsExist), x)
         else if fsLookup x (butlast b) \<noteq> Some Directory then (Inl (Sentinel NotExist), x)
         else (Inr (), setNode b (Regular c) x)
     | _ \<Rightarrow> (Inl (Sentinel NotExist), x))"

definition osRemove :: "dstore \<Rightarrow> path \<Rightarrow> (disk_state, unit) io" where
  "osRemove st p = os_call st (\<lambda>x.
     case fsLookup x p of
       None \<Rightarrow> (Inl (Sentinel NotExist), x)
     | Some n \<Rightarrow> if n = Directory then (Inl (Msg ''directory not empty''), x) else (Inr (), delNode p x))"

text \<open>\<open>os.ReadDir\<close> returns the entries of a directory sorted by name.\<close>

definition entryNames :: "disk_state \<Rightarrow> path \<Rightarrow> string list" where
  "entryNames x dir =
     sort (remdups (map last (filter (\<lambda>p. p \<noteq> [] \<and> butlast p = dir) (map fst (fs_nodes (snd x))))))"

definition osReadDir :: "dstore \<Rightarrow> path \<Rightarrow> (disk_state, (string \<times> fsnode) list) io" where
  "osReadDir st dir = os_call st (\<lambda>x.
     case fsLookup x dir of
       Some Directory \<Rightarrow> (Inr (map (\<lambda>n. (n, the (fsLookup x (dir @ [n])))) (entryNames x dir)), x)
     | Some _ \<Rightarrow> (Inl (Msg ''not a directory''), x)
     | None \<Rightarrow> (Inl (Sentinel NotExist), x))"

subsection \<open>New\<close>

text \<open>\<open>filepath.Abs\<close> depends on the process, so it is an argument.\<close>

definition dsNew :: "(string \<Rightarrow> goerr + path) \<Rightarrow> string \<Rightarrow> (disk_state, dstore) io" where
  "dsNew absPath dir =
     io_bind (io_lift (fail_if (dir = []) (Msg ''diskstore: empty directory''))) (\<lambda>_.
     io_bind (io_lift (absPath dir)) (\<lambda>abs.
     io_bind (io_wrap (\<lambda>e. Wrap ''diskstore: open'' [e])
       (osMkdirAll \<lparr>ds_dir = abs\<rparr> (abs @ [''v1'']))) (\<lambda>_.
     io_ret \<lparr>ds_dir = abs\<rparr>)))"

subsection \<open>List\<close>

definition disk_ctx :: "disk_state \<Rightarrow> goerr option \<times> disk_state" where
  "disk_ctx = lift_op env_ctx"

definition hexDecodeString :: "string \<Rightarrow> goerr + bytes" where
  "hexDecodeString s =
     (let b = hexDecode s in if 2 * length b = length s then Inr b else Inl (Msg ''encoding/hex: invalid input''))"

text \<open>
  The recursive closure \<open>walk\<close> and its loop over the entries. \<open>acc\<close> is the captured variable \<open>keys\<close>; a
  \<^const>\<open>None\<close> from the switch is its \<open>continue\<close>. Reading a directory whose path is too long fails,
  which is also what bounds the recursion.
\<close>

function (sequential) dsWalk ::
    "osinfo \<Rightarrow> dstore \<Rightarrow> int \<Rightarrow> string \<Rightarrow> path \<Rightarrow> string \<Rightarrow> bool \<Rightarrow> string list \<Rightarrow> (disk_state, string list) io"
and dsEntries ::
    "osinfo \<Rightarrow> dstore \<Rightarrow> int \<Rightarrow> string \<Rightarrow> path \<Rightarrow> string \<Rightarrow> bool \<Rightarrow> (string \<times> fsnode) list \<Rightarrow> string list \<Rightarrow>
       (disk_state, string list) io" where
  "dsWalk os st limit encodedPrefix dir encoded descend acc =
     io_bind (io_check disk_ctx) (\<lambda>_.
       if path_max os < length dir then io_fail (Msg ''file name too long'')
       else io_bind (osReadDir st dir) (\<lambda>es. dsEntries os st limit encodedPrefix dir encoded descend es acc))"
| "dsEntries os st limit encodedPrefix dir encoded descend [] acc = io_ret acc"
| "dsEntries os st limit encodedPrefix dir encoded descend ((name, node) # es) acc =
     io_bind (io_check disk_ctx) (\<lambda>_.
     io_bind
       (if name = valueName \<and> hasPrefix encoded encodedPrefix then
          (if \<not> (case node of Regular _ \<Rightarrow> True | _ \<Rightarrow> False) then io_fail (Msg ''diskstore: non-regular value'')
           else io_bind (io_lift (hexDecodeString encoded)) (\<lambda>key. io_ret (Some (acc @ [key]))))
        else if descend \<and> validChunk name then
          (let nxt = encoded @ name in
           if \<not> hasPrefix nxt encodedPrefix \<and> \<not> hasPrefix encodedPrefix nxt then io_ret None
           else if node \<noteq> Directory then io_fail (Msg ''diskstore: non-directory key component'')
           else io_bind (dsWalk os st limit encodedPrefix (dir @ [name]) nxt (length name = keyChunk) acc)
                  (\<lambda>ks. io_ret (Some ks)))
        else io_ret (Some acc))
       (\<lambda>r. case r of
          None \<Rightarrow> dsEntries os st limit encodedPrefix dir encoded descend es acc
        | Some ks \<Rightarrow>
            if int (length ks) = limit then io_ret ks
            else dsEntries os st limit encodedPrefix dir encoded descend es ks))"
  by pat_completeness auto
termination
  by (relation "measures
      [\<lambda>a. case a of Inl (os, _, _, _, dir, _) \<Rightarrow> 2 * (Suc (path_max os) - length dir)
                   | Inr (os, _, _, _, dir, _) \<Rightarrow> 2 * (Suc (path_max os) - length dir) - 1,
       \<lambda>a. case a of Inl _ \<Rightarrow> 0 | Inr (_, _, _, _, _, _, _, es, _) \<Rightarrow> length es]")
     auto

declare dsWalk.simps [simp del] dsEntries.simps [simp del]

definition dsList :: "osinfo \<Rightarrow> dstore \<Rightarrow> string \<Rightarrow> int \<Rightarrow> (disk_state, string list) io" where
  "dsList os st pfx limit =
     io_bind (io_check disk_ctx) (\<lambda>_.
     io_bind (io_lift (fail_if (limit \<le> 0) (Msg ''diskstore: limit must be positive''))) (\<lambda>_.
     io_wrap (\<lambda>e. Wrap ''diskstore: list'' [e])
       (dsWalk os st limit (hexEncode pfx) (ds_dir st @ [''v1'']) [] True [])))"

subsection \<open>Get\<close>

text \<open>The first Read of a reader polls the context and then reads the file.\<close>

definition diskReader :: "dstore \<Rightarrow> fsnode \<Rightarrow> (disk_state, stream) io" where
  "diskReader st node =
     io_bind (io_poll disk_ctx) (\<lambda>e. case e of
       Some err \<Rightarrow> io_ret \<lparr>s_bytes = [], s_reads = 0, s_rerr = Some err, s_cerr = None\<rparr>
     | None \<Rightarrow>
         io_bind (io_try (osFlush st)) (\<lambda>r. case (r, node) of
           (Inl err, _) \<Rightarrow> io_ret \<lparr>s_bytes = [], s_reads = 0, s_rerr = Some err, s_cerr = None\<rparr>
         | (Inr _, Regular b) \<Rightarrow> io_ret \<lparr>s_bytes = b, s_reads = 1, s_rerr = None, s_cerr = None\<rparr>
         | (Inr _, _) \<Rightarrow>
             io_ret \<lparr>s_bytes = [], s_reads = 0, s_rerr = Some (Msg ''is a directory''), s_cerr = None\<rparr>))"

definition dsGet :: "dstore \<Rightarrow> string \<Rightarrow> (disk_state, stream) io" where
  "dsGet st key =
     io_bind (io_check disk_ctx) (\<lambda>_.
     io_bind
       (io_wrap (\<lambda>e. Wrap (''diskstore: get '' @ key)
            [if errors_is e NotExist then Wrap [] [Sentinel ErrNotFound, e] else e])
          (osStat st (dsPath st key)))
       (diskReader st))"

subsection \<open>Create\<close>

text \<open>\<open>io.Copy\<close> to the file, in its buffer's size; every Read polls the context.\<close>

function copyLoop :: "dstore \<Rightarrow> path \<Rightarrow> goerr option \<Rightarrow> bytes \<Rightarrow> (disk_state, int) io" where
  "copyLoop st tmp err data =
     io_bind (io_check disk_ctx) (\<lambda>_.
       if data = [] then (case err of None \<Rightarrow> io_ret 0 | Some e \<Rightarrow> io_fail e)
       else
         io_bind (osWrite st tmp (take 32768 data)) (\<lambda>_.
         io_bind (copyLoop st tmp err (drop 32768 data)) (\<lambda>n.
         io_ret (int (length (take 32768 data)) + n))))"
  by pat_completeness auto
termination by (relation "measure (\<lambda>(st, tmp, err, data). length data)") auto

declare copyLoop.simps [simp del]

text \<open>\<open>syncDir\<close>, a no-op on Windows.\<close>

definition syncDir :: "osinfo \<Rightarrow> dstore \<Rightarrow> path \<Rightarrow> (disk_state, unit) io" where
  "syncDir os st p =
     (if on_windows os then io_ret ()
      else
        io_bind (osStat st p) (\<lambda>_.
        io_bind (io_try (osFlush st)) (\<lambda>se.
        io_bind (io_try (osFlush st)) (\<lambda>ce.
        io_lift (case errors_join [errOf se, errOf ce] of None \<Rightarrow> Inr () | Some e \<Rightarrow> Inl e)))))"

text \<open>
  The loop up from the value's directory to the store's, on the components from the last to the
  first. The store's directory is always met on the way, so the empty path is not.
\<close>

fun syncUp :: "osinfo \<Rightarrow> dstore \<Rightarrow> path \<Rightarrow> (disk_state, unit) io" where
  "syncUp os st rp =
     io_bind (syncDir os st (rev rp)) (\<lambda>_.
       if rev rp = ds_dir st then io_ret ()
       else (case rp of [] \<Rightarrow> io_fail (Msg ''unreachable'') | c # rp' \<Rightarrow> syncUp os st rp'))"

declare syncUp.simps [simp del]

text \<open>Filling the temporary file, up to the point where it is closed without an error.\<close>

definition fillTemp :: "dstore \<Rightarrow> path \<Rightarrow> source \<Rightarrow> (disk_state, unit) io" where
  "fillTemp st tmp v =
     io_bind (io_onerr (errPart (osFlush st))
       (io_bind (copyLoop st tmp (src_err v) (take (nat (src_size v)) (src_data v))) (\<lambda>n.
        io_bind (io_lift (fail_if (n \<noteq> src_size v) (Sentinel UnexpectedEOF))) (\<lambda>_.
        io_bind (io_check disk_ctx) (\<lambda>_.
        osFlush st))))) (\<lambda>_.
     osFlush st)"

definition publishTemp :: "osinfo \<Rightarrow> dstore \<Rightarrow> string \<Rightarrow> path \<Rightarrow> path \<Rightarrow> source \<Rightarrow> (disk_state, unit) io" where
  "publishTemp os st key tmp path v =
     io_bind (fillTemp st tmp v) (\<lambda>_.
     io_bind (io_check disk_ctx) (\<lambda>_.
     io_bind (io_wrap (\<lambda>e. Wrap (''diskstore: create '' @ key)
            [if errors_is e OsExist then Wrap [] [Sentinel ErrExists, e] else e])
       (osLink st tmp path)) (\<lambda>_.
     syncUp os st (rev (butlast path)))))"

definition dsCreate :: "osinfo \<Rightarrow> dstore \<Rightarrow> string \<Rightarrow> source option \<Rightarrow> (disk_state, unit) io" where
  "dsCreate os st key value =
     io_bind (io_check disk_ctx) (\<lambda>_. case value of
       None \<Rightarrow> io_fail (Msg ''diskstore: invalid value size'')
     | Some v \<Rightarrow>
         io_bind (io_lift (fail_if (src_size v < 0) (Msg ''diskstore: invalid value size''))) (\<lambda>_.
         let path = dsPath st key; dir = butlast path in
         io_bind (io_try (osStat st path)) (\<lambda>r. case r of
           Inr _ \<Rightarrow> io_fail (Sentinel ErrExists)
         | Inl e \<Rightarrow>
             if \<not> errors_is e NotExist then io_fail e
             else
               io_bind (osMkdirAll st dir) (\<lambda>_.
               io_bind (osCreateTemp st dir) (\<lambda>tmp.
               io_defer (errPart (osRemove st tmp)) (publishTemp os st key tmp path v))))))"

subsection \<open>The store as a world\<close>

definition disk_rand :: "nat \<Rightarrow> (disk_state, bytes) io" where
  "disk_rand n x =
     (Inr (take n (rev (be64 (int (rng (fst x)))) @ replicate n (CHR 0x00))),
      ((fst x)\<lparr>rng := Suc (rng (fst x))\<rparr>, snd x))"

text \<open>The temporary files of the core are elsewhere; the disk they are on may be full.\<close>

definition env_tmp :: "env \<Rightarrow> goerr option \<times> env" where
  "env_tmp e =
     (case disk_left e of
        None \<Rightarrow> (None, e)
      | Some 0 \<Rightarrow> (Some (Msg ''no space left on device''), e)
      | Some (Suc n) \<Rightarrow> (None, e\<lparr>disk_left := Some n\<rparr>))"

definition disk_world :: "osinfo \<Rightarrow> dstore \<Rightarrow> disk_state world" where
  "disk_world os st =
     \<lparr>w_ctx = disk_ctx, w_list = dsList os st, w_get = dsGet st,
      w_create = (\<lambda>k v. errPart (dsCreate os st k (Some (bytes_source v)))),
      w_rand = disk_rand, w_tmp = (\<lambda>q. lift_op env_tmp), w_windows = on_windows os\<rparr>"

end
