(* ===== verification/DiskFacts.thy ===== *)
theory DiskFacts
  imports DiskStore
begin

section \<open>The disk store keeps the Store contract\<close>

text \<open>
  Paths of keys: the components of a key's path are its hexadecimal digits in full chunks with a
  last one that may be shorter, so a path determines its key, and the walk of List meets the keys
  in bytewise order. Every operating system call only adds nodes, apart from those on temporary
  files, which are no key's path.
\<close>

subsection \<open>Chunks\<close>

definition chunks :: "string \<Rightarrow> string list" where
  "chunks e = pathLoop [] e"

text \<open>All components are valid, and all but the last are full.\<close>

definition wf_chunks :: "string list \<Rightarrow> bool" where
  "wf_chunks cs \<longleftrightarrow> list_all validChunk cs \<and> (\<forall>c\<in>set (butlast cs). length c = keyChunk)"

lemma pathLoop_append: "pathLoop (p @ q) e = p @ pathLoop q e"
proof (induction q e rule: pathLoop.induct)
  case (1 q e)
  show ?case
  proof (cases "0 < length e")
    case True
    then show ?thesis
      using "1.IH" [OF _ refl] by (simp add: pathLoop.simps [of "p @ q" e] pathLoop.simps [of q e] Let_def)
  next
    case False
    then show ?thesis by (simp add: pathLoop.simps)
  qed
qed

lemma chunks_Nil [simp]: "chunks [] = []"
  by (simp add: chunks_def pathLoop.simps)

lemma chunks_step: "e \<noteq> [] \<Longrightarrow> chunks e = take keyChunk e # chunks (drop keyChunk e)"
  using pathLoop_append [of "[take (min (length e) keyChunk) e]" "[]" "drop (min (length e) keyChunk) e"]
  by (simp add: chunks_def pathLoop.simps [of "[]" e] min_def)

lemma dsPath_chunks: "dsPath st key = (ds_dir st @ [''v1'']) @ chunks (hexEncode key) @ [valueName]"
  using pathLoop_append [of "ds_dir st @ [''v1'']" "[]" "hexEncode key"]
  by (simp add: dsPath_def chunks_def)

lemma concat_chunks [simp]: "concat (chunks e) = e"
proof (induction "length e" arbitrary: e rule: less_induct)
  case less
  then show ?case by (cases "e = []") (simp_all add: chunks_step keyChunk_def)
qed

lemma wf_chunks_Cons:
  "wf_chunks (c # cs) \<longleftrightarrow> validChunk c \<and> wf_chunks cs \<and> (cs \<noteq> [] \<longrightarrow> length c = keyChunk)"
  by (auto simp: wf_chunks_def)

lemma wf_chunks_Nil [simp]: "wf_chunks []"
  by (simp add: wf_chunks_def)

lemma wf_chunks_hex:
  "list_all isHexDigit e \<Longrightarrow> even (length e) \<Longrightarrow> wf_chunks (chunks e)"
proof (induction "length e" arbitrary: e rule: less_induct)
  case less
  show ?case
  proof (cases "e = []")
    case False
    have d: "list_all isHexDigit (drop keyChunk e)" "list_all isHexDigit (take keyChunk e)"
      using less.prems(1) by (auto simp: list_all_iff dest: in_set_takeD in_set_dropD)
    have ev: "even (length (drop keyChunk e))" "even (length (take keyChunk e))"
      using less.prems(2) by (auto simp: keyChunk_def min_def)
    have "wf_chunks (chunks (drop keyChunk e))"
      using less.hyps [OF _ d(1) ev(1)] False by (simp add: keyChunk_def)
    moreover have "length (take keyChunk e) = keyChunk" if "chunks (drop keyChunk e) \<noteq> []"
    proof -
      have "drop keyChunk e \<noteq> []" using that by force
      then show ?thesis by simp
    qed
    ultimately show ?thesis
      using False d(2) ev(2) by (auto simp: chunks_step [OF False] wf_chunks_Cons validChunk_def keyChunk_def)
  qed simp
qed

lemma wf_chunks_key [simp]: "wf_chunks (chunks (hexEncode key))"
  by (rule wf_chunks_hex) simp_all

lemma validChunk_length: "validChunk c \<Longrightarrow> c \<noteq> [] \<and> length c \<le> keyChunk \<and> even (length c) \<and> list_all isHexDigit c"
  by (auto simp: validChunk_def)

lemma chunks_concat: "wf_chunks cs \<Longrightarrow> chunks (concat cs) = cs"
proof (induction cs)
  case (Cons c cs)
  then have c: "c \<noteq> []" "length c \<le> keyChunk" "chunks (concat cs) = cs" "cs \<noteq> [] \<longrightarrow> length c = keyChunk"
    using validChunk_length by (auto simp: wf_chunks_Cons)
  then show ?case by (cases "cs = []") (simp_all add: chunks_step)
qed simp

lemma wf_concat: "wf_chunks cs \<Longrightarrow> list_all isHexDigit (concat cs) \<and> even (length (concat cs))"
  by (induction cs) (auto simp: wf_chunks_Cons dest: validChunk_length)

text \<open>A directory's components spell a key, and only one.\<close>

lemma wf_chunks_decode: "wf_chunks cs \<Longrightarrow> hexEncode (hexDecode (concat cs)) = concat cs"
  using wf_concat by (simp add: hexEncode_hexDecode)

lemma chunks_inj: "chunks (hexEncode a) = chunks (hexEncode b) \<longleftrightarrow> a = b"
  by (metis concat_chunks hexEncode_inj)

lemma dsPath_inj [simp]: "dsPath st a = dsPath st b \<longleftrightarrow> a = b"
  by (simp add: dsPath_chunks chunks_inj)

lemma valueName_not_hex: "validChunk c \<Longrightarrow> c \<noteq> valueName"
  by (auto simp: validChunk_def valueName_def)

lemma last_dsPath [simp]: "last (dsPath st key) = valueName" "dsPath st key \<noteq> []"
  by (simp_all add: dsPath_chunks)

lemma butlast_dsPath: "butlast (dsPath st key) = (ds_dir st @ [''v1'']) @ chunks (hexEncode key)"
  by (simp add: dsPath_chunks butlast_append)

subsection \<open>Nodes\<close>

lemma fsLookup_set [simp]: "fsLookup (setNode p n x) q = (if q = p then Some n else fsLookup x q)"
  by (auto simp: fsLookup_def setNode_def update_conv')

lemma fsLookup_del [simp]: "fsLookup (delNode p x) q = (if q = p then None else fsLookup x q)"
  by (auto simp: fsLookup_def delNode_def delete_conv')

lemma fsLookup_env [simp]: "fsLookup (e, snd x) = fsLookup x"
  by (simp add: fsLookup_def fun_eq_iff)

definition disk_objs :: "dstore \<Rightarrow> disk_state \<Rightarrow> string \<rightharpoonup> bytes" where
  "disk_objs st x key = (case fsLookup x (dsPath st key) of Some (Regular b) \<Rightarrow> Some b | _ \<Rightarrow> None)"

text \<open>
  The invariant: every node is in a directory, the store's directory exists, values are regular
  files.
\<close>

definition fs_ok :: "dstore \<Rightarrow> disk_state \<Rightarrow> bool" where
  "fs_ok st x \<longleftrightarrow>
     (\<forall>p. fsLookup x p \<noteq> None \<longrightarrow> p \<noteq> [] \<longrightarrow> fsLookup x (butlast p) = Some Directory) \<and>
     fsLookup x [] = Some Directory \<and>
     (\<forall>key n. fsLookup x (dsPath st key) = Some n \<longrightarrow> (\<exists>b. n = Regular b))"

definition disk_ok :: "dstore \<Rightarrow> disk_state \<Rightarrow> bool" where
  "disk_ok st x \<longleftrightarrow> fs_ok st x \<and> fsLookup x (ds_dir st @ [''v1'']) = Some Directory"

lemma disk_objs_Some: "disk_objs st x key = Some b \<longleftrightarrow> fsLookup x (dsPath st key) = Some (Regular b)"
  by (auto simp: disk_objs_def split: option.splits fsnode.splits)

lemma disk_objs_None: "disk_ok st x \<Longrightarrow> disk_objs st x key = None \<longleftrightarrow> fsLookup x (dsPath st key) = None"
  by (auto simp: disk_ok_def fs_ok_def disk_objs_def split: option.splits fsnode.splits)

lemma ok_parents:
  "disk_ok st x \<Longrightarrow> fsLookup x (p @ q) \<noteq> None \<Longrightarrow> q \<noteq> [] \<Longrightarrow> fsLookup x p = Some Directory"
proof (induction q rule: rev_induct)
  case (snoc c q)
  have "fsLookup x (p @ q) = Some Directory"
    using snoc.prems(1,2) unfolding disk_ok_def fs_ok_def by (metis append.assoc butlast_snoc snoc_eq_iff_butlast)
  then show ?case using snoc by (cases "q = []") auto
qed simp

text \<open>Growth of the file system: the invariant stays, no node changes or goes.\<close>

definition adds :: "dstore \<Rightarrow> disk_state \<Rightarrow> disk_state \<Rightarrow> bool" where
  "adds st x x' \<longleftrightarrow> (fs_ok st x \<longrightarrow> fs_ok st x' \<and> fsLookup x \<subseteq>\<^sub>m fsLookup x')"

interpretation adds: state_preorder "adds st" for st
  by unfold_locales (auto simp: adds_def intro: map_le_trans)

lemma adds_keep: "adds st x x' \<Longrightarrow> disk_ok st x \<Longrightarrow> fsLookup x p = Some n \<Longrightarrow> fsLookup x' p = Some n"
  by (auto simp: adds_def disk_ok_def map_le_def dom_def)

lemma adds_ok: "adds st x x' \<Longrightarrow> disk_ok st x \<Longrightarrow> disk_ok st x'"
  using adds_keep by (simp add: adds_def disk_ok_def)

lemma adds_grows: "adds st x x' \<Longrightarrow> grows (disk_objs st) (disk_ok st) x x'"
  using adds_keep [of st x x'] adds_ok [of st x x']
  by (auto simp: grows_def map_le_def disk_objs_Some) (simp add: disk_objs_def)

lemma fs_ok_env [simp]: "fs_ok st (e, snd x) = fs_ok st x"
  by (simp add: fs_ok_def)

lemma adds_env [simp]: "adds st x (e, snd x)"
  by (simp add: adds_def)

lemma adds_dir:
  assumes "fsLookup x p = None" and "fsLookup x (butlast p) = Some Directory" and "\<And>key. p \<noteq> dsPath st key"
  shows "adds st x (setNode p Directory x)"
  using assms unfolding adds_def fs_ok_def map_le_def
  by (auto split: if_splits)

lemma adds_file:
  assumes "fsLookup x p = None" and "fsLookup x (butlast p) = Some Directory"
  shows "adds st x (setNode p (Regular b) x)"
  using assms unfolding adds_def fs_ok_def map_le_def by (auto split: if_splits)

text \<open>A directory above a value is not itself a value's path.\<close>

lemma take_dsPath:
  assumes "i < length (dsPath st key)"
  shows "take i (dsPath st key) \<noteq> dsPath st key'"
proof
  assume eq: "take i (dsPath st key) = dsPath st key'"
  let ?m = "length (ds_dir st) + 1"
  have i: "?m < i" using arg_cong [OF eq, of length] assms by (simp add: dsPath_chunks split: if_splits)
  then obtain j where j: "i = ?m + Suc j" using less_iff_Suc_add by auto
  then have len: "j < length (chunks (hexEncode key))" using assms by (simp add: dsPath_chunks)
  have "take i (dsPath st key) = (ds_dir st @ [''v1'']) @ take (Suc j) (chunks (hexEncode key))"
    using len by (simp add: dsPath_chunks j)
  also have "\<dots> = ((ds_dir st @ [''v1'']) @ take j (chunks (hexEncode key))) @ [chunks (hexEncode key) ! j]"
    using len by (simp add: take_Suc_conv_app_nth)
  finally have "last (take i (dsPath st key)) = chunks (hexEncode key) ! j"
    by (simp only: last_snoc)
  moreover have "validChunk (chunks (hexEncode key) ! j)"
    using len wf_chunks_key [of key] by (auto simp: wf_chunks_def list_all_length)
  ultimately show False using eq valueName_not_hex by fastforce
qed

lemma addDirs_adds:
  assumes "\<forall>p\<in>set ps. \<forall>key. p \<noteq> dsPath st key"
  shows "adds st x (addDirs ps x)"
  using assms
proof (induction ps arbitrary: x)
  case (Cons p ps)
  let ?x = "if fsLookup x p = None \<and> fsLookup x (butlast p) = Some Directory then setNode p Directory x else x"
  have "adds st x ?x" using Cons.prems adds_dir adds.R_refl by auto
  moreover have "adds st ?x (addDirs ps ?x)" by (rule Cons.IH) (use Cons.prems in simp)
  ultimately have "adds st x (addDirs ps ?x)" by (rule adds.R_trans)
  then show ?case by simp
qed (simp add: adds.R_refl)

lemma otherPublish_adds: "adds st x (otherPublish st k v x)"
proof -
  let ?p = "dsPath st k" let ?x1 = "addDirs (map (\<lambda>n. take n ?p) [0..<length ?p]) x"
  have "adds st x ?x1" using take_dsPath by (intro addDirs_adds) auto
  moreover have "adds st ?x1 (otherPublish st k v x)"
    using adds_file [of ?x1 ?p st v] adds.R_refl by (simp add: otherPublish_def Let_def)
  ultimately show ?thesis by (rule adds.R_trans)
qed

lemma disk_turn_adds: "disk_turn st x = (b, x') \<Longrightarrow> adds st x x'"
  using otherPublish_adds [of st "(e, snd x)" for e]
  by (auto simp: disk_turn_def adds_def Let_def split: list.splits env_event.splits)

subsection \<open>Operating system calls\<close>

lemma os_call_adds:
  assumes "\<And>x r x'. m x = (r, x') \<Longrightarrow> adds st x x'"
  shows "io_rel (adds st) (os_call st m)"
  using assms disk_turn_adds
  by (auto intro!: io_relI simp: os_call_def split: prod.splits if_splits) (meson adds.R_trans)+

lemma os_call_Inr:
  assumes "os_call st m x = (Inr r, x')"
  obtains x1 where "adds st x x1" and "m x1 = (Inr r, x')"
proof -
  obtain b x1 where t: "disk_turn st x = (b, x1)" by (cases "disk_turn st x")
  show ?thesis using that [OF disk_turn_adds [OF t]] assms t by (auto simp: os_call_def split: if_splits)
qed

lemma os_call_Inl:
  assumes "os_call st m x = (Inl e, x')"
  obtains "e = os_error" and "adds st x x'" | x1 where "adds st x x1" and "m x1 = (Inl e, x')"
proof -
  obtain b x1 where t: "disk_turn st x = (b, x1)" by (cases "disk_turn st x")
  show ?thesis using that disk_turn_adds [OF t] assms t by (cases b) (auto simp: os_call_def)
qed

lemma stat_adds: "io_rel (adds st) (osStat st p)"
  unfolding osStat_def by (rule os_call_adds) (simp add: adds.R_refl)

lemma mkdir_adds: "(\<And>key. p \<noteq> dsPath st key) \<Longrightarrow> io_rel (adds st) (osMkdir st p)"
  unfolding osMkdir_def
  by (rule os_call_adds) (auto split: if_splits intro: adds_dir simp: adds.R_refl)

lemma flush_adds: "io_rel (adds st) (osFlush st)"
  unfolding osFlush_def by (rule os_call_adds) (simp add: adds.R_refl)

lemma readDir_adds: "io_rel (adds st) (osReadDir st dir)"
  unfolding osReadDir_def by (rule os_call_adds) (auto simp: adds.R_refl split: option.splits fsnode.splits)

lemma createTemp_adds: "io_rel (adds st) (osCreateTemp st dir)"
  unfolding osCreateTemp_def
proof (rule os_call_adds)
  fix x x' :: disk_state and r
  let ?p = "dir @ [''.tmp-'' @ replicate (tmp_next (snd x)) (CHR ''0'')]"
  assume eq: "(let p = ?p in
     if fsLookup x p \<noteq> None then (Inl (Sentinel OsExist), x)
     else if fsLookup x dir \<noteq> Some Directory then (Inl (Sentinel NotExist), x)
     else (Inr p, setNode p (Regular []) (fst x, (snd x)\<lparr>tmp_next := Suc (tmp_next (snd x))\<rparr>))) = (r, x')"
  let ?x = "(fst x, (snd x)\<lparr>tmp_next := Suc (tmp_next (snd x))\<rparr>)"
  have l: "fsLookup ?x = fsLookup x" by (simp add: fsLookup_def fun_eq_iff)
  have "adds st x ?x" by (simp add: adds_def fs_ok_def l)
  moreover have "adds st ?x (setNode ?p (Regular []) ?x)" if "fsLookup x ?p = None" "fsLookup x dir = Some Directory"
    using that by (intro adds_file) (simp_all add: l)
  ultimately show "adds st x x'"
    using eq adds.R_refl by (auto simp: Let_def split: if_splits intro: adds.R_trans)
qed

lemma link_adds: "io_rel (adds st) (osLink st a b)"
  unfolding osLink_def
  by (rule os_call_adds)
     (auto split: if_splits option.splits fsnode.splits intro: adds_file simp: adds.R_refl)

lemma disk_ctx_adds: "disk_ctx x = (e, x') \<Longrightarrow> adds st x x'"
  by (metis adds_env disk_ctx_def lift_op_eq_iff prod.collapse)

lemma adds_check: "io_rel (adds st) (io_check disk_ctx)"
  by (intro adds.rel_check disk_ctx_adds)

lemma adds_poll: "io_rel (adds st) (io_poll disk_ctx)"
  by (rule io_relI) (metis io_poll_eq_iff disk_ctx_adds)

lemmas disk_adds = adds.rel_ret adds.rel_fail adds.rel_lift adds.rel_bind adds.rel_wrap adds.rel_try
  adds.rel_if adds.rel_option adds.rel_sum adds_check adds_poll stat_adds flush_adds readDir_adds
  createTemp_adds link_adds

subsection \<open>Temporary files\<close>

abbreviation dgrows :: "dstore \<Rightarrow> disk_state \<Rightarrow> disk_state \<Rightarrow> bool" where
  "dgrows st \<equiv> grows (disk_objs st) (disk_ok st)"

interpretation dg: state_preorder "dgrows st" for st
  by unfold_locales (auto simp: grows_def intro: map_le_trans)

lemma rel_adds_grows: "io_rel (adds st) m \<Longrightarrow> io_rel (dgrows st) m"
  using adds_grows by (auto simp: io_rel_def)

definition no_value :: "dstore \<Rightarrow> path \<Rightarrow> bool" where
  "no_value st p \<longleftrightarrow> (\<forall>key. p \<noteq> dsPath st key)"

lemma write_grows:
  assumes "no_value st p" and "fsLookup x p = Some (Regular c)"
  shows "dgrows st x (setNode p (Regular c') x)"
proof (rule growsI)
  assume ok: "disk_ok st x"
  have "disk_ok st (setNode p (Regular c') x)"
    using ok assms unfolding disk_ok_def fs_ok_def no_value_def by auto
  moreover have "disk_objs st (setNode p (Regular c') x) = disk_objs st x"
    using assms(1) by (auto simp: disk_objs_def no_value_def fun_eq_iff)
  ultimately show "disk_ok st (setNode p (Regular c') x) \<and> disk_objs st x \<subseteq>\<^sub>m disk_objs st (setNode p (Regular c') x)"
    by simp
qed

lemma remove_grows:
  assumes "no_value st p" and "fsLookup x p = Some n" and "n \<noteq> Directory"
  shows "dgrows st x (delNode p x)"
proof (rule growsI)
  assume ok: "disk_ok st x"
  have "disk_ok st (delNode p x)"
    using ok assms unfolding disk_ok_def fs_ok_def no_value_def by auto
  moreover have "disk_objs st (delNode p x) = disk_objs st x"
    using assms(1) by (auto simp: disk_objs_def no_value_def fun_eq_iff)
  ultimately show "disk_ok st (delNode p x) \<and> disk_objs st x \<subseteq>\<^sub>m disk_objs st (delNode p x)"
    by simp
qed

lemma os_call_grows:
  assumes "\<And>x r x'. m x = (r, x') \<Longrightarrow> dgrows st x x'"
  shows "io_rel (dgrows st) (os_call st m)"
proof (rule io_relI)
  fix x r x' assume eq: "os_call st m x = (r, x')"
  obtain b x1 where t: "disk_turn st x = (b, x1)" by (cases "disk_turn st x")
  have "dgrows st x x1" using disk_turn_adds [OF t] by (rule adds_grows)
  then show "dgrows st x x'"
    using eq t assms dg.R_trans by (auto simp: os_call_def split: if_splits)
qed

lemma osWrite_grows: "no_value st p \<Longrightarrow> io_rel (dgrows st) (osWrite st p b)"
  unfolding osWrite_def
  by (rule os_call_grows) (auto split: option.splits fsnode.splits intro: write_grows simp: dg.R_refl)

lemma osRemove_grows: "no_value st p \<Longrightarrow> io_rel (dgrows st) (osRemove st p)"
  unfolding osRemove_def
  by (rule os_call_grows) (auto split: option.splits if_splits intro: remove_grows simp: dg.R_refl)

lemma osWrite_Inr:
  assumes "osWrite st p b x = (Inr u, x')" and "disk_ok st x" and "fsLookup x p = Some (Regular c)"
  shows "fsLookup x' p = Some (Regular (c @ b))"
proof -
  obtain x1 where a: "adds st x x1" and m: "(case fsLookup x1 p of
       Some (Regular c) \<Rightarrow> (Inr (), setNode p (Regular (c @ b)) x1)
     | _ \<Rightarrow> (Inl os_error, x1)) = (Inr u, x')"
    using assms(1) unfolding osWrite_def by (rule os_call_Inr)
  show ?thesis using m adds_keep [OF a assms(2,3)] by auto
qed

lemma copyLoop_grows: "no_value st tmp \<Longrightarrow> io_rel (dgrows st) (copyLoop st tmp err data)"
proof (induction st tmp err data rule: copyLoop.induct)
  case (1 st tmp err data)
  note ctx = rel_adds_grows [OF adds_check]
  show ?case
    unfolding copyLoop.simps [of st tmp err data]
    by (intro dg.rel_bind dg.rel_if dg.rel_option dg.rel_ret dg.rel_fail ctx osWrite_grows "1")
qed

lemma ctx_Inr: "io_check disk_ctx x = (Inr u, x') \<Longrightarrow> adds st x x'"
  by (auto dest: disk_ctx_adds)

lemma copyLoop_Inr:
  assumes "copyLoop st tmp err data x = (Inr n, x')" and "disk_ok st x" and "no_value st tmp"
    and "fsLookup x tmp = Some (Regular c)"
  shows "fsLookup x' tmp = Some (Regular (c @ data)) \<and> n = int (length data)"
  using assms
proof (induction st tmp err data arbitrary: x c n rule: copyLoop.induct)
  case (1 st tmp err data)
  obtain x1 where c1: "disk_ctx x = (None, x1)"
    and r: "(if data = [] then (case err of None \<Rightarrow> io_ret 0 | Some e \<Rightarrow> io_fail e)
       else
         io_bind (osWrite st tmp (take 32768 data)) (\<lambda>_.
         io_bind (copyLoop st tmp err (drop 32768 data)) (\<lambda>n.
         io_ret (int (length (take 32768 data)) + n)))) x1 = (Inr n, x')"
    using "1.prems"(1) by (auto simp: copyLoop.simps [of st tmp err data] io_bind_eq_Inr_iff)
  have ok1: "disk_ok st x1" and l1: "fsLookup x1 tmp = Some (Regular c)"
    using disk_ctx_adds [OF c1] "1.prems" adds_ok adds_keep by blast+
  show ?case
  proof (cases "data = []")
    case True
    then show ?thesis using r l1 by (auto split: option.splits)
  next
    case False
    then obtain x2 m where w: "osWrite st tmp (take 32768 data) x1 = (Inr (), x2)"
      and cp: "copyLoop st tmp err (drop 32768 data) x2 = (Inr m, x')"
      and n: "n = int (length (take 32768 data)) + m"
      using r by (auto simp: io_bind_eq_Inr_iff)
    have l2: "fsLookup x2 tmp = Some (Regular (c @ take 32768 data))" by (rule osWrite_Inr [OF w ok1 l1])
    have ok2: "disk_ok st x2"
      using io_relD [OF osWrite_grows [OF "1.prems"(3)] w] ok1 by (simp add: grows_def)
    show ?thesis using "1.IH" [OF False cp ok2 "1.prems"(3) l2] n by simp
  qed
qed

lemma flush_keep: "osFlush st x = (r, x') \<Longrightarrow> adds st x x'"
  by (rule io_relD [OF flush_adds])

lemma fillTemp_grows: "no_value st tmp \<Longrightarrow> io_rel (dgrows st) (fillTemp st tmp v)"
  unfolding fillTemp_def
  by (intro dg.rel_bind dg.rel_onerr dg.rel_lift copyLoop_grows rel_adds_grows [OF adds_check]
      rel_adds_grows [OF flush_adds]) (erule (1) errPart_rel [OF rel_adds_grows [OF flush_adds]])?

lemma fillTemp_Inr:
  assumes "fillTemp st tmp v x = (Inr u, x')" and "disk_ok st x" and "no_value st tmp"
    and "fsLookup x tmp = Some (Regular [])"
  shows "fsLookup x' tmp = Some (Regular (take (nat (src_size v)) (src_data v)))"
proof -
  obtain n x1 x2 x3 where cp: "copyLoop st tmp (src_err v) (take (nat (src_size v)) (src_data v)) x = (Inr n, x1)"
    and c: "disk_ctx x1 = (None, x2)" and f: "osFlush st x2 = (Inr (), x3)" "osFlush st x3 = (Inr (), x')"
    using assms(1) by (auto simp: fillTemp_def io_bind_eq_Inr_iff)
  have "disk_ok st x1"
    using io_relD [OF copyLoop_grows [OF assms(3)] cp] assms(2) by (simp add: grows_def)
  moreover have "adds st x1 x'"
    using disk_ctx_adds [OF c] flush_keep [OF f(1)] flush_keep [OF f(2)] by (meson adds.R_trans)
  ultimately show ?thesis
    using copyLoop_Inr [OF cp assms(2-4)] adds_keep by auto
qed

subsection \<open>Create\<close>

lemma mkdirAllRev_adds: "(\<And>i. no_value st (take i (rev rp))) \<Longrightarrow> io_rel (adds st) (mkdirAllRev st rp)"
proof (induction st rp rule: mkdirAllRev.induct)
  case (2 st c rp)
  have "no_value st (take (Suc (length rp)) (rev (c # rp)))" by (rule "2.prems")
  then have p: "\<And>key. rev (c # rp) \<noteq> dsPath st key" by (simp add: no_value_def)
  have "no_value st (take i (rev rp))" for i
  proof -
    have "take (min i (length rp)) (rev (c # rp)) = take i (rev rp)" by (simp add: min_def)
    then show ?thesis using "2.prems" [of "min i (length rp)"] by simp
  qed
  then have ih: "io_rel (adds st) (mkdirAllRev st rp)" by (rule "2.IH" [OF refl])
  show ?case
    unfolding mkdirAllRev.simps(2) Let_def
    by (intro adds.rel_bind adds.rel_try adds.rel_sum adds.rel_if adds.rel_ret adds.rel_fail stat_adds ih
        mkdir_adds p)
qed (simp add: adds.rel_ret)

lemma mkdirAll_adds: "io_rel (adds st) (osMkdirAll st (butlast (dsPath st key)))"
  unfolding osMkdirAll_def
proof (rule mkdirAllRev_adds)
  fix i
  have "take i (butlast (dsPath st key)) = take (min i (length (dsPath st key) - 1)) (dsPath st key)"
    by (simp add: butlast_conv_take)
  moreover have "min i (length (dsPath st key) - 1) < length (dsPath st key)"
    by (simp add: min_less_iff_disj)
  ultimately show "no_value st (take i (rev (rev (butlast (dsPath st key)))))"
    using take_dsPath by (simp add: no_value_def)
qed

lemma syncDir_adds: "io_rel (adds st) (syncDir os st p)"
  unfolding syncDir_def
  by (intro adds.rel_if adds.rel_ret adds.rel_bind adds.rel_try adds.rel_lift stat_adds flush_adds)

lemma syncUp_adds: "io_rel (adds st) (syncUp os st rp)"
proof (induction os st rp rule: syncUp.induct)
  case (1 os st rp)
  show ?case
    unfolding syncUp.simps [of os st rp]
    by (intro adds.rel_bind adds.rel_if adds.rel_ret syncDir_adds)
      (cases rp; simp add: adds.rel_fail "1")
qed

text \<open>The loop ends at the store's directory: it never gets to the empty path below it.\<close>

lemma syncDir_err: "syncDir os st p x = (Inl e, x') \<Longrightarrow> e \<noteq> Msg ''unreachable''"
  by (auto simp: syncDir_def osStat_def io_bind_eq_Inl_iff os_error_def errors_join_def
      split: if_splits option.splits list.splits elim!: os_call_Inl)

lemma syncUp_reaches:
  assumes "rev rp = ds_dir st @ q" and "syncUp os st rp x = (Inl e, x')"
  shows "e \<noteq> Msg ''unreachable''"
  using assms
proof (induction q arbitrary: rp x rule: rev_induct)
  case Nil
  then show ?case by (auto simp: syncUp.simps [of os st rp] io_bind_eq_Inl_iff dest: syncDir_err)
next
  case (snoc c q)
  then obtain rp' where rp: "rp = c # rp'" "rev rp' = ds_dir st @ q"
    by (cases rp) auto
  have "ds_dir st @ q @ [c] \<noteq> ds_dir st" by simp
  then show ?case
    using snoc.prems snoc.IH [OF rp(2)] rp
    by (auto simp: syncUp.simps [of os st "c # rp'"] io_bind_eq_Inl_iff dest: syncDir_err)
qed

lemma createTemp_Inr:
  assumes "osCreateTemp st dir x = (Inr tmp, x')" and "disk_ok st x"
  shows "no_value st tmp \<and> fsLookup x' tmp = Some (Regular []) \<and> adds st x x'"
proof -
  have "last (dir @ [''.tmp-'' @ s]) \<noteq> valueName" for s by (simp add: valueName_def)
  then have "no_value st (dir @ [''.tmp-'' @ s])" for s
    unfolding no_value_def by (metis last_dsPath(1))
  then show ?thesis
    using assms(1) io_relD [OF createTemp_adds assms(1)]
    by (auto simp: osCreateTemp_def Let_def split: if_splits elim!: os_call_Inr)
qed

lemma link_Inr:
  assumes "osLink st a b x = (Inr u, x')" and "disk_ok st x" and "fsLookup x a = Some (Regular c)"
  shows "fsLookup x b = None \<and> fsLookup x' b = Some (Regular c)"
proof -
  obtain x1 where ad: "adds st x x1" and m: "(case fsLookup x1 a of
       Some (Regular c) \<Rightarrow>
         if fsLookup x1 b \<noteq> None then (Inl (Sentinel OsExist), x1)
         else if fsLookup x1 (butlast b) \<noteq> Some Directory then (Inl (Sentinel NotExist), x1)
         else (Inr (), setNode b (Regular c) x1)
     | _ \<Rightarrow> (Inl (Sentinel NotExist), x1)) = (Inr u, x')"
    using assms(1) unfolding osLink_def by (rule os_call_Inr)
  have "fsLookup x1 a = Some (Regular c)" by (rule adds_keep [OF ad assms(2,3)])
  then have "fsLookup x1 b = None" "fsLookup x' b = Some (Regular c)"
    using m by (auto split: if_splits)
  then show ?thesis
    using adds_keep [OF ad assms(2), of b] by (cases "fsLookup x b") auto
qed

lemma link_exists:
  assumes "osLink st a b x = (Inl e, x')" and "errors_is e OsExist"
  shows "fsLookup x' b \<noteq> None"
  using assms unfolding osLink_def
  by (auto elim!: os_call_Inl simp: os_error_def split: option.splits fsnode.splits if_splits)

lemma publishTemp_grows: "no_value st tmp \<Longrightarrow> io_rel (dgrows st) (publishTemp os st key tmp p v)"
  unfolding publishTemp_def
  by (intro dg.rel_bind dg.rel_wrap fillTemp_grows rel_adds_grows [OF adds_check]
      rel_adds_grows [OF link_adds] rel_adds_grows [OF syncUp_adds])

lemma dsCreate_grows: "io_rel (dgrows st) (dsCreate os st key value)"
proof -
  have "io_rel (dgrows st) (\<lambda>x. (case osCreateTemp st d x of
      (r, x1) \<Rightarrow> (case r of Inl e \<Rightarrow> (Inl e, x1)
        | Inr tmp \<Rightarrow> io_defer (errPart (osRemove st tmp)) (publishTemp os st key tmp p v) x1)))" for d p v
  proof (rule io_relI, rule growsI)
    fix x r x'
    assume eq: "(case osCreateTemp st d x of
      (r, x1) \<Rightarrow> (case r of Inl e \<Rightarrow> (Inl e, x1)
        | Inr tmp \<Rightarrow> io_defer (errPart (osRemove st tmp)) (publishTemp os st key tmp p v) x1)) = (r, x')"
      and ok: "disk_ok st x"
    obtain q x1 where c: "osCreateTemp st d x = (q, x1)" by (cases "osCreateTemp st d x")
    have g1: "dgrows st x x1" using io_relD [OF createTemp_adds c] by (rule adds_grows)
    show "disk_ok st x' \<and> disk_objs st x \<subseteq>\<^sub>m disk_objs st x'"
    proof (cases q)
      case (Inl e)
      then show ?thesis using eq c g1 ok by (simp add: grows_def)
    next
      case (Inr tmp)
      then have nv: "no_value st tmp" using createTemp_Inr c ok by blast
      have "io_rel (dgrows st) (io_defer (errPart (osRemove st tmp)) (publishTemp os st key tmp p v))"
        by (rule dg.rel_defer [OF errPart_rel [OF osRemove_grows [OF nv]] publishTemp_grows [OF nv]])
      moreover have "io_defer (errPart (osRemove st tmp)) (publishTemp os st key tmp p v) x1 = (r, x')"
        using eq c Inr by simp
      ultimately have "dgrows st x1 x'" by (rule io_relD)
      then have "dgrows st x x'" by (rule dg.R_trans [OF g1])
      then show ?thesis using ok by (simp add: grows_def)
    qed
  qed
  then have tail: "io_rel (dgrows st) (io_bind (osCreateTemp st d) (\<lambda>tmp.
      io_defer (errPart (osRemove st tmp)) (publishTemp os st key tmp p v)))" for d p v
    by (simp add: io_bind_def [abs_def])
  show ?thesis
    unfolding dsCreate_def Let_def
    by (intro dg.rel_bind dg.rel_option dg.rel_fail dg.rel_lift dg.rel_sum dg.rel_if tail dg.rel_try
        rel_adds_grows [OF adds_check] rel_adds_grows [OF stat_adds] rel_adds_grows [OF mkdirAll_adds])
qed

text \<open>What a Create that succeeds, and one that reports an existing value, saw.\<close>

lemma publishTemp_Inr:
  assumes "publishTemp os st key tmp p v x = (Inr u, x')" and "disk_ok st x" and "no_value st tmp"
    and "fsLookup x tmp = Some (Regular [])"
  shows "\<exists>x1 x2. dgrows st x x1 \<and> disk_ok st x1 \<and> fsLookup x1 p = None \<and> adds st x1 x2 \<and> adds st x2 x' \<and>
    fsLookup x2 p = Some (Regular (take (nat (src_size v)) (src_data v)))"
proof -
  obtain y1 y2 y3 where f: "fillTemp st tmp v x = (Inr (), y1)" and c: "disk_ctx y1 = (None, y2)"
    and l: "osLink st tmp p y2 = (Inr (), y3)" and s: "syncUp os st (rev (butlast p)) y3 = (Inr u, x')"
    using assms(1) by (auto simp: publishTemp_def io_bind_eq_Inr_iff)
  have g: "dgrows st x y1" by (rule io_relD [OF fillTemp_grows [OF assms(3)] f])
  have a: "adds st y1 y2" by (rule disk_ctx_adds [OF c])
  have ok: "disk_ok st y1" "disk_ok st y2"
    using g assms(2) adds_ok [OF a] by (simp_all add: grows_def)
  have "fsLookup y2 tmp = Some (Regular (take (nat (src_size v)) (src_data v)))"
    using adds_keep [OF a ok(1)] fillTemp_Inr [OF f assms(2-4)] by blast
  from link_Inr [OF l ok(2) this] show ?thesis
    using dg.R_trans [OF g adds_grows [OF a]] ok(2) io_relD [OF link_adds l] io_relD [OF syncUp_adds s]
    by blast
qed

lemma dsCreate_Inr:
  assumes "dsCreate os st key (Some v) x = (Inr u, x')" and "disk_ok st x"
  shows "disk_objs st x key = None \<and> disk_objs st x' key = Some (take (nat (src_size v)) (src_data v))"
proof -
  let ?p = "dsPath st key"
  obtain x1 where c: "disk_ctx x = (None, x1)"
    using assms(1) by (auto simp: dsCreate_def io_bind_eq_Inr_iff)
  have sz: "\<not> src_size v < 0"
    using assms(1) by (auto simp: dsCreate_def io_bind_eq_Inr_iff)
  obtain r x2 where s0: "osStat st ?p x1 = (r, x2)" by (cases "osStat st ?p x1")
  note eval = assms(1) [unfolded dsCreate_def io_bind_def io_check_def io_try_def Let_def]
  obtain e where s: "osStat st ?p x1 = (Inl e, x2)" and ne: "errors_is e NotExist"
    using eval c sz s0 by (cases r) (auto split: if_splits)
  obtain x3 tmp x4 where m: "osMkdirAll st (butlast ?p) x2 = (Inr (), x3)"
    and t: "osCreateTemp st (butlast ?p) x3 = (Inr tmp, x4)"
    and d: "io_defer (errPart (osRemove st tmp)) (publishTemp os st key tmp ?p v) x4 = (Inr u, x')"
    using eval c sz s ne by (auto split: prod.splits sum.splits)
  have "adds st x x3"
    using disk_ctx_adds [OF c] io_relD [OF stat_adds s] io_relD [OF mkdirAll_adds m] by (meson adds.R_trans)
  then have a: "adds st x x4" and ok3: "disk_ok st x3"
    using io_relD [OF createTemp_adds t] adds.R_trans adds_ok assms(2) by blast+
  have nv: "no_value st tmp" and l: "fsLookup x4 tmp = Some (Regular [])"
    using createTemp_Inr [OF t ok3] by auto
  obtain x5 where p: "publishTemp os st key tmp ?p v x4 = (Inr u, x5)"
    and r: "errPart (osRemove st tmp) x5 = (None, x')"
    using d by (auto simp: io_defer_eq_Inr_iff)
  have ok4: "disk_ok st x4" using a assms(2) by (rule adds_ok)
  obtain y1 y2 where g: "dgrows st x4 y1" and n: "fsLookup y1 ?p = None" and a2: "adds st y2 x5"
    and ok1: "disk_ok st y1" and a1: "adds st y1 y2"
    and v: "fsLookup y2 ?p = Some (Regular (take (nat (src_size v)) (src_data v)))"
    using publishTemp_Inr [OF p ok4 nv l] by blast
  have gx: "dgrows st x y1" using adds_grows [OF a] g by (rule dg.R_trans)
  have "disk_objs st y1 key = None" using n by (simp add: disk_objs_def)
  then have "disk_objs st x key = None"
    using gx assms(2) unfolding grows_def map_le_def by (metis domIff)
  moreover have "dgrows st y2 x'"
    using adds_grows [OF a2] errPart_rel [OF osRemove_grows [OF nv] r] by (rule dg.R_trans)
  moreover have "disk_objs st y2 key = Some (take (nat (src_size v)) (src_data v))"
    using v by (simp add: disk_objs_Some)
  ultimately show ?thesis
    using adds_ok [OF a1 ok1] unfolding grows_def map_le_def by (metis domI)
qed

lemma flush_err: "osFlush st x = (Inl e, x') \<Longrightarrow> e = os_error"
  by (auto simp: osFlush_def elim!: os_call_Inl)

lemma ctx_err: "disk_ctx x = (Some e, x') \<Longrightarrow> e = Sentinel Canceled"
  by (auto simp: disk_ctx_def lift_op_eq_iff env_ctx_def split: option.splits nat.splits)

subsection \<open>Errors that an action never returns\<close>

lemma never_os_call:
  "k \<notin> {NotExist, OsExist} \<Longrightarrow> (\<And>x e x'. m x = (Inl e, x') \<Longrightarrow> \<not> errors_is e k) \<Longrightarrow> never k (os_call st m)"
  by (rule neverI) (auto elim!: os_call_Inl simp: os_error_def)

lemma never_os:
  assumes "k \<notin> {NotExist, OsExist}"
  shows "never k (osStat st p)" "never k (osMkdir st p)" "never k (osCreateTemp st d)" "never k (osWrite st p b)"
    "never k (osFlush st)" "never k (osRemove st p)"
  unfolding osStat_def osMkdir_def osCreateTemp_def osWrite_def osFlush_def osRemove_def
  using assms
  by (auto intro!: never_os_call simp: os_error_def Let_def split: option.splits fsnode.splits if_splits)

lemma never_ctx: "k \<noteq> Canceled \<Longrightarrow> never k (io_check disk_ctx)"
  by (auto intro!: never_check dest: ctx_err)

abbreviation store_error :: "sentinel \<Rightarrow> bool" where
  "store_error k \<equiv> k \<in> {ErrNotFound, ErrExists, ErrConflict, ErrCorrupt}"

lemma never_mkdirAll: "store_error k \<Longrightarrow> never k (mkdirAllRev st rp)"
proof (induction st rp rule: mkdirAllRev.induct)
  case (2 st c rp)
  have os: "never k (osStat st p)" "never k (osMkdir st p)" for p
    using never_os [of k] "2.prems" by auto
  show ?case
    unfolding mkdirAllRev.simps(2) Let_def
  proof (rule never_bind_try [OF os(1)])
    let ?tail = "\<lambda>m. case m of Inr _ \<Rightarrow> io_ret ()
          | Inl e \<Rightarrow> io_bind (io_try (osStat st (rev (c # rp)))) (\<lambda>r2.
              if r2 = Inr Directory then io_ret () else io_fail e)"
    have "never k (io_bind (io_try (osMkdir st (rev (c # rp)))) ?tail)"
      by (rule never_bind_try [OF os(2)]) (auto intro!: never_bind_try [OF os(1)] never_simple)
    then show "never k (case Inl e of
        Inr n \<Rightarrow> if n = Directory then io_ret () else io_fail (Msg ''not a directory'')
      | Inl _ \<Rightarrow> io_bind (mkdirAllRev st rp) (\<lambda>_. io_bind (io_try (osMkdir st (rev (c # rp)))) ?tail))" for e
      by (simp only: sum.case) (rule never_bind [OF "2.IH" [OF refl "2.prems"]])
  qed (simp add: never_simple)
qed (simp add: never_simple)

text \<open>Publishing reports an existing value only when the link found one.\<close>

lemma fillTemp_never:
  assumes "store_error k" and "src_err v = None" shows "never k (fillTemp st tmp v)"
proof -
  have os: "never k (osWrite st p b)" "never k (osFlush st)" for p b
    using never_os [of k] assms by auto
  have ctx: "never k (io_check disk_ctx)" using never_ctx assms by auto
  have cp: "never k (copyLoop st tmp None data)" for data
  proof (induction st tmp "None :: goerr option" data rule: copyLoop.induct)
    case (1 st tmp data)
    have w: "never k (osWrite st tmp b)" for b using never_os [of k] assms by auto
    show ?case
      unfolding copyLoop.simps [of st tmp None data]
      by (intro never_bind never_if never_simple ctx w "1") (simp add: never_simple)
  qed
  have "\<not> errors_is (Sentinel UnexpectedEOF) k" using assms by auto
  then show ?thesis
    unfolding fillTemp_def assms(2)
    by (intro never_bind never_onerr_part os ctx cp never_simple) auto
qed

lemma syncDir_never:
  assumes "store_error k" shows "never k (syncDir os st q)"
proof -
  have fl: "never k (osFlush st)" and ol: "never k (osStat st q)" for q
    using never_os [of k] assms by auto
  have close: "never k (io_bind (io_try (osFlush st)) (\<lambda>ce.
        io_lift (case errors_join [a, errOf ce] of None \<Rightarrow> Inr () | Some e \<Rightarrow> Inl e)))"
    if "\<And>e. a = Some e \<Longrightarrow> \<not> errors_is e k" for a
  proof (rule never_bind_try [OF fl])
    show "never k (io_lift (case errors_join [a, errOf (Inl e)] of None \<Rightarrow> Inr () | Some e \<Rightarrow> Inl e))"
      if "\<not> errors_is e k" for e
      by (rule never_simple) (use that \<open>\<And>e. a = Some e \<Longrightarrow> \<not> errors_is e k\<close> in \<open>cases a; auto\<close>)
    show "never k (io_lift (case errors_join [a, errOf (Inr y)] of None \<Rightarrow> Inr () | Some e \<Rightarrow> Inl e))" for y :: unit
      by (rule never_simple) (use that in \<open>cases a; auto\<close>)
  qed
  show ?thesis
    unfolding syncDir_def
    by (rule never_if [OF never_simple(1)], rule never_bind [OF ol], rule never_bind_try [OF fl])
      (rule close, simp)+
qed

lemma syncUp_never:
  assumes "store_error k" shows "never k (syncUp os st rp)"
proof (induction os st rp rule: syncUp.induct)
  case (1 os st rp)
  show ?case
    unfolding syncUp.simps [of os st rp]
    by (rule never_bind [OF syncDir_never [OF assms]], rule never_if [OF never_simple(1)])
      (cases rp; simp add: never_simple "1")
qed

lemma link_never: "never ErrExists (osLink st a b)" "never ErrNotFound (osLink st a b)"
  unfolding osLink_def
  by (auto intro!: never_os_call split: option.splits fsnode.splits if_splits)

lemma publishTemp_exists:
  assumes "publishTemp os st key tmp p v x = (Inl e, x')" and "errors_is e ErrExists" and "src_err v = None"
  shows "fsLookup x' p \<noteq> None"
proof -
  have nf: "never ErrExists (fillTemp st tmp v)" by (rule fillTemp_never) (simp_all add: assms)
  have nc: "never ErrExists (io_check disk_ctx)" by (rule never_ctx) simp
  have ns: "never ErrExists (syncUp os st rp)" for rp by (rule syncUp_never) simp
  obtain y e' where "osLink st tmp p y = (Inl e', x')"
    and e: "e = Wrap (''diskstore: create '' @ key) [if errors_is e' OsExist then Wrap [] [Sentinel ErrExists, e'] else e']"
    using assms(1,2) neverD [OF nf] neverD [OF nc] neverD [OF ns]
    unfolding publishTemp_def io_bind_eq_Inl_iff io_wrap_eq_Inl_iff by blast
  moreover have "errors_is e' OsExist"
    using assms(2) neverD [OF link_never(1) calculation(1)] e by (auto split: if_splits)
  ultimately show ?thesis using link_exists by blast
qed

text \<open>Create reports an existing value only when there is one.\<close>

lemma dsCreate_exists:
  assumes "dsCreate os st key (Some v) x = (Inl e, x')" and "errors_is e ErrExists" and "src_err v = None"
    and "disk_ok st x"
  shows "disk_objs st x' key \<noteq> None"
proof -
  let ?p = "dsPath st key"
  have nc: "never ErrExists (io_check disk_ctx)" by (rule never_ctx) simp
  have g: "dgrows st x x'" by (rule io_relD [OF dsCreate_grows assms(1)])
  then have ok': "disk_ok st x'" using assms(4) by (simp add: grows_def)
  obtain x1 where c: "disk_ctx x = (None, x1)" and sz: "\<not> src_size v < 0"
  proof -
    obtain ce x1 where "disk_ctx x = (ce, x1)" by (cases "disk_ctx x")
    then show ?thesis
      using that assms(1,2) ctx_err [of x] by (cases ce) (auto simp: dsCreate_def io_bind_eq_Inl_iff)
  qed
  obtain r x2 where s: "osStat st ?p x1 = (r, x2)" by (cases "osStat st ?p x1")
  have a2: "adds st x x2" using disk_ctx_adds [OF c] io_relD [OF stat_adds s] by (rule adds.R_trans)
  note eval = assms(1) [unfolded dsCreate_def io_bind_def io_check_def io_try_def Let_def]
  show ?thesis
  proof (cases r)
    case (Inr n)
    then have "x' = x2" using eval c sz s by simp
    moreover have "fsLookup x2 ?p \<noteq> None"
      using s Inr by (auto simp: osStat_def split: option.splits elim!: os_call_Inr)
    ultimately show ?thesis using disk_objs_None [OF ok'] by simp
  next
    case (Inl e0)
    have "\<not> errors_is e0 ErrExists" using never_os(1) [of ErrExists] s Inl by (auto dest: neverD)
    then have ne: "errors_is e0 NotExist" using eval c sz s Inl assms(2) by (auto split: if_splits)
    obtain mr x3 where m: "osMkdirAll st (butlast ?p) x2 = (mr, x3)" by (cases "osMkdirAll st (butlast ?p) x2")
    obtain u where mr: "mr = Inr u"
      using eval c sz s Inl ne m neverD [OF never_mkdirAll [of ErrExists]] assms(2)
      by (cases mr) (auto simp: osMkdirAll_def)
    obtain tr x4 where t: "osCreateTemp st (butlast ?p) x3 = (tr, x4)" by (cases "osCreateTemp st (butlast ?p) x3")
    obtain tmp where tr: "tr = Inr tmp"
      using eval c sz s Inl ne m mr t neverD [OF never_os(3) [of ErrExists]] assms(2) by (cases tr) auto
    have ok3: "disk_ok st x3"
      using adds_ok [OF adds.R_trans [OF a2 io_relD [OF mkdirAll_adds m]] assms(4)] .
    have nv: "no_value st tmp" using createTemp_Inr t tr ok3 by blast
    have d: "io_defer (errPart (osRemove st tmp)) (publishTemp os st key tmp ?p v) x4 = (Inl e, x')"
      using eval c sz s Inl ne m mr t tr by simp
    obtain pr x5 where p: "publishTemp os st key tmp ?p v x4 = (pr, x5)" by (cases "publishTemp os st key tmp ?p v x4")
    obtain ce x6 where rm: "errPart (osRemove st tmp) x5 = (ce, x6)" by (cases "errPart (osRemove st tmp) x5")
    have nrm: "\<not> errors_is y ErrExists" if "ce = Some y" for y
      using never_os(6) [of ErrExists] rm that by (auto simp: errPart_Some dest: neverD)
    have x6: "x6 = x'" using d p rm by (auto simp: io_defer_def split: sum.splits option.splits)
    obtain e5 where pr: "pr = Inl e5" and e5: "errors_is e5 ErrExists"
      using d p rm nrm assms(2) by (cases pr; cases ce) (auto simp: io_defer_def)
    have "fsLookup x5 ?p \<noteq> None" by (rule publishTemp_exists [OF p [unfolded pr] e5 assms(3)])
    moreover have ok5: "disk_ok st x5"
    proof -
      have "disk_ok st x4" using adds_ok [OF io_relD [OF createTemp_adds t] ok3] .
      then show ?thesis using io_relD [OF publishTemp_grows [OF nv] p] by (simp add: grows_def)
    qed
    ultimately have "disk_objs st x5 key \<noteq> None" using disk_objs_None [of st x5 key] by simp
    moreover have "dgrows st x5 x'" using errPart_rel [OF osRemove_grows [OF nv] rm] x6 by simp
    ultimately show ?thesis using ok5 unfolding grows_def map_le_def by (metis domI domIff)
  qed
qed

subsection \<open>Get\<close>

lemma diskReader_adds: "io_rel (adds st) (diskReader st n)"
proof -
  have "io_rel (adds st) (case (r, n) of
           (Inl err, _) \<Rightarrow> io_ret \<lparr>s_bytes = [], s_reads = 0, s_rerr = Some err, s_cerr = None\<rparr>
         | (Inr u, Regular b) \<Rightarrow> io_ret \<lparr>s_bytes = b, s_reads = 1, s_rerr = None, s_cerr = None\<rparr>
         | (Inr u, _) \<Rightarrow>
             io_ret \<lparr>s_bytes = [], s_reads = 0, s_rerr = Some (Msg ''is a directory''), s_cerr = None\<rparr>)"
    for r :: "goerr + unit"
    by (cases r; cases n) (simp_all add: adds.rel_ret)
  then show ?thesis
    unfolding diskReader_def
    by (intro adds.rel_bind adds.rel_option adds.rel_ret adds.rel_try adds_poll flush_adds)
qed

lemma dsGet_adds: "io_rel (adds st) (dsGet st key)"
  unfolding dsGet_def by (intro adds.rel_bind adds.rel_wrap adds_check stat_adds diskReader_adds)

lemma dsGet_Inr:
  assumes "dsGet st key x = (Inr b, x')" and "disk_ok st x" and "s_rerr b = None"
  shows "disk_objs st x' key = Some (s_bytes b)"
proof -
  obtain x1 n x2 where c: "disk_ctx x = (None, x1)" and s: "osStat st (dsPath st key) x1 = (Inr n, x2)"
    and r: "diskReader st n x2 = (Inr b, x')"
    using assms(1) by (auto simp: dsGet_def io_bind_eq_Inr_iff)
  have n: "fsLookup x2 (dsPath st key) = Some n"
    using s by (auto simp: osStat_def split: option.splits elim!: os_call_Inr)
  have "n = Regular (s_bytes b)"
    using r assms(3)
    by (cases n)
       (auto simp: diskReader_def io_bind_def io_poll_def io_try_def split: prod.splits option.splits sum.splits)
  moreover have "disk_ok st x2"
    using adds_ok adds.R_trans [OF disk_ctx_adds [OF c] io_relD [OF stat_adds s]] assms(2) by blast
  ultimately show ?thesis
    using adds_keep [OF io_relD [OF diskReader_adds r]] n by (simp add: disk_objs_Some)
qed

lemma dsGet_absent:
  assumes "dsGet st key x = (Inl e, x')" and "disk_ok st x" and "errors_is e ErrNotFound"
  shows "disk_objs st x key = None"
proof -
  have nr: "never k (diskReader st n)" for k n
    by (rule neverI)
       (auto simp: diskReader_def io_bind_def io_poll_def io_try_def
         split: prod.splits option.splits sum.splits fsnode.splits)
  have nc: "never ErrNotFound (io_check disk_ctx)" by (rule never_ctx) simp
  obtain x1 e' where c: "disk_ctx x = (None, x1)" and s: "osStat st (dsPath st key) x1 = (Inl e', x')"
    and e: "e = Wrap (''diskstore: get '' @ key) [if errors_is e' NotExist then Wrap [] [Sentinel ErrNotFound, e'] else e']"
    using assms(1,3) neverD [OF nr] neverD [OF nc]
    unfolding dsGet_def io_bind_eq_Inl_iff io_wrap_eq_Inl_iff io_check_eq_Inr_iff by blast
  have "errors_is e' NotExist"
    using e assms(3) never_os(1) [of ErrNotFound] s by (auto split: if_splits dest: neverD)
  then have "fsLookup x' (dsPath st key) = None"
    using s by (auto simp: osStat_def os_error_def split: option.splits elim!: os_call_Inl)
  moreover have "adds st x x'" using disk_ctx_adds [OF c] io_relD [OF stat_adds s] by (rule adds.R_trans)
  ultimately have "fsLookup x (dsPath st key) = None"
    using adds_keep [of st x x' "dsPath st key"] assms(2) by (cases "fsLookup x (dsPath st key)") auto
  then show ?thesis by (simp add: disk_objs_def)
qed

end
