(* ===== verification/DiskWalk.thy ===== *)
theory DiskWalk
  imports DiskFacts
begin

section \<open>List walks the disk in key order\<close>

text \<open>
  The walk of \<open>diskstore.List\<close>, while other processes publish values: it returns keys in ascending
  order, present at its end, and misses none that was there at its start. The keys below a
  directory are those whose components extend the directory's; the entries of a directory split
  them into consecutive ranges.
\<close>

subsection \<open>Order\<close>

lemma hexEncode_less_iff: "hexEncode a < hexEncode b \<longleftrightarrow> a < b"
proof (induction a arbitrary: b)
  case Nil
  show ?case by (cases b) simp_all
next
  case (Cons c a)
  show ?case
  proof (cases b)
    case (Cons d b')
    let ?c = "of_char c :: nat" and ?d = "of_char d :: nat"
    have inj: "hexDigit x = hexDigit y \<longleftrightarrow> x = y" if "x < 16" "y < 16" for x y
      using that by (metis hexVal_hexDigit)
    have lt: "c < d \<longleftrightarrow> ?c div 16 < ?d div 16 \<or> ?c div 16 = ?d div 16 \<and> ?c mod 16 < ?d mod 16"
      using digit_less_iff [of "?c mod 16" "?d mod 16" "?c div 16" "?d div 16"] by (simp add: less_char_def)
    have eq: "c = d \<longleftrightarrow> ?c div 16 = ?d div 16 \<and> ?c mod 16 = ?d mod 16"
      by (metis div_mult_mod_eq of_char_eq_iff)
    show ?thesis by (simp add: Cons lt eq inj hexDigit_less_iff Cons.IH) blast
  qed simp
qed

lemma append_less_diverge:
  fixes u v :: "'a::linorder list"
  assumes "u < v" and "take (length u) v \<noteq> u" shows "u @ r < v @ s"
  using assms
proof (induction u arbitrary: v)
  case (Cons a u)
  then show ?case by (cases v) auto
qed simp

subsection \<open>Components\<close>

definition comps :: "string \<Rightarrow> string list" where
  "comps key = chunks (hexEncode key) @ [valueName]"

definition under :: "string list \<Rightarrow> string \<Rightarrow> bool" where
  "under cs key \<longleftrightarrow> (\<exists>c ds. comps key = cs @ c # ds)"

definition next_comp :: "string list \<Rightarrow> string \<Rightarrow> string" where
  "next_comp cs key = comps key ! length cs"

lemma dsPath_comps: "dsPath st key = (ds_dir st @ [''v1'']) @ comps key"
  by (simp add: dsPath_chunks comps_def)

lemma under_cases:
  assumes "under cs key"
  obtains "next_comp cs key = valueName" and "chunks (hexEncode key) = cs"
  | n ds where "next_comp cs key = n" and "validChunk n" and "chunks (hexEncode key) = cs @ n # ds"
      and "wf_chunks (cs @ n # ds)"
proof -
  obtain n ds where eq: "chunks (hexEncode key) @ [valueName] = cs @ n # ds"
    using assms by (auto simp: under_def comps_def)
  show ?thesis
  proof (cases ds rule: rev_cases)
    case Nil
    then show ?thesis using that(1) eq by (simp add: next_comp_def comps_def)
  next
    case (snoc ds' d)
    then have ch: "chunks (hexEncode key) = cs @ n # ds'" using eq by (metis append_Cons append_assoc append1_eq_conv)
    then have "wf_chunks (cs @ n # ds')" by (metis wf_chunks_key)
    then show ?thesis using that(2) [of n ds'] ch by (simp add: next_comp_def comps_def wf_chunks_def)
  qed
qed

lemma wf_chunks_append:
  "wf_chunks (cs @ n # ds) \<longleftrightarrow> wf_chunks cs \<and> (\<forall>c\<in>set cs. length c = keyChunk) \<and> wf_chunks (n # ds)"
  by (auto simp: wf_chunks_def butlast_append dest: in_set_butlastD)

text \<open>The walk goes below a directory only where its components are all full.\<close>

definition open_end :: "string list \<Rightarrow> bool" where
  "open_end cs \<longleftrightarrow> cs = [] \<or> length (last cs) = keyChunk"

lemma wf_snoc: "wf_chunks cs \<Longrightarrow> open_end cs \<Longrightarrow> validChunk n \<Longrightarrow> wf_chunks (cs @ [n])"
  by (cases cs rule: rev_cases) (auto simp: wf_chunks_def open_end_def butlast_append)

lemma under_open: "wf_chunks (cs @ n # ds) \<Longrightarrow> open_end cs"
  by (cases cs rule: rev_cases) (auto simp: wf_chunks_append wf_chunks_Cons open_end_def)

text \<open>The keys below a directory are ordered by their next component.\<close>

lemma valueName_less: "validChunk n \<Longrightarrow> valueName < n"
  by (cases n) (auto simp: validChunk_def valueName_def isHexDigit_def less_char_def less_eq_char_def)

lemma next_comp_less:
  assumes "under cs a" and "under cs b" and "next_comp cs a < next_comp cs b"
  shows "a < b"
  using assms(1)
proof (cases rule: under_cases)
  case 1
  then have "next_comp cs b \<noteq> valueName" using assms(3) by auto
  with assms(2) obtain n ds where "validChunk n" "chunks (hexEncode b) = cs @ n # ds"
    by (auto elim: under_cases)
  moreover have "hexEncode a = concat cs @ []" using 1 by (metis append_Nil2 concat_chunks)
  moreover have "hexEncode b = concat cs @ n @ concat ds"
    using calculation by (metis concat_chunks concat.simps(2) concat_append)
  moreover have "[] < n @ concat ds" using calculation validChunk_length by (cases n) fastforce+
  ultimately have "hexEncode a < hexEncode b" by (simp only: append_less_same_length refl simp_thms)
  then show ?thesis by (simp add: hexEncode_less_iff)
next
  case (2 n ds)
  have "next_comp cs b \<noteq> valueName" using 2 assms(3) valueName_less by force
  with assms(2) obtain m es where m: "next_comp cs b = m" "validChunk m" "chunks (hexEncode b) = cs @ m # es"
    by (auto elim: under_cases)
  have h: "hexEncode a = concat cs @ n @ concat ds" "hexEncode b = concat cs @ m @ concat es"
    using 2 m by (metis concat_chunks concat.simps(2) concat_append)+
  have "n < m" using assms(3) 2 m by simp
  have "n @ concat ds < m @ concat es"
  proof (cases "take (length n) m = n")
    case True
    then have "length n < length m" using \<open>n < m\<close> by (metis append_take_drop_id le_less_linear less_irrefl self_append_conv drop_all)
    then have "length n \<noteq> keyChunk" using m(2) validChunk_length by fastforce
    then have "ds = []" using 2(4) by (cases ds) (auto simp: wf_chunks_append wf_chunks_Cons)
    moreover have "m \<le> m @ s" for s by (induction m) simp_all
    ultimately show ?thesis using \<open>n < m\<close> order.strict_trans2 by fastforce
  next
    case False
    then show ?thesis using \<open>n < m\<close> by (rule append_less_diverge [rotated])
  qed
  then have "hexEncode a < hexEncode b" unfolding h by (simp add: append_less_same_length)
  then show ?thesis by (simp add: hexEncode_less_iff)
qed

subsection \<open>Listings of a region\<close>

text \<open>
  \<open>listed lim P st x x' acc out\<close>: between \<open>x\<close> and \<open>x'\<close> the keys of \<open>P\<close> were appended to \<open>acc\<close>,
  all of them unless the limit was reached first.
\<close>

definition listed ::
    "int \<Rightarrow> (string \<Rightarrow> bool) \<Rightarrow> dstore \<Rightarrow> disk_state \<Rightarrow> disk_state \<Rightarrow> string list \<Rightarrow> string list \<Rightarrow> bool" where
  "listed lim P st x x' acc out \<longleftrightarrow>
     (\<exists>new. out = acc @ new \<and> sorted_wrt (<) new \<and>
        (\<forall>k\<in>set new. P k \<and> disk_objs st x' k \<noteq> None) \<and>
        (\<forall>k. P k \<longrightarrow> disk_objs st x k \<noteq> None \<longrightarrow>
           k \<in> set new \<or> int (length out) = lim \<and> (\<forall>k'\<in>set new. k' < k))) \<and>
     int (length out) \<le> lim"

lemma listedI:
  assumes "sorted_wrt (<) new" and "\<And>k. k \<in> set new \<Longrightarrow> P k \<and> disk_objs st x' k \<noteq> None"
    and "\<And>k. P k \<Longrightarrow> disk_objs st x k \<noteq> None \<Longrightarrow>
      k \<in> set new \<or> int (length (acc @ new)) = lim \<and> (\<forall>k'\<in>set new. k' < k)"
    and "int (length (acc @ new)) \<le> lim"
  shows "listed lim P st x x' acc (acc @ new)"
  unfolding listed_def by (intro conjI exI [of _ new]) (use assms in auto)

lemma listedE:
  assumes "listed lim P st x x' acc out"
  obtains new where "out = acc @ new" and "sorted_wrt (<) new"
    and "\<And>k. k \<in> set new \<Longrightarrow> P k \<and> disk_objs st x' k \<noteq> None"
    and "\<And>k. P k \<Longrightarrow> disk_objs st x k \<noteq> None \<Longrightarrow>
      k \<in> set new \<or> int (length (acc @ new)) = lim \<and> (\<forall>k'\<in>set new. k' < k)"
    and "int (length (acc @ new)) \<le> lim"
  using assms unfolding listed_def by auto

lemma live_mono: "adds st x x' \<Longrightarrow> disk_ok st x \<Longrightarrow> disk_objs st x k \<noteq> None \<Longrightarrow> disk_objs st x' k \<noteq> None"
  using adds_grows [of st x x'] unfolding grows_def map_le_def by (metis domI domIff)

lemma listed_empty: "(\<And>k. \<not> P k) \<Longrightarrow> int (length acc) \<le> lim \<Longrightarrow> listed lim P st x x' acc acc"
  by (simp add: listed_def)

lemma listed_later:
  assumes "listed lim P st x1 x2 acc out" and "adds st x x1" and "adds st x2 x3" and "disk_ok st x"
    and "adds st x1 x2"
  shows "listed lim P st x x3 acc out"
proof -
  have "disk_ok st x1" "disk_ok st x2" using adds_ok assms by blast+
  then show ?thesis
    using assms(1)
    by (elim listedE, hypsubst)
      (rule listedI, assumption, metis live_mono [OF assms(3)], metis live_mono [OF assms(2,4)], assumption)
qed

lemma listed_weaken:
  assumes "listed lim P st x x' acc out" and "\<And>k. P k \<Longrightarrow> Q k"
    and "\<And>k. Q k \<Longrightarrow> disk_objs st x k \<noteq> None \<Longrightarrow> P k"
  shows "listed lim Q st x x' acc out"
  using assms(1)
proof (rule listedE)
  fix new
  assume n: "out = acc @ new" "sorted_wrt (<) new" "\<And>k. k \<in> set new \<Longrightarrow> P k \<and> disk_objs st x' k \<noteq> None"
    "\<And>k. P k \<Longrightarrow> disk_objs st x k \<noteq> None \<Longrightarrow>
      k \<in> set new \<or> int (length (acc @ new)) = lim \<and> (\<forall>k'\<in>set new. k' < k)"
    "int (length (acc @ new)) \<le> lim"
  show ?thesis unfolding n(1) by (rule listedI [OF n(2)]) (use n(3-5) assms(2,3) in auto)
qed

lemma listed_append:
  assumes "listed lim P st x x1 acc mid" and "listed lim Q st x1 x2 mid out"
    and "int (length mid) \<noteq> lim" and "adds st x x1" and "adds st x1 x2" and "disk_ok st x"
    and "\<And>a b. P a \<Longrightarrow> Q b \<Longrightarrow> a < b"
  shows "listed lim (\<lambda>k. P k \<or> Q k) st x x2 acc out"
proof -
  obtain n1 where n1: "mid = acc @ n1" "sorted_wrt (<) n1" "\<forall>k\<in>set n1. P k \<and> disk_objs st x1 k \<noteq> None"
      "\<forall>k. P k \<longrightarrow> disk_objs st x k \<noteq> None \<longrightarrow> k \<in> set n1"
    using assms(1,3) unfolding listed_def by blast
  obtain n2 where n2: "out = mid @ n2" "sorted_wrt (<) n2" "\<forall>k\<in>set n2. Q k \<and> disk_objs st x2 k \<noteq> None"
      "\<forall>k. Q k \<longrightarrow> disk_objs st x1 k \<noteq> None \<longrightarrow> k \<in> set n2 \<or> int (length out) = lim \<and> (\<forall>k'\<in>set n2. k' < k)"
      "int (length out) \<le> lim"
    using assms(2) unfolding listed_def by blast
  have ok1: "disk_ok st x1" using adds_ok assms(4,6) by blast
  have "sorted_wrt (<) (n1 @ n2)"
    using n1(2,3) n2(2,3) assms(7) by (auto simp: sorted_wrt_append)
  moreover have "\<forall>k\<in>set (n1 @ n2). (P k \<or> Q k) \<and> disk_objs st x2 k \<noteq> None"
    using n1(3) n2(3) live_mono [OF assms(5) ok1] by auto
  moreover have "k \<in> set (n1 @ n2) \<or> int (length out) = lim \<and> (\<forall>k'\<in>set (n1 @ n2). k' < k)"
    if "P k \<or> Q k" "disk_objs st x k \<noteq> None" for k
    using that n1(3,4) n2(4) live_mono [OF assms(4,6)] assms(7) by auto
  ultimately show ?thesis using n1(1) n2(1,5) unfolding listed_def by auto
qed

lemma listed_stop:
  assumes "listed lim P st x x1 acc mid" and "int (length mid) = lim" and "\<And>a b. P a \<Longrightarrow> Q b \<Longrightarrow> a < b"
  shows "listed lim (\<lambda>k. P k \<or> Q k) st x x1 acc mid"
  using assms unfolding listed_def by blast

subsection \<open>One directory\<close>

lemma entryNames_sorted: "sorted_wrt (<) (entryNames x dir)"
  by (simp add: entryNames_def strict_sorted_iff)

lemma entryNames_set: "n \<in> set (entryNames x dir) \<longleftrightarrow> fsLookup x (dir @ [n]) \<noteq> None"
proof -
  have "n \<in> set (entryNames x dir) \<longleftrightarrow> dir @ [n] \<in> fst ` set (fs_nodes (snd x))"
    by (auto simp: entryNames_def image_iff) (metis append_butlast_last_id snoc_eq_iff_butlast fst_conv)+
  then show ?thesis by (simp add: fsLookup_def map_of_eq_None_iff)
qed

lemma readDir_Inr:
  assumes "osReadDir st dir x = (Inr es, x')"
  shows "adds st x x' \<and> sorted_wrt (<) (map fst es) \<and>
    (\<forall>n. n \<in> fst ` set es \<longleftrightarrow> fsLookup x' (dir @ [n]) \<noteq> None) \<and>
    (\<forall>(n, nd)\<in>set es. fsLookup x' (dir @ [n]) = Some nd)"
proof -
  have es: "es = map (\<lambda>n. (n, the (fsLookup x' (dir @ [n])))) (entryNames x' dir)"
    using assms by (auto simp: osReadDir_def split: option.splits fsnode.splits elim!: os_call_Inr)
  then have "map fst es = entryNames x' dir" by (simp add: comp_def)
  then show ?thesis
    using io_relD [OF readDir_adds assms] entryNames_sorted entryNames_set es
    by (auto simp: image_image)
qed

subsection \<open>The walk\<close>

lemma walk_adds:
  "io_rel (adds st) (dsWalk os st lim ep dir enc descend acc)"
  "io_rel (adds st) (dsEntries os st lim ep dir enc descend es acc)"
proof (induction os st lim ep dir enc descend acc and os st lim ep dir enc descend es acc
    rule: dsWalk_dsEntries.induct)
  case (1 os st lim ep dir enc descend acc)
  show ?case
    unfolding dsWalk.simps [of os st lim ep dir enc descend acc]
    by (rule adds.rel_bind [OF adds_check], rule adds.rel_if [OF adds.rel_fail],
        rule adds.rel_bind [OF readDir_adds]) (rule "1")
next
  case (2 os st lim ep dir enc descend acc)
  show ?case unfolding dsEntries.simps by (rule adds.rel_ret)
next
  case (3 os st lim ep dir enc descend name nd es acc)
  show ?case
    unfolding dsEntries.simps(2) Let_def
    by (intro adds.rel_bind adds_check adds.rel_if adds.rel_fail adds.rel_ret adds.rel_lift adds.rel_option "3" refl)
qed

text \<open>The keys that match the encoded prefix, below a directory and behind some entries of it.\<close>

definition matching :: "string \<Rightarrow> string list \<Rightarrow> string \<Rightarrow> bool" where
  "matching ep cs key \<longleftrightarrow> under cs key \<and> hasPrefix (hexEncode key) ep"

lemma hasPrefix_comparable: "hasPrefix s a \<Longrightarrow> hasPrefix s b \<Longrightarrow> hasPrefix a b \<or> hasPrefix b a"
  unfolding hasPrefix_def by (metis le_cases min.absorb1 min.absorb2 take_take)

lemma under_encode: "under cs key \<Longrightarrow> hasPrefix (hexEncode key) (concat cs)"
  by (erule under_cases)
     (metis concat_chunks hasPrefix_def take_all order_refl, metis concat_append concat_chunks hasPrefix_append)

lemma under_snoc:
  assumes "validChunk n"
  shows "under (cs @ [n]) key \<longleftrightarrow> under cs key \<and> next_comp cs key = n"
proof
  assume "under (cs @ [n]) key"
  then show "under cs key \<and> next_comp cs key = n" by (auto simp: under_def next_comp_def)
next
  assume a: "under cs key \<and> next_comp cs key = n"
  then have "next_comp cs key \<noteq> valueName" using assms valueName_not_hex by auto
  then obtain ds where "chunks (hexEncode key) = cs @ n # ds"
    using a by (auto elim: under_cases)
  then have "comps key = (cs @ [n]) @ (case ds of [] \<Rightarrow> [valueName] | d # ds' \<Rightarrow> d # ds' @ [valueName])"
    by (simp add: comps_def split: list.splits)
  then show "under (cs @ [n]) key" unfolding under_def by (cases ds) auto
qed

text \<open>What one entry contributes.\<close>

lemma entry_value:
  assumes "wf_chunks cs" and "hasPrefix (concat cs) ep"
  shows "matching ep cs key \<and> next_comp cs key = valueName \<longleftrightarrow> key = hexDecode (concat cs)"
proof
  assume a: "matching ep cs key \<and> next_comp cs key = valueName"
  then have "under cs key" "next_comp cs key = valueName" by (auto simp: matching_def)
  then have "chunks (hexEncode key) = cs" using valueName_not_hex by (auto elim: under_cases)
  then show "key = hexDecode (concat cs)" by (metis concat_chunks hexDecode_hexEncode)
next
  assume k: "key = hexDecode (concat cs)"
  then have "comps key = cs @ [valueName]"
    using assms(1) by (simp add: comps_def wf_chunks_decode chunks_concat)
  then show "matching ep cs key \<and> next_comp cs key = valueName"
    using assms k by (auto simp: matching_def under_def next_comp_def wf_chunks_decode)
qed

lemma entry_value_other:
  assumes "wf_chunks cs" and "\<not> hasPrefix (concat cs) ep"
  shows "\<not> (matching ep cs key \<and> next_comp cs key = valueName)"
proof
  assume a: "matching ep cs key \<and> next_comp cs key = valueName"
  then have "chunks (hexEncode key) = cs" using valueName_not_hex by (auto simp: matching_def elim: under_cases)
  then show False using a assms(2) by (metis concat_chunks matching_def)
qed

lemma entry_skip:
  assumes "name \<noteq> valueName" and "\<not> (open_end cs \<and> validChunk name)"
  shows "\<not> (matching ep cs key \<and> next_comp cs key = name)"
  using assms under_open by (auto simp: matching_def elim!: under_cases)

lemma entry_apart:
  assumes "validChunk name" and "\<not> hasPrefix (concat cs @ name) ep" and "\<not> hasPrefix ep (concat cs @ name)"
  shows "\<not> (matching ep cs key \<and> next_comp cs key = name)"
proof
  assume a: "matching ep cs key \<and> next_comp cs key = name"
  then have "hasPrefix (hexEncode key) (concat (cs @ [name]))"
    using under_snoc [OF assms(1)] by (intro under_encode) (simp add: matching_def)
  then show False using hasPrefix_comparable [of _ ep "concat cs @ name"] a assms by (auto simp: matching_def)
qed

lemma decode_ok: "wf_chunks cs \<Longrightarrow> hexDecodeString (concat cs) = Inr (hexDecode (concat cs))"
  using wf_concat [of cs] by (simp add: hexDecodeString_def hexDecode_length)

lemma walk_listed:
  "dsWalk os st lim ep dir enc descend acc x = (Inr out, x') \<Longrightarrow> dir = (ds_dir st @ [''v1'']) @ cs \<Longrightarrow>
     enc = concat cs \<Longrightarrow> wf_chunks cs \<Longrightarrow> descend = open_end cs \<Longrightarrow> disk_ok st x \<Longrightarrow> int (length acc) < lim \<Longrightarrow>
     listed lim (matching ep cs) st x x' acc out"
  "dsEntries os st lim ep dir enc descend es acc x = (Inr out, x') \<Longrightarrow> dir = (ds_dir st @ [''v1'']) @ cs \<Longrightarrow>
     enc = concat cs \<Longrightarrow> wf_chunks cs \<Longrightarrow> descend = open_end cs \<Longrightarrow> disk_ok st x \<Longrightarrow> int (length acc) < lim \<Longrightarrow>
     sorted_wrt (<) (map fst es) \<Longrightarrow> \<forall>(n, nd)\<in>set es. fsLookup x (dir @ [n]) = Some nd \<Longrightarrow>
     listed lim (\<lambda>k. matching ep cs k \<and> next_comp cs k \<in> fst ` set es) st x x' acc out"
proof (induction os st lim ep dir enc descend acc and os st lim ep dir enc descend es acc
    arbitrary: x x' out cs and x x' out cs rule: dsWalk_dsEntries.induct)
  case (1 os st lim ep dir enc descend acc)
  obtain x1 es x2 where c: "disk_ctx x = (None, x1)" and len: "\<not> path_max os < length dir"
    and rd: "osReadDir st dir x1 = (Inr es, x2)"
    and en: "dsEntries os st lim ep dir enc descend es acc x2 = (Inr out, x')"
    using "1.prems"(1)
    by (auto simp: dsWalk.simps [of os st lim ep dir enc descend acc] io_bind_eq_Inr_iff split: if_splits)
  note dirs = readDir_Inr [OF rd]
  have a: "adds st x x2" using disk_ctx_adds [OF c] dirs by (blast intro: adds.R_trans)
  have ok2: "disk_ok st x2" using a "1.prems"(6) by (rule adds_ok)
  have l: "listed lim (\<lambda>k. matching ep cs k \<and> next_comp cs k \<in> fst ` set es) st x2 x' acc out"
    by (rule "1.IH" [OF len en]) (use "1.prems" dirs ok2 in auto)
  have a': "adds st x2 x'" by (rule io_relD [OF walk_adds(2) en])
  have l': "listed lim (\<lambda>k. matching ep cs k \<and> next_comp cs k \<in> fst ` set es) st x x' acc out"
    by (rule listed_later [OF l a adds.R_refl "1.prems"(6) a'])
  show ?case
  proof (rule listed_weaken [OF l'])
    fix k assume m: "matching ep cs k" and live: "disk_objs st x k \<noteq> None"
    obtain n ds where k: "comps k = cs @ n # ds" using m by (auto simp: matching_def under_def)
    have "disk_objs st x2 k \<noteq> None" by (rule live_mono [OF a "1.prems"(6) live])
    then have "fsLookup x2 (dsPath st k) \<noteq> None" by (auto simp: disk_objs_def split: option.splits)
    then have full: "fsLookup x2 ((dir @ [n]) @ ds) \<noteq> None"
      using "1.prems"(2) k by (simp add: dsPath_comps)
    have "fsLookup x2 (dir @ [n]) \<noteq> None"
      using full ok_parents [OF ok2 full] by (cases "ds = []") auto
    then show "matching ep cs k \<and> next_comp cs k \<in> fst ` set es"
      using m k dirs by (simp add: next_comp_def)
  qed simp
next
  case (2 os st lim ep dir enc descend acc)
  then show ?case by (simp add: dsEntries.simps listed_empty)
next
  case (3 os st lim ep dir enc descend name nd es acc)
  note prems = "3.prems"
  let ?P = "\<lambda>k. matching ep cs k \<and> next_comp cs k = name"
  let ?Q = "\<lambda>k. matching ep cs k \<and> next_comp cs k \<in> fst ` set es"
  let ?body = "if name = valueName \<and> hasPrefix enc ep then
          (if \<not> (case nd of Regular _ \<Rightarrow> True | _ \<Rightarrow> False) then io_fail (Msg ''diskstore: non-regular value'')
           else io_bind (io_lift (hexDecodeString enc)) (\<lambda>key. io_ret (Some (acc @ [key]))))
        else if descend \<and> validChunk name then
          (let nxt = enc @ name in
           if \<not> hasPrefix nxt ep \<and> \<not> hasPrefix ep nxt then io_ret None
           else if nd \<noteq> Directory then io_fail (Msg ''diskstore: non-directory key component'')
           else io_bind (dsWalk os st lim ep (dir @ [name]) nxt (length name = keyChunk) acc)
                  (\<lambda>ks. io_ret (Some ks)))
        else io_ret (Some acc)"
  obtain x1 r x2 where c: "disk_ctx x = (None, x1)" and b: "?body x1 = (Inr r, x2)"
    and tl: "(case r of None \<Rightarrow> dsEntries os st lim ep dir enc descend es acc
        | Some ks \<Rightarrow> if int (length ks) = lim then io_ret ks
            else dsEntries os st lim ep dir enc descend es ks) x2 = (Inr out, x')"
    using prems(1)
    unfolding dsEntries.simps(2) io_bind_eq_Inr_iff [of "io_check disk_ctx"] io_bind_eq_Inr_iff [of ?body]
    by auto
  have a1: "adds st x x1" by (rule disk_ctx_adds [OF c])
  have ok1: "disk_ok st x1" using a1 prems(6) by (rule adds_ok)
  have look: "fsLookup x1 (dir @ [name]) = Some nd"
    using adds_keep [OF a1 prems(6)] prems(9) by simp
  have P: "?P k \<longleftrightarrow> k = hexDecode (concat cs)" if "name = valueName" "hasPrefix (concat cs) ep" for k
    using entry_value [OF prems(4) that(2)] that(1) by simp
  define mid where "mid = (case r of None \<Rightarrow> acc | Some ks \<Rightarrow> ks)"
  have step: "listed lim ?P st x1 x2 acc mid \<and> adds st x1 x2"
  proof -
    consider (val) "name = valueName" "hasPrefix enc ep"
      | (down) "\<not> (name = valueName \<and> hasPrefix enc ep)" "descend" "validChunk name"
          "hasPrefix (enc @ name) ep \<or> hasPrefix ep (enc @ name)"
      | (apart) "\<not> (name = valueName \<and> hasPrefix enc ep)" "descend" "validChunk name"
          "\<not> hasPrefix (enc @ name) ep" "\<not> hasPrefix ep (enc @ name)"
      | (skip) "\<not> (name = valueName \<and> hasPrefix enc ep)" "\<not> (descend \<and> validChunk name)"
      by blast
    then show ?thesis
    proof cases
      case val
      let ?key = "hexDecode (concat cs)"
      obtain bs where nd: "nd = Regular bs" and r: "mid = acc @ [?key]" and x2: "x2 = x1"
        using b val prems(3,4) by (auto simp: mid_def decode_ok split: fsnode.splits)
      have "comps ?key = cs @ [valueName]"
        using prems(4) by (simp add: comps_def wf_chunks_decode chunks_concat)
      then have "disk_objs st x2 ?key \<noteq> None"
        using look nd val(1) prems(2) by (simp add: x2 disk_objs_def dsPath_comps)
      then have "listed lim ?P st x1 x2 acc (acc @ [?key])"
        using prems(7) P val prems(3) by (intro listedI) auto
      then show ?thesis by (simp add: r x2 adds.R_refl)
    next
      case down
      obtain ks where w: "dsWalk os st lim ep (dir @ [name]) (enc @ name) (length name = keyChunk) acc x1 = (Inr ks, x2)"
        and mid: "mid = ks"
        using b down by (auto simp: mid_def io_bind_eq_Inr_iff split: if_splits)
      have "listed lim (matching ep (cs @ [name])) st x1 x2 acc ks"
        by (rule "3.IH"(1) [OF down(1) _ refl _ _ w]) 
           (use down b prems ok1 wf_snoc in \<open>auto simp: open_end_def split: if_splits\<close>)
      then have "listed lim ?P st x1 x2 acc ks"
        using under_snoc [OF down(3)] by (auto simp: matching_def elim!: listed_weaken)
      then show ?thesis using io_relD [OF walk_adds(1) w] by (simp add: mid)
    next
      case apart
      then have "mid = acc" "x2 = x1" using b by (auto simp: mid_def)
      then show ?thesis
        using entry_apart [of name cs ep] apart prems(3,7) by (auto intro!: listed_empty simp: adds.R_refl)
    next
      case skip
      then have "mid = acc" "x2 = x1" using b by (auto simp: mid_def)
      moreover have "\<not> ?P k" for k
      proof (cases "name = valueName")
        case True
        then show ?thesis using skip(1) entry_value_other [OF prems(4)] prems(3) by auto
      next
        case False
        then show ?thesis using skip(2) entry_skip [OF False] prems(5) by auto
      qed
      ultimately show ?thesis using prems(7) by (auto intro!: listed_empty simp: adds.R_refl)
    qed
  qed
  have a12: "adds st x x2" using a1 step by (blast intro: adds.R_trans)
  have ok2: "disk_ok st x2" using a12 prems(6) by (rule adds_ok)
  have PQ: "a < b" if "?P a" "?Q b" for a b
  proof (rule next_comp_less)
    show "under cs a" "under cs b" using that by (simp_all add: matching_def)
    have "\<forall>n\<in>fst ` set es. name < n" using prems(8) by simp
    then have "name < next_comp cs b" by (rule bspec) (use that(2) in simp)
    then show "next_comp cs a < next_comp cs b" using that(1) by simp
  qed
  have here: "listed lim ?P st x x2 acc mid"
    by (rule listed_later [OF conjunct1 [OF step] a1 adds.R_refl prems(6) conjunct2 [OF step]])
  have es: "\<forall>(n, nd)\<in>set es. fsLookup x2 (dir @ [n]) = Some nd"
    using prems(9) adds_keep [OF a12 prems(6)] by auto
  have "listed lim (\<lambda>k. ?P k \<or> ?Q k) st x x' acc out"
  proof (cases "r \<noteq> None \<and> int (length mid) = lim")
    case True
    then have o: "out = mid" "x' = x2" using tl by (auto simp: mid_def)
    show ?thesis unfolding o by (rule listed_stop [OF here conjunct2 [OF True] PQ])
  next
    case False
    have ne: "int (length mid) \<noteq> lim" using False prems(7) by (cases r) (auto simp: mid_def)
    have le: "int (length mid) \<le> lim" using here by (auto simp: listed_def)
    have en: "dsEntries os st lim ep dir enc descend es mid x2 = (Inr out, x')"
      using tl False by (cases r) (auto simp: mid_def)
    have "listed lim ?Q st x2 x' mid out"
    proof (cases r)
      case None
      show ?thesis
        using "3.IH"(2) [of x2 out x' cs] None en prems ok2 es le ne by (simp add: mid_def)
    next
      case (Some ks)
      show ?thesis
        using "3.IH"(3) [of ks x2 out x' cs] Some en prems ok2 es le ne by (simp add: mid_def)
    qed
    then show ?thesis
      by (rule listed_append [OF here _ ne a12 io_relD [OF walk_adds(2) en] prems(6) PQ])
  qed
  then show ?case by (rule listed_weaken) auto
qed

subsection \<open>The contract\<close>

lemma hexEncode_append: "hexEncode (a @ b) = hexEncode a @ hexEncode b"
  by (induction a) simp_all

lemma hasPrefix_hexEncode: "hasPrefix (hexEncode k) (hexEncode p) \<longleftrightarrow> hasPrefix k p"
proof (induction p arbitrary: k)
  case (Cons c p)
  have inj: "hexEncode [c] = hexEncode [d] \<longleftrightarrow> c = d" for d using hexEncode_inj [of "[c]" "[d]"] by simp
  show ?case
  proof (cases k)
    case (Cons d k')
    then show ?thesis using Cons.IH [of k'] inj [of d] by (auto simp: hasPrefix_def)
  qed (simp add: hasPrefix_def)
qed (simp add: hasPrefix_def)

lemma dsList_adds: "io_rel (adds st) (dsList os st p n)"
  unfolding dsList_def by (intro adds.rel_bind adds.rel_lift adds.rel_wrap adds_check walk_adds(1))

lemma dsList_listing:
  assumes "dsList os st p n x = (Inr ks, x')" and "disk_ok st x"
  shows "is_listing p n (disk_objs st x) (disk_objs st x') ks"
proof -
  obtain x1 where c: "disk_ctx x = (None, x1)" and n: "0 < n"
    and w: "dsWalk os st n (hexEncode p) (ds_dir st @ [''v1'']) [] True [] x1 = (Inr ks, x')"
    using assms(1) by (auto simp: dsList_def io_bind_eq_Inr_iff)
  have a: "adds st x x1" by (rule disk_ctx_adds [OF c])
  have l: "listed n (matching (hexEncode p) []) st x1 x' [] ks"
    by (rule walk_listed(1) [OF w]) (use n adds_ok [OF a assms(2)] in \<open>auto simp: open_end_def\<close>)
  have "under [] k" for k by (cases "comps k") (auto simp: under_def comps_def)
  then have m: "matching (hexEncode p) [] k \<longleftrightarrow> hasPrefix k p" for k
    by (simp add: matching_def hasPrefix_hexEncode)
  have "listed n (matching (hexEncode p) []) st x x' [] ks"
    by (rule listed_later [OF l a adds.R_refl assms(2) io_relD [OF walk_adds(1) w]])
  then show ?thesis
    unfolding is_listing_def listed_def m by (auto simp: dom_def)
qed

interpretation disk: object_store "disk_world os st" "disk_objs st" "disk_ok st" for os st
proof
  note rel = io_relD [OF rel_adds_grows]
  show "dgrows st s s'" if "w_ctx (disk_world os st) s = (ce, s')" for s ce s'
    using that disk_ctx_adds [of s ce s' st] by (auto simp: disk_world_def intro: adds_grows)
  show "dgrows st s s'" if "w_list (disk_world os st) p n s = (lr, s')" for p n s lr s'
    using that rel [OF dsList_adds] by (simp add: disk_world_def)
  show "dgrows st s s'" if "w_get (disk_world os st) k s = (gr, s')" for k s gr s'
    using that rel [OF dsGet_adds] by (simp add: disk_world_def)
  show "dgrows st s s'" if "w_create (disk_world os st) k v s = (ce, s')" for k v s ce s'
    using that errPart_rel [OF dsCreate_grows] by (simp add: disk_world_def)
  show "dgrows st s s'" if "w_rand (disk_world os st) m s = (rr, s')" for m s rr s'
    using that by (auto simp: disk_world_def disk_rand_def intro: adds_grows)
  show "dgrows st s s'" if "w_tmp (disk_world os st) q s = (ce, s')" for q s ce s'
  proof -
    have "snd s' = snd s" using that by (simp add: disk_world_def lift_op_eq_iff)
    then have "s' = (fst s', snd s)" by (cases s') simp
    then show ?thesis by (metis adds_env adds_grows)
  qed
  show "is_listing p n (disk_objs st s) (disk_objs st s') ks"
    if "w_list (disk_world os st) p n s = (Inr ks, s')" "disk_ok st s" for p n s ks s'
    using that dsList_listing by (simp add: disk_world_def)
  show "disk_objs st s' k = Some (s_bytes b)"
    if "w_get (disk_world os st) k s = (Inr b, s')" "disk_ok st s" "s_rerr b = None" for k s b s'
    using that dsGet_Inr by (simp add: disk_world_def)
  show "disk_objs st s k = None"
    if "w_get (disk_world os st) k s = (Inl e, s')" "disk_ok st s" "errors_is e ErrNotFound" for k s e s'
    using that dsGet_absent by (simp add: disk_world_def)
  show "disk_objs st s k = None \<and> disk_objs st s' k = Some v"
    if "w_create (disk_world os st) k v s = (None, s')" "disk_ok st s" for k v s s'
    using that dsCreate_Inr [of os st k "bytes_source v" s "()" s']
    by (auto simp: disk_world_def bytes_source_def errPart_def errOf_def split: prod.splits sum.splits)
  show "disk_objs st s' k \<noteq> None"
    if "w_create (disk_world os st) k v s = (Some e, s')" "disk_ok st s" "errors_is e ErrExists" for k v s e s'
    using that dsCreate_exists [of os st k "bytes_source v" s e s']
    by (simp add: disk_world_def bytes_source_def errPart_Some)
qed

subsection \<open>New\<close>

lemma stat_Inr: "osStat st p x = (Inr n, x') \<Longrightarrow> fsLookup x' p = Some n"
  by (auto simp: osStat_def split: option.splits elim!: os_call_Inr)

lemma mkdirAllRev_Inr:
  "mkdirAllRev st rp x = (Inr u, x') \<Longrightarrow> rp \<noteq> [] \<Longrightarrow> fsLookup x' (rev rp) = Some Directory"
proof (cases rp)
  case (Cons c rp')
  let ?p = "rev (c # rp')"
  assume run: "mkdirAllRev st rp x = (Inr u, x')"
  note eval = run [unfolded Cons mkdirAllRev.simps Let_def io_bind_def io_try_def]
  obtain r x1 where s: "osStat st ?p x = (r, x1)" by (cases "osStat st ?p x")
  have "fsLookup x' ?p = Some Directory"
  proof (cases r)
    case (Inr n)
    then show ?thesis using eval s stat_Inr [of st ?p x n x1] by (auto split: if_splits)
  next
    case (Inl e)
    obtain u2 x2 where m: "mkdirAllRev st rp' x1 = (Inr u2, x2)"
      using eval s Inl by (auto split: prod.splits sum.splits)
    obtain q x3 where mk: "osMkdir st ?p x2 = (q, x3)" by (cases "osMkdir st ?p x2")
    show ?thesis
    proof (cases q)
      case (Inr v)
      then have "x' = x3" using eval s Inl m mk by simp
      then show ?thesis
        using mk Inr by (auto simp: osMkdir_def split: if_splits elim!: os_call_Inr)
    next
      case (Inl e')
      obtain r2 x4 where s2: "osStat st ?p x3 = (r2, x4)" by (cases "osStat st ?p x3")
      have "r2 = Inr Directory" "x' = x4"
        using eval s \<open>r = Inl e\<close> m mk Inl s2 by (auto split: if_splits)
      then show ?thesis using stat_Inr s2 by blast
    qed
  qed
  then show "fsLookup x' (rev rp) = Some Directory" by (simp add: Cons)
qed simp

text \<open>New leaves a directory it found, or made, that is ready for the store.\<close>

lemma dsNew_ok:
  assumes "dsNew absPath dir x = (Inr st, x')" and "fs_ok st x"
  shows "disk_ok st x'"
proof -
  obtain abs where ab: "absPath dir = Inr abs" and st: "st = \<lparr>ds_dir = abs\<rparr>"
    and m: "osMkdirAll st (abs @ [''v1'']) x = (Inr (), x')"
    using assms(1) by (auto simp: dsNew_def io_bind_eq_Inr_iff)
  have "io_rel (adds st) (osMkdirAll st (abs @ [''v1'']))"
    unfolding osMkdirAll_def
  proof (rule mkdirAllRev_adds)
    fix i
    have "length (take i (rev (rev (abs @ [''v1''])))) \<le> Suc (length abs)" by simp
    then show "no_value st (take i (rev (rev (abs @ [''v1'']))))"
      unfolding no_value_def by (auto dest!: arg_cong [where f = length] simp: dsPath_chunks st)
  qed
  then have "adds st x x'" using m by (rule io_relD)
  then have "fs_ok st x'" using assms(2) by (simp add: adds_def)
  moreover have "fsLookup x' (abs @ [''v1'']) = Some Directory"
    using mkdirAllRev_Inr [OF m [unfolded osMkdirAll_def]] by simp
  ultimately show ?thesis by (simp add: disk_ok_def st)
qed

end
