(* ===== verification/S3Store.thy ===== *)
theory S3Store
  imports Memstore Loading
begin

section \<open>The S3 store (s3store)\<close>

text \<open>
  \<open>s3store.Store\<close> keeps values as objects of a bucket: List follows continuation tokens, Get opens
  an object's body, and Create sends a conditional PutObject or, above a threshold, a multipart
  upload whose parts four workers send. The SDK's client is a parameter, a record with the seven
  calls the code makes and with what \<open>status\<close> and \<open>code\<close> read from its errors.
\<close>

subsection \<open>The client\<close>

text \<open>What the calls return, as far as the code reads it; a nil pointer is \<^const>\<open>None\<close>.\<close>

record s3page =
  pg_Contents :: "string option list"
  pg_IsTruncated :: "bool option"
  pg_Next :: "string option"

record partOut =
  po_ETag :: "string option"
  po_CRC32 :: "string option"

record completedPart =
  cp_Number :: int
  cp_ETag :: "string option"
  cp_CRC32 :: "string option"

record 's s3client =
  cl_list :: "string \<Rightarrow> string \<Rightarrow> int \<Rightarrow> string option \<Rightarrow> ('s, s3page option) io"
  cl_get :: "string \<Rightarrow> string \<Rightarrow> ('s, stream option) io"
  cl_put :: "string \<Rightarrow> string \<Rightarrow> bytes \<Rightarrow> string \<Rightarrow> 's \<Rightarrow> goerr option \<times> 's"
  cl_initiate :: "string \<Rightarrow> string \<Rightarrow> string \<Rightarrow> ('s, string option) io"
  cl_part :: "string \<Rightarrow> string \<Rightarrow> string \<Rightarrow> int \<Rightarrow> bytes \<Rightarrow> ('s, partOut option) io"
  cl_complete :: "string \<Rightarrow> string \<Rightarrow> string \<Rightarrow> completedPart option list \<Rightarrow> 's \<Rightarrow> goerr option \<times> 's"
  cl_abort :: "string \<Rightarrow> string \<Rightarrow> string \<Rightarrow> 's \<Rightarrow> goerr option \<times> 's"
  cl_status :: "goerr \<Rightarrow> int"
  cl_code :: "goerr \<Rightarrow> string"

text \<open>
  The surroundings of a call: its context, random bytes, a timer that runs against the context, the
  core's temporary files, and the order in which the scheduler runs goroutines.
\<close>

record 's s3env =
  x_ctx :: "'s \<Rightarrow> goerr option \<times> 's"
  x_rand :: "nat \<Rightarrow> ('s, bytes) io"
  x_sleep :: "int \<Rightarrow> 's \<Rightarrow> goerr option \<times> 's"
  x_tmp :: "string \<Rightarrow> 's \<Rightarrow> goerr option \<times> 's"
  x_sched :: "nat \<Rightarrow> nat"

subsection \<open>New\<close>

record 's s3config =
  sc_Client :: "'s s3client option option"
  sc_Bucket :: string
  sc_MaxConflictRetries :: int

record 's s3store =
  s3_client :: "'s s3client"
  s3_bucket :: string
  s3_retries :: int
  s3_threshold :: int
  s3_partSize :: int

fun hasDots :: "string \<Rightarrow> bool" where
  "hasDots (a # b # s) = (a = CHR ''.'' \<and> b = CHR ''.'' \<or> hasDots (b # s))"
| "hasDots _ = False"

text \<open>
  \<open>netip.ParseAddr\<close>: the first dot or colon decides between the two families. The four fields of
  an IPv4 address are decimal, at most 255, without leading zeros. Whether a text is an IPv6 address
  is left to an argument: it has a colon, so New rejects it in any case.
\<close>

fun splitDots :: "string \<Rightarrow> string list" where
  "splitDots [] = [[]]"
| "splitDots (c # s) =
     (if c = CHR ''.'' then [] # splitDots s
      else (case splitDots s of w # ws \<Rightarrow> (c # w) # ws | [] \<Rightarrow> [[c]]))"

definition ipv4Field :: "string \<Rightarrow> bool" where
  "ipv4Field f \<longleftrightarrow>
     f \<noteq> [] \<and> list_all (\<lambda>c. CHR ''0'' \<le> c \<and> c \<le> CHR ''9'') f \<and> (length f > 1 \<longrightarrow> hd f \<noteq> CHR ''0'') \<and>
     length f \<le> 3 \<and> foldl (\<lambda>v c. v * 10 + (of_char c - 48)) (0 :: nat) f \<le> 255"

definition parseAddr :: "(string \<Rightarrow> bool) \<Rightarrow> string \<Rightarrow> bool" where
  "parseAddr ipv6 s =
     (case filter (\<lambda>c. c \<in> {CHR ''.'', CHR '':'', CHR ''%''}) s of
        [] \<Rightarrow> False
      | c # _ \<Rightarrow>
          if c = CHR ''.'' then length (splitDots s) = 4 \<and> list_all ipv4Field (splitDots s)
          else if c = CHR '':'' then ipv6 s
          else False)"

definition bucketChar :: "char \<Rightarrow> bool" where
  "bucketChar c \<longleftrightarrow>
     CHR ''a'' \<le> c \<and> c \<le> CHR ''z'' \<or> CHR ''0'' \<le> c \<and> c \<le> CHR ''9'' \<or> c = CHR ''.'' \<or> c = CHR ''-''"

definition validateBucket :: "(string \<Rightarrow> bool) \<Rightarrow> string \<Rightarrow> goerr + unit" where
  "validateBucket ipv6 b =
     ebind (fail_if (length b < 3 \<or> length b > 63 \<or> hasSuffix b ''--x-s3'' \<or> hasDots b \<or>
         hd b = CHR ''.'' \<or> hd b = CHR ''-'' \<or> last b = CHR ''.'' \<or> last b = CHR ''-'')
       (Msg ''s3store: invalid general-purpose bucket name'')) (\<lambda>_.
     ebind (fail_if (parseAddr ipv6 b) (Msg ''s3store: bucket name cannot be an IP address'')) (\<lambda>_.
     ebind (fail_if (list_ex (hasSuffix b) [''-s3alias'', ''--ol-s3'', ''--table-s3''])
       (Msg ''s3store: bucket aliases are unsupported'')) (\<lambda>_.
     fail_if (\<not> list_all bucketChar b) (Msg ''s3store: invalid bucket name''))))"

definition s3New :: "(string \<Rightarrow> bool) \<Rightarrow> 's s3config \<Rightarrow> goerr + 's s3store" where
  "s3New ipv6 cfg =
     (case sc_Client cfg of
        None \<Rightarrow> Inl (Msg ''s3store: nil client'')
      | Some None \<Rightarrow> Inl (Msg ''s3store: nil client'')
      | Some (Some cl) \<Rightarrow>
          ebind (validateBucket ipv6 (sc_Bucket cfg)) (\<lambda>_.
          ebind (fail_if (sc_MaxConflictRetries cfg < 0) (Msg ''s3store: invalid limit'')) (\<lambda>_.
          Inr \<lparr>s3_client = cl, s3_bucket = sc_Bucket cfg,
               s3_retries = (if sc_MaxConflictRetries cfg = 0 then 8 else sc_MaxConflictRetries cfg),
               s3_threshold = 128 * 2 ^ 20, s3_partSize = 64 * 2 ^ 20\<rparr>)))"

subsection \<open>Errors\<close>

definition s3wrap :: "'s s3store \<Rightarrow> string \<Rightarrow> string \<Rightarrow> goerr \<Rightarrow> goerr" where
  "s3wrap st op1 key err = Wrap (''s3store: '' @ op1 @ '' bucket '' @ s3_bucket st @ '' key '' @ key) [err]"

definition s3status :: "'s s3store \<Rightarrow> goerr \<Rightarrow> int" where
  "s3status st = cl_status (s3_client st)"

definition s3code :: "'s s3store \<Rightarrow> goerr \<Rightarrow> string" where
  "s3code st = cl_code (s3_client st)"

definition precondition_failed :: "'s s3store \<Rightarrow> goerr \<Rightarrow> bool" where
  "precondition_failed st e \<longleftrightarrow> s3status st e = 412 \<or> s3code st e = ''PreconditionFailed''"

definition conflict :: "'s s3store \<Rightarrow> goerr \<Rightarrow> bool" where
  "conflict st e \<longleftrightarrow> s3status st e = 409 \<or> s3code st e = ''ConditionalRequestConflict''"

subsection \<open>List\<close>

text \<open>The keys of one page appended to those before; \<^const>\<open>None\<close> when one is not in order.\<close>

fun pageKeys :: "string \<Rightarrow> string option list \<Rightarrow> string list \<Rightarrow> string list option" where
  "pageKeys p [] acc = Some acc"
| "pageKeys p (obj # objs) acc =
     (case obj of
        None \<Rightarrow> None
      | Some k \<Rightarrow>
          if \<not> hasPrefix k p \<or> acc \<noteq> [] \<and> k \<le> last acc then None
          else pageKeys p objs (acc @ [k]))"

lemma pageKeys_length: "pageKeys p objs acc = Some acc' \<Longrightarrow> length acc' = length acc + length objs"
  by (induction p objs acc rule: pageKeys.induct) (auto split: option.splits if_splits)

function s3Pages ::
    "'s s3env \<Rightarrow> 's s3store \<Rightarrow> string \<Rightarrow> int \<Rightarrow> string list \<Rightarrow> string option \<Rightarrow> ('s, string list) io" where
  "s3Pages E st p limit acc token =
     (if int (length acc) < limit then
        io_bind (io_check (x_ctx E)) (\<lambda>_.
        let n = min (limit - int (length acc)) 1000 in
        io_bind (io_wrap (s3wrap st ''list'' p) (cl_list (s3_client st) (s3_bucket st) p n token)) (\<lambda>out.
          case out of
            None \<Rightarrow> io_fail (s3wrap st ''list'' p (Sentinel ErrCorrupt))
          | Some pg \<Rightarrow>
              if int (length (pg_Contents pg)) > n then io_fail (s3wrap st ''list'' p (Sentinel ErrCorrupt))
              else
                (case pageKeys p (pg_Contents pg) acc of
                   None \<Rightarrow> io_fail (s3wrap st ''unordered list'' p (Sentinel ErrCorrupt))
                 | Some acc' \<Rightarrow>
                     if pg_IsTruncated pg \<noteq> Some True \<or> int (length acc') = limit then io_ret acc'
                     else if pg_Contents pg = [] \<or> pg_Next pg = None \<or> pg_Next pg = Some [] \<or>
                             token \<noteq> None \<and> token = pg_Next pg
                     then io_fail (s3wrap st ''invalid pagination'' p (Sentinel ErrCorrupt))
                     else s3Pages E st p limit acc' (pg_Next pg))))
      else io_ret acc)"
  by pat_completeness auto
termination
  by (relation "measure (\<lambda>(E, st, p, limit, acc, token). nat (limit - int (length acc)))")
     (auto dest!: pageKeys_length)

declare s3Pages.simps [simp del]

definition s3List :: "'s s3env \<Rightarrow> 's s3store \<Rightarrow> string \<Rightarrow> int \<Rightarrow> ('s, string list) io" where
  "s3List E st p limit =
     io_bind (io_lift (fail_if (limit \<le> 0) (Msg ''s3store: LIST limit must be positive''))) (\<lambda>_.
     s3Pages E st p limit [] None)"

subsection \<open>Get\<close>

text \<open>The reader polls the context on each Read and names the key in the errors of the body.\<close>

definition responseBody :: "'s s3env \<Rightarrow> 's s3store \<Rightarrow> string \<Rightarrow> stream \<Rightarrow> ('s, stream) io" where
  "responseBody E st key body =
     (let ce = map_option (s3wrap st ''close'' key) (s_cerr body) in
      io_bind (io_poll (x_ctx E)) (\<lambda>e. case e of
        Some err \<Rightarrow> io_ret \<lparr>s_bytes = [], s_reads = 0, s_rerr = Some err, s_cerr = ce\<rparr>
      | None \<Rightarrow> io_ret (body\<lparr>s_rerr := map_option (s3wrap st ''read'' key) (s_rerr body), s_cerr := ce\<rparr>)))"

definition s3Get :: "'s s3env \<Rightarrow> 's s3store \<Rightarrow> string \<Rightarrow> ('s, stream) io" where
  "s3Get E st key =
     io_bind (io_check (x_ctx E)) (\<lambda>_.
     io_bind
       (io_wrap (\<lambda>e. s3wrap st ''get'' key
            (if s3status st e = 404 \<or> s3code st e = ''NoSuchKey'' then Wrap [] [Sentinel ErrNotFound, e] else e))
          (cl_get (s3_client st) (s3_bucket st) key)) (\<lambda>out. case out of
       None \<Rightarrow> io_fail (s3wrap st ''get'' key (Sentinel ErrCorrupt))
     | Some body \<Rightarrow> responseBody E st key body))"

subsection \<open>Waiting after a conflict\<close>

text \<open>Nanoseconds: 10 ms doubled for each attempt up to the sixth, times \<open>(128 + jitter) / 256\<close>.\<close>

definition conflictDelay :: "nat \<Rightarrow> nat \<Rightarrow> int" where
  "conflictDelay attempt jitter =
     i64 (i64 (10000000 * 2 ^ min attempt 6) * (128 + int jitter)) div 256"

definition waitConflict :: "'s s3env \<Rightarrow> nat \<Rightarrow> ('s, unit) io" where
  "waitConflict E attempt =
     io_bind (io_try (x_rand E 1)) (\<lambda>r.
       let jitter = (case r of Inr (c # _) \<Rightarrow> of_char c | _ \<Rightarrow> 0) in
       io_check (x_sleep E (conflictDelay attempt jitter)))"

subsection \<open>Multipart uploads (multipart.go)\<close>

definition minPartSize :: int where "minPartSize = 5 * 2 ^ 20"
definition maxPartSize :: int where "maxPartSize = 5 * 2 ^ 30"
definition maxParts :: int where "maxParts = 10000"
definition uploadConcurrency :: nat where "uploadConcurrency = 4"

definition partSize :: "'s s3store \<Rightarrow> int \<Rightarrow> goerr + int" where
  "partSize st sz =
     (if sz > maxParts * maxPartSize then Inl (Msg (''object exceeds S3'' @ [CHR 0x27] @ ''s multipart capacity''))
      else Inr (max (max minPartSize (s3_partSize st)) ((sz + maxParts - 1) div maxParts)))"

text \<open>A section reader: the bytes of a section of the value.\<close>

definition sectionOf :: "bytes \<Rightarrow> int \<Rightarrow> int \<Rightarrow> bytes" where
  "sectionOf v off len = take (nat len) (drop (nat off) v)"

definition partCount :: "int \<Rightarrow> int \<Rightarrow> nat" where
  "partCount sz ps = nat ((sz + ps - 1) div ps)"

definition partBytes :: "bytes \<Rightarrow> int \<Rightarrow> int \<Rightarrow> nat \<Rightarrow> bytes" where
  "partBytes v sz ps i = (let offset = int i * ps in sectionOf v offset (min ps (sz - offset)))"

text \<open>
  The goroutines: \<open>ws\<close> holds the index each worker still running turns to next, and the scheduler
  picks the worker that goes on. A worker ends when its index is past the last part, when the
  context it shares with the others is done, or when its upload fails, which cancels that context
  with the cause. One step is a whole turn of a worker's loop: a call that is in flight when another
  worker fails stands before or after that failure. \<open>pc\<close> holds the slice of parts, with
  \<^const>\<open>None\<close> for a part not set yet, and the cause.
\<close>

definition uploadOne ::
    "'s s3env \<Rightarrow> 's s3store \<Rightarrow> string \<Rightarrow> string \<Rightarrow> bytes \<Rightarrow> int \<Rightarrow> int \<Rightarrow> nat \<Rightarrow> 's \<Rightarrow> (goerr + completedPart) \<times> 's" where
  "uploadOne E st key uid v sz psize i =
     io_wrap (s3wrap st (''upload part '' @ decStr (i + 1)) key)
       (io_bind (cl_part (s3_client st) (s3_bucket st) key uid (int (i + 1)) (partBytes v sz psize i)) (\<lambda>out.
          case out of
            None \<Rightarrow> io_fail (Sentinel ErrCorrupt)
          | Some po \<Rightarrow>
              if po_ETag po = None \<or> po_ETag po = Some [] then io_fail (Sentinel ErrCorrupt)
              else io_ret \<lparr>cp_Number = int (i + 1), cp_ETag = po_ETag po, cp_CRC32 = po_CRC32 po\<rparr>))"

lemma dropWorker_less:
  "ws \<noteq> [] \<Longrightarrow>
     sum_list (map (\<lambda>i. Suc (n + 4 - i)) (dropNth (t mod length ws) ws)) < sum_list (map (\<lambda>i. Suc (n + 4 - i)) ws)"
  by (rule sum_dropNth_less) simp_all

lemma nextWorker_less:
  "ws \<noteq> [] \<Longrightarrow> ws ! (t mod length ws) < n \<Longrightarrow>
     sum_list (map (\<lambda>i. Suc (n + 4 - i)) (ws[t mod length ws := ws ! (t mod length ws) + uploadConcurrency])) <
     sum_list (map (\<lambda>i. Suc (n + 4 - i)) ws)"
  by (rule sum_update_less) (simp_all add: uploadConcurrency_def)

function runWorkers ::
    "(nat \<Rightarrow> 's \<Rightarrow> (goerr + completedPart) \<times> 's) \<Rightarrow> ('s \<Rightarrow> goerr option \<times> 's) \<Rightarrow> (nat \<Rightarrow> nat) \<Rightarrow> nat \<Rightarrow> nat \<Rightarrow>
       nat list \<Rightarrow> completedPart option list \<times> goerr option \<Rightarrow> 's \<Rightarrow>
       (completedPart option list \<times> goerr option) \<times> 's" where
  "runWorkers up ctx sched n t ws pc s =
     (if ws = [] then (pc, s)
      else
        let j = sched t mod length ws; i = ws ! j in
        if n \<le> i \<or> snd pc \<noteq> None then runWorkers up ctx sched n (Suc t) (dropNth j ws) pc s
        else
          (case ctx s of
             (Some e, s1) \<Rightarrow> runWorkers up ctx sched n (Suc t) (dropNth j ws) (fst pc, Some e) s1
           | (None, s1) \<Rightarrow>
               (case up i s1 of
                  (Inl e, s2) \<Rightarrow> runWorkers up ctx sched n (Suc t) (dropNth j ws) (fst pc, Some e) s2
                | (Inr p, s2) \<Rightarrow>
                    runWorkers up ctx sched n (Suc t) (ws[j := i + uploadConcurrency]) ((fst pc)[i := Some p], None) s2)))"
  by pat_completeness auto

termination
  by (relation "measure (\<lambda>(up, ctx, sched, n, t, ws, pc, s). sum_list (map (\<lambda>i. Suc (n + 4 - i)) ws))")
     (use dropWorker_less nextWorker_less in \<open>force simp: not_le\<close>)+

declare runWorkers.simps [simp del]

text \<open>After the workers are done, the cause of the shared context decides.\<close>

definition uploadParts ::
    "'s s3env \<Rightarrow> 's s3store \<Rightarrow> string \<Rightarrow> string \<Rightarrow> bytes \<Rightarrow> int \<Rightarrow> int \<Rightarrow> ('s, completedPart option list) io" where
  "uploadParts E st key uid v sz psize s =
     (let n = partCount sz psize in
      case runWorkers (uploadOne E st key uid v sz psize) (x_ctx E) (x_sched E) n 0
             [0..<min uploadConcurrency n] (replicate n None, None) s of
        ((parts, cause), s1) \<Rightarrow>
          (case cause of
             Some e \<Rightarrow> (Inl e, s1)
           | None \<Rightarrow> (case x_ctx E s1 of (Some e, s2) \<Rightarrow> (Inl e, s2) | (None, s2) \<Rightarrow> (Inr parts, s2))))"

text \<open>The named results \<open>retry\<close> and \<open>err\<close> of an attempt before its deferred abort.\<close>

definition completeParts ::
    "'s s3store \<Rightarrow> string \<Rightarrow> string \<Rightarrow> completedPart option list \<Rightarrow> 's \<Rightarrow> (bool \<times> goerr option) \<times> 's" where
  "completeParts st key uid parts s =
     (case cl_complete (s3_client st) (s3_bucket st) key uid parts s of
        (None, s1) \<Rightarrow> ((False, None), s1)
      | (Some e, s1) \<Rightarrow>
          if precondition_failed st e
          then ((False, Some (s3wrap st ''complete multipart'' key (Wrap [] [Sentinel ErrExists, e]))), s1)
          else ((conflict st e, Some (s3wrap st ''complete multipart'' key e)), s1))"

definition abortUpload ::
    "'s s3store \<Rightarrow> string \<Rightarrow> string \<Rightarrow> bool \<times> goerr option \<Rightarrow> 's \<Rightarrow> (bool \<times> goerr option) \<times> 's" where
  "abortUpload st key uid r s =
     (case snd r of
        None \<Rightarrow> (r, s)
      | Some e \<Rightarrow>
          (case cl_abort (s3_client st) (s3_bucket st) key uid s of
             (None, s1) \<Rightarrow> (r, s1)
           | (Some a, s1) \<Rightarrow>
               if s3code st a \<noteq> ''NoSuchUpload''
               then ((False, errors_join [Some e, Some (s3wrap st ''abort multipart'' key a)]), s1)
               else (r, s1)))"

definition multipartAttempt ::
    "'s s3env \<Rightarrow> 's s3store \<Rightarrow> string \<Rightarrow> bytes \<Rightarrow> int \<Rightarrow> int \<Rightarrow> string \<Rightarrow> 's \<Rightarrow> (bool \<times> goerr option) \<times> 's" where
  "multipartAttempt E st key v sz psize contentType s =
     (case cl_initiate (s3_client st) (s3_bucket st) key contentType s of
        (Inl e, s1) \<Rightarrow> ((False, Some (s3wrap st ''initiate multipart'' key e)), s1)
      | (Inr out, s1) \<Rightarrow>
          (case out of
             None \<Rightarrow> ((False, Some (s3wrap st ''initiate multipart'' key (Sentinel ErrCorrupt))), s1)
           | Some uid \<Rightarrow>
               if uid = [] then ((False, Some (s3wrap st ''initiate multipart'' key (Sentinel ErrCorrupt))), s1)
               else
                 (case (case uploadParts E st key uid v sz psize s1 of
                          (Inl e, s2) \<Rightarrow> ((False, Some e), s2)
                        | (Inr parts, s2) \<Rightarrow> completeParts st key uid parts s2) of
                    (r, s3) \<Rightarrow> abortUpload st key uid r s3)))"

function multipartLoop ::
    "'s s3env \<Rightarrow> 's s3store \<Rightarrow> string \<Rightarrow> bytes \<Rightarrow> int \<Rightarrow> int \<Rightarrow> string \<Rightarrow> nat \<Rightarrow> ('s, unit) io" where
  "multipartLoop E st key v sz psize contentType attempt =
     io_bind (io_check (x_ctx E)) (\<lambda>_.
     io_bind (\<lambda>s. case multipartAttempt E st key v sz psize contentType s of (r, s1) \<Rightarrow> (Inr r, s1)) (\<lambda>r.
       if \<not> fst r \<or> s3_retries st \<le> int attempt
       then (case snd r of None \<Rightarrow> io_ret () | Some e \<Rightarrow> io_fail e)
       else
         io_bind (waitConflict E attempt) (\<lambda>_.
         multipartLoop E st key v sz psize contentType (Suc attempt))))"
  by pat_completeness auto
termination
  by (relation "measure (\<lambda>(E, st, key, v, sz, psize, contentType, attempt). nat (s3_retries st - int attempt))")
     auto

declare multipartLoop.simps [simp del]

definition createMultipart ::
    "'s s3env \<Rightarrow> 's s3store \<Rightarrow> string \<Rightarrow> bytes \<Rightarrow> int \<Rightarrow> string \<Rightarrow> ('s, unit) io" where
  "createMultipart E st key v sz contentType =
     (case partSize st sz of
        Inl e \<Rightarrow> io_fail (s3wrap st ''multipart'' key e)
      | Inr psize \<Rightarrow> multipartLoop E st key v sz psize contentType 0)"

subsection \<open>Create\<close>

function putLoop :: "'s s3env \<Rightarrow> 's s3store \<Rightarrow> string \<Rightarrow> bytes \<Rightarrow> string \<Rightarrow> nat \<Rightarrow> ('s, unit) io" where
  "putLoop E st key body contentType attempt =
     io_bind (io_check (x_ctx E)) (\<lambda>_.
     io_bind (io_try (io_check (cl_put (s3_client st) (s3_bucket st) key body contentType))) (\<lambda>r.
       case r of
         Inr _ \<Rightarrow> io_ret ()
       | Inl e \<Rightarrow>
           if precondition_failed st e then io_fail (s3wrap st ''put'' key (Wrap [] [Sentinel ErrExists, e]))
           else if \<not> conflict st e \<or> s3_retries st \<le> int attempt then io_fail (s3wrap st ''put'' key e)
           else
             io_bind (waitConflict E attempt) (\<lambda>_.
             putLoop E st key body contentType (Suc attempt))))"
  by pat_completeness auto
termination
  by (relation "measure (\<lambda>(E, st, key, body, contentType, attempt). nat (s3_retries st - int attempt))") auto

declare putLoop.simps [simp del]

definition contentTypeOf :: "string \<Rightarrow> string" where
  "contentTypeOf key = (if hasSuffix key ''.zst'' then ''application/zstd'' else ''application/json'')"

definition s3Create :: "'s s3env \<Rightarrow> 's s3store \<Rightarrow> string \<Rightarrow> source option \<Rightarrow> ('s, unit) io" where
  "s3Create E st key value =
     io_bind (io_check (x_ctx E)) (\<lambda>_. case value of
       None \<Rightarrow> io_fail (Msg ''s3store: invalid value size'')
     | Some v \<Rightarrow>
         io_bind (io_lift (fail_if (src_size v < 0) (Msg ''s3store: invalid value size''))) (\<lambda>_.
         let sz = src_size v; ct = contentTypeOf key in
         if sz > s3_threshold st then createMultipart E st key (src_data v) sz ct
         else putLoop E st key (sectionOf (src_data v) 0 sz) ct 0))"

subsection \<open>The store as a world\<close>

definition s3_world :: "'s s3env \<Rightarrow> 's s3store \<Rightarrow> 's world" where
  "s3_world E st =
     \<lparr>w_ctx = x_ctx E, w_list = s3List E st, w_get = s3Get E st,
      w_create = (\<lambda>k v. errPart (s3Create E st k (Some (bytes_source v)))),
      w_rand = x_rand E, w_tmp = x_tmp E, w_windows = False\<rparr>"

end
