(* ===== verification/S3Facts.thy ===== *)
theory S3Facts
  imports S3Store
begin

section \<open>What the S3 store promises\<close>

text \<open>
  First the facts that hold whatever the service answers: a listing is in order and within its
  limit, the parts of an upload make up the value and stay within the limits of S3, and the wait
  after a conflict is bounded. Then the contract of the service, as a locale, and under it the
  Store contract for every order in which the upload workers run.
\<close>

subsection \<open>Listings\<close>

lemma pageKeys_sorted:
  "pageKeys p objs acc = Some acc' \<Longrightarrow> sorted_wrt (<) acc \<Longrightarrow> (\<forall>k\<in>set acc. hasPrefix k p) \<Longrightarrow>
     sorted_wrt (<) acc' \<and> (\<forall>k\<in>set acc'. hasPrefix k p)"
proof (induction p objs acc rule: pageKeys.induct)
  case (2 p obj objs acc)
  obtain k where o: "obj = Some k" using "2.prems"(1) by (cases obj) simp_all
  have c: "\<not> (\<not> hasPrefix k p \<or> acc \<noteq> [] \<and> k \<le> last acc)" and r: "pageKeys p objs (acc @ [k]) = Some acc'"
    using "2.prems"(1) by (simp_all add: o split: if_splits)
  have k: "obj = Some k" "hasPrefix k p" "acc = [] \<or> last acc < k"
    using o c by (simp_all add: not_le)
  have "\<forall>x\<in>set acc. x < k"
  proof (cases acc rule: rev_cases)
    case (snoc ys y)
    then have "\<forall>x\<in>set ys. x < y" and "y < k" using "2.prems"(2) k(3) by (simp_all add: sorted_wrt_append)
    then have "\<forall>x\<in>set ys. x < k" by (blast intro: less_trans)
    with \<open>y < k\<close> show ?thesis by (simp add: snoc)
  qed simp
  then have "sorted_wrt (<) (acc @ [k])" using "2.prems"(2) by (simp add: sorted_wrt_append)
  then show ?case using "2.IH" [OF k(1) c r] k(2) "2.prems"(3) by simp
qed simp

lemma pageKeys_eq: "pageKeys p objs acc = Some acc' \<Longrightarrow> acc' = acc @ map the objs \<and> None \<notin> set objs"
  by (induction p objs acc rule: pageKeys.induct) (auto split: option.splits if_splits)

text \<open>One turn of the paging loop that did not fail.\<close>

lemma s3Pages_Inr:
  assumes "s3Pages E st p limit acc token s = (Inr ks, s')" and "int (length acc) < limit"
  obtains s1 pg s2 acc' where "x_ctx E s = (None, s1)"
    and "cl_list (s3_client st) (s3_bucket st) p (min (limit - int (length acc)) 1000) token s1 = (Inr (Some pg), s2)"
    and "int (length (pg_Contents pg)) \<le> min (limit - int (length acc)) 1000"
    and "pageKeys p (pg_Contents pg) acc = Some acc'"
    and "pg_IsTruncated pg \<noteq> Some True \<or> int (length acc') = limit" and "ks = acc'" and "s' = s2"
  | s1 pg s2 acc' where "x_ctx E s = (None, s1)"
    and "cl_list (s3_client st) (s3_bucket st) p (min (limit - int (length acc)) 1000) token s1 = (Inr (Some pg), s2)"
    and "int (length (pg_Contents pg)) \<le> min (limit - int (length acc)) 1000"
    and "pageKeys p (pg_Contents pg) acc = Some acc'"
    and "pg_IsTruncated pg = Some True" and "int (length acc') \<noteq> limit"
    and "pg_Contents pg \<noteq> []" and "pg_Next pg \<noteq> None"
    and "s3Pages E st p limit acc' (pg_Next pg) s2 = (Inr ks, s')"
proof -
  let ?n = "min (limit - int (length acc)) 1000"
  note eval = assms(1) [unfolded s3Pages.simps [of E st p limit acc token] io_bind_def io_check_def io_wrap_def Let_def]
  obtain ce s1 where c: "x_ctx E s = (ce, s1)" by (cases "x_ctx E s")
  obtain r s2 where l: "cl_list (s3_client st) (s3_bucket st) p ?n token s1 = (r, s2)"
    by (cases "cl_list (s3_client st) (s3_bucket st) p ?n token s1")
  have ce: "ce = None" using eval assms(2) c by (cases ce) auto
  obtain out where r: "r = Inr out" using eval assms(2) c ce l by (cases r) auto
  obtain pg where out: "out = Some pg" using eval assms(2) c ce l r by (cases out) auto
  have n: "int (length (pg_Contents pg)) \<le> ?n"
    using eval assms(2) c ce l r out by (auto split: if_splits)
  obtain acc' where pk: "pageKeys p (pg_Contents pg) acc = Some acc'"
    using eval assms(2) c ce l r out n by (cases "pageKeys p (pg_Contents pg) acc") auto
  show ?thesis
  proof (cases "pg_IsTruncated pg \<noteq> Some True \<or> int (length acc') = limit")
    case True
    then have "ks = acc'" "s' = s2" using eval assms(2) c ce l r out n pk by auto
    then show ?thesis using that(1) c ce l r out n pk True by blast
  next
    case False
    then have nx: "\<not> (pg_Contents pg = [] \<or> pg_Next pg = None \<or> pg_Next pg = Some [] \<or>
                             token \<noteq> None \<and> token = pg_Next pg)"
      and rec: "s3Pages E st p limit acc' (pg_Next pg) s2 = (Inr ks, s')"
      using eval assms(2) c ce l r out n pk by (auto split: if_splits)
    show ?thesis
      by (rule that(2) [of s1 pg s2 acc']) (use c ce l r out n pk False nx rec in auto)
  qed
qed

lemma s3Pages_listing:
  "s3Pages E st p limit acc token s = (Inr ks, s') \<Longrightarrow> sorted_wrt (<) acc \<Longrightarrow> (\<forall>k\<in>set acc. hasPrefix k p) \<Longrightarrow>
     int (length acc) \<le> limit \<Longrightarrow> sorted_wrt (<) ks \<and> (\<forall>k\<in>set ks. hasPrefix k p) \<and> int (length ks) \<le> limit"
proof (induction "nat (limit - int (length acc))" arbitrary: acc token s rule: less_induct)
  case less
  show ?case
  proof (cases "int (length acc) < limit")
    case False
    then show ?thesis using less.prems by (simp add: s3Pages.simps [of E st p limit acc token])
  next
    case True
    show ?thesis
    proof (rule s3Pages_Inr [OF less.prems(1) True])
      fix pg acc'
      assume "int (length (pg_Contents pg)) \<le> min (limit - int (length acc)) 1000"
        and pk: "pageKeys p (pg_Contents pg) acc = Some acc'" and "ks = acc'"
      then show ?thesis using pageKeys_sorted [OF pk less.prems(2,3)] pageKeys_length [OF pk] by simp
    next
      fix pg s2 acc'
      assume n: "int (length (pg_Contents pg)) \<le> min (limit - int (length acc)) 1000" "pg_Contents pg \<noteq> []"
        and pk: "pageKeys p (pg_Contents pg) acc = Some acc'"
        and rec: "s3Pages E st p limit acc' (pg_Next pg) s2 = (Inr ks, s')"
      have "nat (limit - int (length acc')) < nat (limit - int (length acc))" "int (length acc') \<le> limit"
        using n True pageKeys_length [OF pk] by (cases "pg_Contents pg"; simp)+
      then show ?thesis using less.hyps [OF _ rec] pageKeys_sorted [OF pk less.prems(2,3)] by blast
    qed
  qed
qed

lemma s3List_listing:
  assumes "s3List E st p limit s = (Inr ks, s')"
  shows "sorted_wrt (<) ks \<and> (\<forall>k\<in>set ks. hasPrefix k p) \<and> int (length ks) \<le> limit"
proof -
  have "0 < limit" and r: "s3Pages E st p limit [] None s = (Inr ks, s')"
    using assms by (auto simp: s3List_def io_bind_eq_Inr_iff)
  then show ?thesis using s3Pages_listing [OF r] by simp
qed

subsection \<open>Parts\<close>

lemma partBytes_concat:
  assumes "0 < ps" and "length v = nat sz"
  shows "concat (map (partBytes v sz ps) [0..<n]) = take (n * nat ps) v"
proof (induction n)
  case (Suc n)
  have "partBytes v sz ps n = take (nat ps) (drop (n * nat ps) v)"
  proof -
    have o: "nat (int n * ps) = n * nat ps" using assms(1) by (simp add: nat_mult_distrib)
    show ?thesis
    proof (cases "ps \<le> sz - int n * ps")
      case True
      then show ?thesis by (simp add: partBytes_def sectionOf_def Let_def o min_def)
    next
      case False
      have "length (drop (n * nat ps) v) = nat (sz - int n * ps)"
      proof -
        have "0 \<le> int n * ps" using assms(1) by simp
        then have "nat sz - nat (int n * ps) = nat (sz - int n * ps)" by arith
        then show ?thesis using assms(2) by (simp add: o)
      qed
      then have "take (nat (sz - int n * ps)) (drop (n * nat ps) v) = drop (n * nat ps) v" by simp
      moreover have "take (nat ps) (drop (n * nat ps) v) = drop (n * nat ps) v"
        using False \<open>length (drop (n * nat ps) v) = nat (sz - int n * ps)\<close> by simp
      ultimately show ?thesis using False by (simp add: partBytes_def sectionOf_def Let_def o min_def)
    qed
  qed
  moreover have "take (Suc n * nat ps) v = take (n * nat ps) v @ take (nat ps) (drop (n * nat ps) v)"
    by (simp only: mult_Suc add.commute [of "nat ps"] take_add)
  ultimately show ?case using Suc by simp
qed simp

lemma parts_value:
  assumes "0 < ps" and "0 \<le> sz" and "length v = nat sz"
  shows "concat (map (partBytes v sz ps) [0..<partCount sz ps]) = v"
proof -
  have "sz \<le> (sz + ps - 1) div ps * ps"
  proof -
    have "(sz + ps - 1) mod ps < ps" using assms(1) by simp
    moreover have "(sz + ps - 1) div ps * ps + (sz + ps - 1) mod ps = sz + ps - 1" by simp
    ultimately show ?thesis by linarith
  qed
  moreover have "0 \<le> (sz + ps - 1) div ps" using assms by (simp add: pos_imp_zdiv_nonneg_iff)
  ultimately have "int (length v) \<le> int (partCount sz ps * nat ps)"
    using assms by (simp add: partCount_def)
  then have "length v \<le> partCount sz ps * nat ps" by linarith
  then show ?thesis unfolding partBytes_concat [OF assms(1,3)] by simp
qed

lemma parts_full:
  assumes "0 < ps" and "length v = nat sz" and "Suc i < partCount sz ps"
  shows "length (partBytes v sz ps i) = nat ps"
proof -
  have "int (Suc i) \<le> (sz + ps - 1) div ps - 1" using assms(3) by (simp add: partCount_def)
  then have "(int (Suc i) + 1) * ps \<le> (sz + ps - 1) div ps * ps" using assms(1) by (intro mult_right_mono) auto
  also have "\<dots> \<le> sz + ps - 1"
    using div_mult_mod_eq [of "sz + ps - 1" ps] pos_mod_sign [OF assms(1), of "sz + ps - 1"] by linarith
  finally have "int i * ps + ps < sz" using assms(1) by (simp add: algebra_simps)
  moreover have "nat (int i * ps) + nat ps = nat (int i * ps + ps)" "0 \<le> int i * ps"
    using assms(1) by (simp_all add: nat_add_distrib)
  ultimately show ?thesis
    using assms(1,2) by (simp add: partBytes_def sectionOf_def Let_def min_def)
qed

lemma s3New_Inr:
  assumes "s3New ipv6 cfg = Inr st"
  shows "sc_Client cfg = Some (Some (s3_client st))" and "validateBucket ipv6 (s3_bucket st) = Inr ()"
    and "1 \<le> s3_retries st" and "s3_partSize st = 64 * 2 ^ 20" and "s3_threshold st = 128 * 2 ^ 20"
  using assms by (auto simp: s3New_def ebind_eq_Inr_iff split: option.splits)

lemma validateBucket_Inr:
  assumes "validateBucket ipv6 b = Inr ()"
  shows "3 \<le> length b" and "length b \<le> 63" and "\<forall>c\<in>set b. bucketChar c" and "\<not> parseAddr ipv6 b"
  using assms by (auto simp: validateBucket_def ebind_eq_Inr_iff list_all_iff)

text \<open>The limits of S3: part count, part sizes, and only the last part smaller than the minimum.\<close>

lemma partSize_limits:
  assumes "partSize st sz = Inr ps" and "s3_partSize st \<le> maxPartSize" and "0 < sz"
  shows "minPartSize \<le> ps \<and> ps \<le> maxPartSize \<and> 1 \<le> partCount sz ps \<and> int (partCount sz ps) \<le> maxParts"
proof -
  have sz: "sz \<le> maxParts * maxPartSize" and ps: "ps = max (max minPartSize (s3_partSize st)) ((sz + maxParts - 1) div maxParts)"
    using assms(1) by (auto simp: partSize_def split: if_splits)
  let ?q = "(sz + maxParts - 1) div maxParts"
  have "?q \<le> (maxParts * maxPartSize + maxParts - 1) div maxParts" using sz by (simp add: zdiv_mono1 maxParts_def)
  then have q: "?q \<le> maxPartSize" by (simp add: maxParts_def maxPartSize_def)
  have lo: "minPartSize \<le> ps" "?q \<le> ps" and hi: "ps \<le> maxPartSize"
    using ps q assms(2) by (auto simp: minPartSize_def maxPartSize_def)
  have pos: "0 < ps" using lo by (simp add: minPartSize_def)
  have "sz \<le> ?q * maxParts"
  proof -
    have "(sz + maxParts - 1) mod maxParts < maxParts" by (simp add: maxParts_def)
    moreover have "?q * maxParts + (sz + maxParts - 1) mod maxParts = sz + maxParts - 1" by simp
    ultimately show ?thesis by linarith
  qed
  also have "\<dots> \<le> ps * maxParts" using lo by (simp add: maxParts_def)
  finally have "sz + ps - 1 < (maxParts + 1) * ps" using pos by (simp add: algebra_simps)
  moreover have "(sz + ps - 1) div ps * ps \<le> sz + ps - 1"
    using pos pos_mod_sign [OF pos, of "sz + ps - 1"] div_mult_mod_eq [of "sz + ps - 1" ps] by linarith
  ultimately have "(sz + ps - 1) div ps * ps < (maxParts + 1) * ps" by linarith
  then have "(sz + ps - 1) div ps < maxParts + 1" using pos by (simp only: mult_less_cancel_right)
  moreover have "1 \<le> (sz + ps - 1) div ps" using assms(3) pos by (simp add: pos_imp_zdiv_pos_iff int_one_le_iff_zero_less)
  ultimately show ?thesis using lo hi by (simp add: partCount_def)
qed

text \<open>The wait after a conflict: at least 5 ms, less than a second, without overflow.\<close>

lemma conflictDelay_bounds:
  assumes "jitter < 256"
  shows "5000000 \<le> conflictDelay attempt jitter \<and> conflictDelay attempt jitter < 1000000000"
proof -
  let ?m = "min attempt 6"
  have m: "(1::int) \<le> 2 ^ ?m" "(2::int) ^ ?m \<le> 2 ^ 6"
    by (simp, intro power_increasing) simp_all
  then have "0 \<le> (10000000::int) * 2 ^ ?m" "(10000000::int) * 2 ^ ?m \<le> 640000000" by simp_all
  then have "i64 (10000000 * 2 ^ ?m) = 10000000 * 2 ^ ?m"
    by (intro i64_id in_i64I) (assumption, rule order_trans, assumption, simp)
  moreover have lo: "10000000 * 128 \<le> 10000000 * 2 ^ ?m * (128 + int jitter)"
  proof -
    have "(10000000::int) * 128 \<le> (10000000 * 2 ^ ?m) * (128 + int jitter)"
      using m by (intro mult_mono) auto
    then show ?thesis by simp
  qed
  moreover have hi: "10000000 * 2 ^ ?m * (128 + int jitter) \<le> 10000000 * 64 * 383"
    using m assms by (intro mult_mono) auto
  moreover have "i64 (10000000 * 2 ^ ?m * (128 + int jitter)) = 10000000 * 2 ^ ?m * (128 + int jitter)"
    using lo hi by (intro i64_id) (simp add: in_i64_def)
  ultimately show ?thesis unfolding conflictDelay_def by (simp only:) linarith
qed

subsection \<open>The contract of the service\<close>

text \<open>
  What the code relies on in S3, from its documentation: objects are created only where there is
  none, are read back whole, and are listed in order from the key a continuation token stands for;
  412 means that the object exists, 404 that it does not; a completed upload publishes the
  concatenation of the parts it names. \<open>uploaded\<close> is the history of parts by upload, number and
  entity tag. Errors of the SDK, the context and timers are not those of the store's interface.
\<close>

definition token_before :: "(string \<Rightarrow> string) \<Rightarrow> string option \<Rightarrow> string \<Rightarrow> bool" where
  "token_before tok_key token k \<longleftrightarrow> (case token of None \<Rightarrow> True | Some t \<Rightarrow> tok_key t < k)"

text \<open>Later states: the objects only grow, and what was uploaded stays on record.\<close>

definition serviceLater ::
    "('s \<Rightarrow> string \<rightharpoonup> bytes) \<Rightarrow> ('s \<Rightarrow> bool) \<Rightarrow> ('s \<Rightarrow> string \<Rightarrow> int \<Rightarrow> string \<rightharpoonup> bytes) \<Rightarrow> 's \<Rightarrow> 's \<Rightarrow> bool" where
  "serviceLater objs good uploaded s s' \<longleftrightarrow> grows objs good s s' \<and>
      (\<forall>uid n t b. uploaded s uid n t = Some b \<longrightarrow> uploaded s' uid n t = Some b)"

locale s3_service =
  fixes E :: "'s s3env" and st :: "'s s3store" and objs :: "'s \<Rightarrow> string \<rightharpoonup> bytes" and good :: "'s \<Rightarrow> bool"
    and uploaded :: "'s \<Rightarrow> string \<Rightarrow> int \<Rightarrow> string \<rightharpoonup> bytes" and tok_key :: "string \<Rightarrow> string"
  assumes ctx_R: "x_ctx E s = (ce, s') \<Longrightarrow> serviceLater objs good uploaded s s'"
    and rand_R: "x_rand E m s = (rr, s') \<Longrightarrow> serviceLater objs good uploaded s s'"
    and sleep_R: "x_sleep E d s = (ce, s') \<Longrightarrow> serviceLater objs good uploaded s s'"
    and tmp_R: "x_tmp E q s = (ce, s') \<Longrightarrow> serviceLater objs good uploaded s s'"
    and list_R: "cl_list (s3_client st) bk p n tok s = (lr, s') \<Longrightarrow> serviceLater objs good uploaded s s'"
    and get_R: "cl_get (s3_client st) bk k s = (gr, s') \<Longrightarrow> serviceLater objs good uploaded s s'"
    and put_R: "cl_put (s3_client st) bk k v ct s = (ce, s') \<Longrightarrow> serviceLater objs good uploaded s s'"
    and initiate_R: "cl_initiate (s3_client st) bk k ct s = (ir, s') \<Longrightarrow> serviceLater objs good uploaded s s'"
    and part_R: "cl_part (s3_client st) bk k uid i v s = (pr, s') \<Longrightarrow> serviceLater objs good uploaded s s'"
    and complete_R: "cl_complete (s3_client st) bk k uid ps s = (ce, s') \<Longrightarrow> serviceLater objs good uploaded s s'"
    and abort_R: "cl_abort (s3_client st) bk k uid s = (ce, s') \<Longrightarrow> serviceLater objs good uploaded s s'"
    and alien_ctx: "x_ctx E s = (Some e, s') \<Longrightarrow> a \<in> {ErrNotFound, ErrExists} \<Longrightarrow> \<not> errors_is e a"
    and alien_sleep: "x_sleep E d s = (Some e, s') \<Longrightarrow> a \<in> {ErrNotFound, ErrExists} \<Longrightarrow> \<not> errors_is e a"
    and alien_get: "cl_get (s3_client st) bk k s = (Inl e, s') \<Longrightarrow> a \<in> {ErrNotFound, ErrExists} \<Longrightarrow> \<not> errors_is e a"
    and alien_put: "cl_put (s3_client st) bk k v ct s = (Some e, s') \<Longrightarrow> a \<in> {ErrNotFound, ErrExists} \<Longrightarrow> \<not> errors_is e a"
    and alien_initiate: "cl_initiate (s3_client st) bk k ct s = (Inl e, s') \<Longrightarrow> a \<in> {ErrNotFound, ErrExists} \<Longrightarrow> \<not> errors_is e a"
    and alien_part: "cl_part (s3_client st) bk k uid i v s = (Inl e, s') \<Longrightarrow> a \<in> {ErrNotFound, ErrExists} \<Longrightarrow> \<not> errors_is e a"
    and alien_complete: "cl_complete (s3_client st) bk k uid ps s = (Some e, s') \<Longrightarrow> a \<in> {ErrNotFound, ErrExists} \<Longrightarrow> \<not> errors_is e a"
    and alien_abort: "cl_abort (s3_client st) bk k uid s = (Some e, s') \<Longrightarrow> a \<in> {ErrNotFound, ErrExists} \<Longrightarrow> \<not> errors_is e a"
    and page_present: "cl_list (s3_client st) (s3_bucket st) p n tok s = (Inr (Some pg), s') \<Longrightarrow> good s \<Longrightarrow>
      Some k \<in> set (pg_Contents pg) \<Longrightarrow> objs s' k \<noteq> None"
    and page_complete: "cl_list (s3_client st) (s3_bucket st) p n tok s = (Inr (Some pg), s') \<Longrightarrow> good s \<Longrightarrow>
      objs s k \<noteq> None \<Longrightarrow> hasPrefix k p \<Longrightarrow> token_before tok_key tok k \<Longrightarrow>
      Some k \<in> set (pg_Contents pg) \<or>
        pg_IsTruncated pg = Some True \<and> (\<forall>k'. Some k' \<in> set (pg_Contents pg) \<longrightarrow> k' < k)"
    and page_next: "cl_list (s3_client st) (s3_bucket st) p n tok s = (Inr (Some pg), s') \<Longrightarrow> good s \<Longrightarrow>
      pg_Contents pg \<noteq> [] \<Longrightarrow> pg_Next pg = Some t \<Longrightarrow> last (pg_Contents pg) = Some (tok_key t)"
    and get_body: "cl_get (s3_client st) (s3_bucket st) k s = (Inr (Some b), s') \<Longrightarrow> good s \<Longrightarrow> s_rerr b = None \<Longrightarrow>
      objs s' k = Some (s_bytes b)"
    and get_404: "cl_get (s3_client st) (s3_bucket st) k s = (Inl e, s') \<Longrightarrow> good s \<Longrightarrow>
      s3status st e = 404 \<or> s3code st e = ''NoSuchKey'' \<Longrightarrow> objs s k = None"
    and put_ok: "cl_put (s3_client st) (s3_bucket st) k v ct s = (None, s') \<Longrightarrow> good s \<Longrightarrow>
      objs s k = None \<and> objs s' k = Some v"
    and put_412: "cl_put (s3_client st) (s3_bucket st) k v ct s = (Some e, s') \<Longrightarrow> good s \<Longrightarrow>
      precondition_failed st e \<Longrightarrow> objs s' k \<noteq> None"
    and part_ok: "cl_part (s3_client st) (s3_bucket st) k uid i v s = (Inr (Some po), s') \<Longrightarrow>
      po_ETag po = Some t \<Longrightarrow> uploaded s' uid i t = Some v"
    and complete_ok: "cl_complete (s3_client st) (s3_bucket st) k uid ps s = (None, s') \<Longrightarrow> good s \<Longrightarrow>
      length bs = length ps \<Longrightarrow>
      (\<And>i. i < length ps \<Longrightarrow> \<exists>p t. ps ! i = Some p \<and> cp_Number p = int (i + 1) \<and> cp_ETag p = Some t \<and>
         uploaded s uid (int (i + 1)) t = Some (bs ! i)) \<Longrightarrow>
      objs s k = None \<and> objs s' k = Some (concat bs)"
    and complete_412: "cl_complete (s3_client st) (s3_bucket st) k uid ps s = (Some e, s') \<Longrightarrow> good s \<Longrightarrow>
      precondition_failed st e \<Longrightarrow> objs s' k \<noteq> None"
begin

abbreviation R :: "'s \<Rightarrow> 's \<Rightarrow> bool" where
  "R \<equiv> serviceLater objs good uploaded"

lemma R_refl: "R s s"
  by (simp add: serviceLater_def grows_def)

lemma R_trans: "R s t \<Longrightarrow> R t u \<Longrightarrow> R s u"
  unfolding serviceLater_def grows_def by (blast intro: map_le_trans)

lemma R_good: "R s s' \<Longrightarrow> good s \<Longrightarrow> good s'"
  by (simp add: serviceLater_def grows_def)

lemma R_some: "R s s' \<Longrightarrow> good s \<Longrightarrow> objs s k = Some v \<Longrightarrow> objs s' k = Some v"
  unfolding serviceLater_def grows_def map_le_def by (metis domI)

lemma R_present: "R s s' \<Longrightarrow> good s \<Longrightarrow> objs s k \<noteq> None \<Longrightarrow> objs s' k \<noteq> None"
  using R_some by fastforce

lemma R_absent: "R s s' \<Longrightarrow> good s \<Longrightarrow> objs s' k = None \<Longrightarrow> objs s k = None"
  using R_present by blast

end

text \<open>The operations the code is composed of keep the relation.\<close>

sublocale s3_service \<subseteq> sr: state_preorder "serviceLater objs good uploaded"
  by unfold_locales (rule R_refl, rule R_trans)

context s3_service
begin

lemma rel_ctx: "io_rel R (io_check (x_ctx E))"
  by (intro sr.rel_check ctx_R)

lemma rel_client: "io_rel R (cl_list (s3_client st) bk p n tok)" "io_rel R (cl_get (s3_client st) bk k)"
  "io_rel R (cl_initiate (s3_client st) bk k ct)" "io_rel R (cl_part (s3_client st) bk k uid i v)"
  "io_rel R (io_check (cl_put (s3_client st) bk k v ct))"
  by (intro io_relI list_R get_R initiate_R part_R sr.rel_check put_R; assumption)+

lemma rel_wait: "io_rel R (waitConflict E attempt)"
  unfolding waitConflict_def Let_def
  by (intro sr.rel_bind sr.rel_try sr.rel_check) (auto intro: io_relI rand_R sleep_R)

lemma rel_poll: "io_rel R (io_poll (x_ctx E))"
  by (rule io_relI) (metis io_poll_eq_iff ctx_R)

lemma s3Get_R: "io_rel R (s3Get E st key)"
  unfolding s3Get_def responseBody_def Let_def
  by (intro sr.rel_bind sr.rel_wrap rel_ctx rel_client sr.rel_option sr.rel_ret sr.rel_fail rel_poll)

lemma s3Pages_R: "io_rel R (s3Pages E st p limit acc token)"
proof (induction "nat (limit - int (length acc))" arbitrary: acc token rule: less_induct)
  case less
  have rec: "io_rel R (s3Pages E st p limit acc' tok)"
    if "pageKeys p objs0 acc = Some acc'" "objs0 \<noteq> []" "int (length acc) < limit" for objs0 acc' tok
  proof (rule less)
    show "nat (limit - int (length acc')) < nat (limit - int (length acc))"
      using pageKeys_length [OF that(1)] that(2,3) by (cases objs0) simp_all
  qed
  show ?case
    unfolding s3Pages.simps [of E st p limit acc token] Let_def
    by (rule sr.rel_if [OF _ sr.rel_ret], rule sr.rel_bind [OF rel_ctx], rule sr.rel_bind [OF sr.rel_wrap [OF rel_client(1)]],
        rule sr.rel_option [OF sr.rel_fail], rule sr.rel_if [OF sr.rel_fail], rule sr.rel_option [OF sr.rel_fail],
        rule sr.rel_if [OF sr.rel_ret], rule sr.rel_if [OF sr.rel_fail], rule rec) auto
qed

lemma s3List_R: "io_rel R (s3List E st p limit)"
  unfolding s3List_def by (intro sr.rel_bind sr.rel_lift s3Pages_R)

lemma putLoop_R: "io_rel R (putLoop E st key body ct attempt)"
proof (induction "nat (s3_retries st - int attempt)" arbitrary: attempt rule: less_induct)
  case less
  have rec: "io_rel R (putLoop E st key body ct (Suc attempt))" if "\<not> (c \<or> s3_retries st \<le> int attempt)" for c
    by (rule less) (use that in simp)
  show ?case
    unfolding putLoop.simps [of E st key body ct attempt]
    by (rule sr.rel_bind [OF rel_ctx], rule sr.rel_bind [OF sr.rel_try [OF rel_client(5)]],
        rule sr.rel_sum [OF _ sr.rel_ret], rule sr.rel_if [OF sr.rel_fail], rule sr.rel_if [OF sr.rel_fail],
        rule sr.rel_bind [OF rel_wait], rule rec)
qed

text \<open>The workers, whatever the schedule.\<close>

lemma uploadOne_R: "io_rel R (uploadOne E st key uid v sz psize i)"
  unfolding uploadOne_def
  by (intro sr.rel_wrap sr.rel_bind rel_client sr.rel_option sr.rel_fail sr.rel_if sr.rel_ret)

definition pending :: "nat \<Rightarrow> completedPart option list \<Rightarrow> nat list \<Rightarrow> (nat \<Rightarrow> completedPart \<Rightarrow> bool) \<Rightarrow> bool" where
  "pending n parts ws D \<longleftrightarrow> length parts = n \<and>
     (\<forall>i<n. (\<exists>p. parts ! i = Some p \<and> D i p) \<or> (\<exists>w\<in>set ws. w \<le> i \<and> (i - w) mod uploadConcurrency = 0))"

lemma pending_mono: "pending n parts ws D \<Longrightarrow> (\<And>i p. D i p \<Longrightarrow> D' i p) \<Longrightarrow> pending n parts ws D'"
  unfolding pending_def by blast

lemma pendingD:
  assumes "pending n parts ws D" and "i < n"
  obtains p where "parts ! i = Some p" and "D i p"
  | w where "w \<in> set ws" and "w \<le> i" and "(i - w) mod uploadConcurrency = 0"
  using assms by (auto simp: pending_def)

lemma pending_drop:
  assumes "pending n parts ws D" and "j < length ws" and "n \<le> ws ! j"
  shows "pending n parts (dropNth j ws) D"
  unfolding pending_def
proof (intro conjI allI impI)
  fix i assume i: "i < n"
  show "(\<exists>p. parts ! i = Some p \<and> D i p) \<or>
      (\<exists>w\<in>set (dropNth j ws). w \<le> i \<and> (i - w) mod uploadConcurrency = 0)"
  proof (rule pendingD [OF assms(1) i])
    fix w assume w: "w \<in> set ws" "w \<le> i" "(i - w) mod uploadConcurrency = 0"
    then have "w \<noteq> ws ! j" using assms(3) i by auto
    then have "w \<in> set (dropNth j ws)" using set_dropNth [OF assms(2) w(1)] by simp
    with w show ?thesis by auto
  qed simp
qed (use assms in \<open>simp add: pending_def\<close>)

lemma pending_next:
  assumes "pending n parts ws D" and "j < length ws" and "ws ! j < n" and "D (ws ! j) p"
  shows "pending n (parts[ws ! j := Some p]) (ws[j := ws ! j + uploadConcurrency]) D"
  unfolding pending_def
proof (intro conjI allI impI)
  let ?i = "ws ! j" let ?ws = "ws[j := ?i + uploadConcurrency]"
  have len: "length parts = n" using assms(1) by (simp add: pending_def)
  then show "length (parts[?i := Some p]) = n" by simp
  fix k assume k: "k < n"
  show "(\<exists>q. parts[?i := Some p] ! k = Some q \<and> D k q) \<or>
      (\<exists>w\<in>set ?ws. w \<le> k \<and> (k - w) mod uploadConcurrency = 0)"
  proof (cases "k = ?i")
    case True
    then show ?thesis using assms(3,4) len by simp
  next
    case False
    have new: "?i + uploadConcurrency \<in> set ?ws" using assms(2) by (rule set_update_memI)
    have keep: "w \<in> set ?ws" if "w \<in> set ws" "w \<noteq> ?i" for w
      using that assms(2) by (metis in_set_conv_nth length_list_update nth_list_update_neq)
    show ?thesis
    proof (rule pendingD [OF assms(1) k])
      fix q assume "parts ! k = Some q" "D k q"
      then show ?thesis using False by simp
    next
      fix w assume w: "w \<in> set ws" "w \<le> k" "(k - w) mod uploadConcurrency = 0"
      show ?thesis
      proof (cases "w = ?i")
        case True
        then have "0 < k - ?i" "(k - ?i) mod 4 = 0" using w False by (simp_all add: uploadConcurrency_def)
        then have "?i + 4 \<le> k" "(k - (?i + 4)) mod 4 = 0" by presburger+
        then have "?i + uploadConcurrency \<le> k \<and> (k - (?i + uploadConcurrency)) mod uploadConcurrency = 0"
          by (simp add: uploadConcurrency_def)
        then show ?thesis using new by (intro disjI2 bexI)
      next
        case False
        from keep [OF w(1) False] show ?thesis using w(2,3) by (intro disjI2 bexI) simp_all
      qed
    qed
  qed
qed

lemma runWorkers_ok:
  assumes up_R: "\<And>i s r s'. up i s = (r, s') \<Longrightarrow> R s s'"
    and up_D: "\<And>i s p s'. up i s = (Inr p, s') \<Longrightarrow> D s' i p"
    and D_mono: "\<And>s s' i p. R s s' \<Longrightarrow> D s i p \<Longrightarrow> D s' i p"
    and up_P: "\<And>i s e s'. up i s = (Inl e, s') \<Longrightarrow> P e"
    and ctx_P: "\<And>s e s'. x_ctx E s = (Some e, s') \<Longrightarrow> P e"
  shows "runWorkers up (x_ctx E) sched n t ws pc s = ((parts, cause), s') \<Longrightarrow>
    R s s' \<and> (cause = None \<longrightarrow> snd pc = None \<and> (pending n (fst pc) ws (D s) \<longrightarrow> pending n parts [] (D s'))) \<and>
      ((\<forall>e. snd pc = Some e \<longrightarrow> P e) \<longrightarrow> (\<forall>e. cause = Some e \<longrightarrow> P e))"
proof (induction "sum_list (map (\<lambda>i. Suc (n + 4 - i)) ws)" arbitrary: t ws pc s rule: less_induct)
  case less
  let ?j = "sched t mod length ws"
  note run = less.prems [unfolded runWorkers.simps [of up "x_ctx E" sched n t ws pc s] Let_def]
  show ?case
  proof (cases "ws = []")
    case True
    then show ?thesis using run R_refl by (cases pc) auto
  next
    case ws: False
    then have j: "?j < length ws" by simp
    note dropped = less.hyps [OF dropWorker_less [OF ws]]
    show ?thesis
    proof (cases "n \<le> ws ! ?j \<or> snd pc \<noteq> None")
      case True
      have "runWorkers up (x_ctx E) sched n (Suc t) (dropNth ?j ws) pc s = ((parts, cause), s')"
        using run ws True by simp
      from dropped [OF this] show ?thesis using pending_drop [OF _ j] True by blast
    next
      case go: False
      obtain ce s1 where c: "x_ctx E s = (ce, s1)" by (cases "x_ctx E s")
      note g1 = ctx_R [OF c]
      show ?thesis
      proof (cases ce)
        case (Some e)
        have "runWorkers up (x_ctx E) sched n (Suc t) (dropNth ?j ws) (fst pc, Some e) s1 = ((parts, cause), s')"
          using run ws go c Some by simp
        from dropped [OF this] show ?thesis using R_trans [OF g1] ctx_P [OF c [unfolded Some]] by auto
      next
        case None
        obtain r s2 where u: "up (ws ! ?j) s1 = (r, s2)" by (cases "up (ws ! ?j) s1")
        have g2: "R s s2" by (rule R_trans [OF g1 up_R [OF u]])
        show ?thesis
        proof (cases r)
          case (Inl e)
          have "runWorkers up (x_ctx E) sched n (Suc t) (dropNth ?j ws) (fst pc, Some e) s2 = ((parts, cause), s')"
            using run ws go c None u Inl by simp
          from dropped [OF this] show ?thesis using R_trans [OF g2] up_P [OF u [unfolded Inl]] by auto
        next
          case (Inr p)
          have r: "runWorkers up (x_ctx E) sched n (Suc t) (ws[?j := ws ! ?j + uploadConcurrency])
              ((fst pc)[ws ! ?j := Some p], None) s2 = ((parts, cause), s')"
            using run ws go c None u Inr by simp
          have i: "ws ! ?j < n" using go by simp
          have "pending n ((fst pc)[ws ! ?j := Some p]) (ws[?j := ws ! ?j + uploadConcurrency]) (D s2)"
            if "pending n (fst pc) ws (D s)"
          proof (rule pending_next [OF _ j i])
            show "pending n (fst pc) ws (D s2)" by (rule pending_mono [OF that]) (rule D_mono [OF g2])
            show "D s2 (ws ! ?j) p" using u Inr by (intro up_D) simp
          qed
          then show ?thesis
            using less.hyps [OF nextWorker_less [OF ws i] r] R_trans [OF g2] go by auto
        qed
      qed
    qed
  qed
qed

subsection \<open>An upload\<close>

definition part_done :: "string \<Rightarrow> bytes \<Rightarrow> int \<Rightarrow> int \<Rightarrow> 's \<Rightarrow> nat \<Rightarrow> completedPart \<Rightarrow> bool" where
  "part_done uid v sz psz s i p \<longleftrightarrow> cp_Number p = int (i + 1) \<and>
     (\<exists>t. cp_ETag p = Some t \<and> uploaded s uid (int (i + 1)) t = Some (partBytes v sz psz i))"

lemma uploadOne_cases:
  assumes "uploadOne E st key uid v sz psz i s = (r, s')"
  obtains po t where "cl_part (s3_client st) (s3_bucket st) key uid (int (i + 1)) (partBytes v sz psz i) s = (Inr (Some po), s')"
    and "po_ETag po = Some t" and "r = Inr \<lparr>cp_Number = int (i + 1), cp_ETag = Some t, cp_CRC32 = po_CRC32 po\<rparr>"
  | e where "cl_part (s3_client st) (s3_bucket st) key uid (int (i + 1)) (partBytes v sz psz i) s = (Inl e, s')"
    and "r = Inl (s3wrap st (''upload part '' @ decStr (i + 1)) key e)"
  | "r = Inl (s3wrap st (''upload part '' @ decStr (i + 1)) key (Sentinel ErrCorrupt))"
proof -
  obtain q s1 where c: "cl_part (s3_client st) (s3_bucket st) key uid (int (i + 1)) (partBytes v sz psz i) s = (q, s1)"
    by (cases "cl_part (s3_client st) (s3_bucket st) key uid (int (i + 1)) (partBytes v sz psz i) s")
  note eval = assms [unfolded uploadOne_def io_wrap_def io_bind_def c]
  consider e where "q = Inl e" | "q = Inr None" | po where "q = Inr (Some po)" "po_ETag po = None \<or> po_ETag po = Some []"
    | po t where "q = Inr (Some po)" "po_ETag po = Some t" "t \<noteq> []"
    by (cases q) (auto, metis option.exhaust)
  then show ?thesis
  proof cases
    case (1 e) then show ?thesis using eval c that(2) by simp
  next
    case 2 then show ?thesis using eval that(3) by simp
  next
    case (3 po) then show ?thesis using eval that(3) by simp
  next
    case (4 po t) then show ?thesis using eval c that(1) by auto
  qed
qed

lemma uploadOne_done: "uploadOne E st key uid v sz psz i s = (Inr p, s') \<Longrightarrow> part_done uid v sz psz s' i p"
  by (erule uploadOne_cases) (auto simp: part_done_def dest: part_ok)

lemma uploadOne_err:
  assumes "uploadOne E st key uid v sz psz i s = (Inl e, s')" and "a \<in> {ErrNotFound, ErrExists}"
  shows "\<not> errors_is e a"
  using assms(1)
proof (cases rule: uploadOne_cases)
  case (2 e')
  then show ?thesis using alien_part [OF 2(1) assms(2)] by (simp add: s3wrap_def)
next
  case 3
  then show ?thesis using assms(2) by (auto simp: s3wrap_def)
qed simp

lemma pending_start: "pending n (replicate n None) [0..<min uploadConcurrency n] D"
  unfolding pending_def
proof (intro conjI allI impI disjI2)
  fix i assume "i < n"
  then have "i mod uploadConcurrency \<in> set [0..<min uploadConcurrency n]"
    by (simp add: uploadConcurrency_def)
  moreover have "(i - i mod uploadConcurrency) mod uploadConcurrency = 0"
    by (simp add: minus_mod_eq_mult_div)
  ultimately show "\<exists>w\<in>set [0..<min uploadConcurrency n]. w \<le> i \<and> (i - w) mod uploadConcurrency = 0"
    by (intro bexI [of _ "i mod uploadConcurrency"]) simp_all
qed simp

lemma uploadParts_all:
  assumes "uploadParts E st key uid v sz psz s = (r, s')"
  shows "R s s' \<and>
    (\<forall>parts. r = Inr parts \<longrightarrow> length parts = partCount sz psz \<and>
       (\<forall>i<length parts. \<exists>p. parts ! i = Some p \<and> part_done uid v sz psz s' i p)) \<and>
    (\<forall>e a. r = Inl e \<longrightarrow> a \<in> {ErrNotFound, ErrExists} \<longrightarrow> \<not> errors_is e a)"
proof -
  let ?n = "partCount sz psz"
  obtain parts cause s1 where w: "runWorkers (uploadOne E st key uid v sz psz) (x_ctx E) (x_sched E) ?n 0
             [0..<min uploadConcurrency ?n] (replicate ?n None, None) s = ((parts, cause), s1)"
    by (metis surj_pair)
  have mono: "part_done uid v sz psz s' i p" if "R s s'" "part_done uid v sz psz s i p" for s s' i p
    using that unfolding part_done_def serviceLater_def by blast
  have ok: "R s s1 \<and> (cause = None \<longrightarrow> pending ?n parts [] (part_done uid v sz psz s1)) \<and>
      (\<forall>e. cause = Some e \<longrightarrow> (\<forall>a\<in>{ErrNotFound, ErrExists}. \<not> errors_is e a))"
    using runWorkers_ok [OF io_relD [OF uploadOne_R] uploadOne_done mono _ _ w,
        where P = "\<lambda>e. \<forall>a\<in>{ErrNotFound, ErrExists}. \<not> errors_is e a"]
      uploadOne_err alien_ctx pending_start by fastforce
  show ?thesis
  proof (cases cause)
    case (Some e)
    then show ?thesis using assms w ok by (auto simp: uploadParts_def Let_def)
  next
    case None
    obtain ce s2 where c: "x_ctx E s1 = (ce, s2)" by (cases "x_ctx E s1")
    have g: "R s s'" using ok ctx_R [OF c] R_trans assms w None c
      by (auto simp: uploadParts_def Let_def split: option.splits)
    show ?thesis
    proof (cases ce)
      case (Some e)
      then show ?thesis using assms w None c g alien_ctx [of s1 e s2] by (auto simp: uploadParts_def Let_def)
    next
      case ok2: None
      have "pending ?n parts [] (part_done uid v sz psz s2)"
      proof (rule pending_mono)
        show "pending ?n parts [] (part_done uid v sz psz s1)" using ok None by simp
        show "part_done uid v sz psz s2 i p" if "part_done uid v sz psz s1 i p" for i p
          by (rule mono [OF ctx_R [OF c] that])
      qed
      then show ?thesis using assms w None c g ok2 by (auto simp: uploadParts_def Let_def pending_def)
    qed
  qed
qed

lemma complete_R': "completeParts st key uid parts s = (r, s') \<Longrightarrow> R s s'"
  by (auto simp: completeParts_def split: prod.splits option.splits if_splits dest: complete_R)

lemma abort_steps: "abortUpload st key uid r s = (r', s') \<Longrightarrow> R s s' \<and> (snd r' = None \<longleftrightarrow> snd r = None)"
  by (cases r) (auto simp: abortUpload_def R_refl split: prod.splits option.splits if_splits dest: abort_R)

lemma abort_err:
  assumes "abortUpload st key uid r s = (r', s')" and "snd r' = Some e'" and "errors_is e' a"
    and "a \<in> {ErrNotFound, ErrExists}"
  shows "\<exists>e. snd r = Some e \<and> errors_is e a"
proof -
  obtain e where e: "snd r = Some e" using assms(1,2) by (cases r) (auto simp: abortUpload_def split: option.splits)
  obtain ae s1 where ab: "cl_abort (s3_client st) (s3_bucket st) key uid s = (ae, s1)"
    by (cases "cl_abort (s3_client st) (s3_bucket st) key uid s")
  show ?thesis
  proof (cases ae)
    case (Some x)
    have "\<not> errors_is x a" by (rule alien_abort [OF ab [unfolded Some] assms(4)])
    then show ?thesis using assms(1-3) e ab Some by (auto simp: abortUpload_def s3wrap_def split: if_splits)
  qed (use assms(1-3) e ab in \<open>auto simp: abortUpload_def\<close>)
qed

definition attempt_ok :: "string \<Rightarrow> bytes \<Rightarrow> 's \<Rightarrow> 's \<Rightarrow> goerr option \<Rightarrow> bool" where
  "attempt_ok key v s s' err \<longleftrightarrow> R s s' \<and>
     (good s \<longrightarrow> (err = None \<longrightarrow> objs s key = None \<and> objs s' key = Some v) \<and>
        (\<forall>e. err = Some e \<longrightarrow> errors_is e ErrExists \<longrightarrow> objs s' key \<noteq> None))"

lemma attempt_failed:
  "R s s' \<Longrightarrow> \<not> errors_is e ErrExists \<Longrightarrow> attempt_ok key v s s' (Some e)"
  by (simp add: attempt_ok_def)

lemma multipartAttempt_ok:
  assumes "multipartAttempt E st key v sz psz ct s = ((retry, err), s')"
    and "0 < psz" and "0 \<le> sz" and "length v = nat sz"
  shows "attempt_ok key v s s' err"
proof -
  obtain ir s1 where i: "cl_initiate (s3_client st) (s3_bucket st) key ct s = (ir, s1)"
    by (cases "cl_initiate (s3_client st) (s3_bucket st) key ct s")
  have g1: "R s s1" by (rule initiate_R [OF i])
  show ?thesis
  proof (cases "\<exists>uid. ir = Inr (Some uid) \<and> uid \<noteq> []")
    case False
    then have "s' = s1" "\<exists>e. err = Some e \<and> \<not> errors_is e ErrExists"
      using assms(1) i alien_initiate [of _ key ct s _ s1 ErrExists]
      by (auto simp: multipartAttempt_def s3wrap_def split: sum.splits option.splits if_splits)
    then show ?thesis using g1 attempt_failed by blast
  next
    case True
    then obtain uid where uid: "ir = Inr (Some uid)" "uid \<noteq> []" by blast
    obtain ur s2 where u: "uploadParts E st key uid v sz psz s1 = (ur, s2)"
      by (cases "uploadParts E st key uid v sz psz s1")
    note ua = uploadParts_all [OF u]
    have g2: "R s s2" using g1 ua R_trans by blast
    show ?thesis
    proof (cases ur)
      case (Inl e)
      have ab: "abortUpload st key uid (False, Some e) s2 = ((retry, err), s')"
        using assms(1) i uid u Inl by (simp add: multipartAttempt_def)
      have "\<not> errors_is e ErrExists" using ua Inl by auto
      then show ?thesis
        using abort_steps [OF ab] abort_err [OF ab, of _ ErrExists] R_trans [OF g2] by (auto simp: attempt_ok_def)
    next
      case (Inr parts)
      obtain cr s3 where c: "completeParts st key uid parts s2 = (cr, s3)"
        by (cases "completeParts st key uid parts s2")
      have ab: "abortUpload st key uid cr s3 = ((retry, err), s')"
        using assms(1) i uid u Inr c by (simp add: multipartAttempt_def)
      have g3: "R s s3" using g2 complete_R' [OF c] R_trans by blast
      have g': "R s3 s'" using abort_steps [OF ab] by blast
      let ?bs = "map (partBytes v sz psz) [0..<partCount sz psz]"
      have parts: "length ?bs = length parts" and pdone: "\<And>i. i < length parts \<Longrightarrow>
          \<exists>p t. parts ! i = Some p \<and> cp_Number p = int (i + 1) \<and> cp_ETag p = Some t \<and>
            uploaded s2 uid (int (i + 1)) t = Some (?bs ! i)"
        using ua Inr by (auto simp: part_done_def)
      have conc: "concat ?bs = v" by (rule parts_value [OF assms(2-4)])
      have "objs s key = None \<and> objs s' key = Some v" if "err = None" "good s"
      proof -
        have "snd cr = None" using abort_steps [OF ab] that by simp
        then have "cl_complete (s3_client st) (s3_bucket st) key uid parts s2 = (None, s3)"
          using c by (auto simp: completeParts_def split: prod.splits option.splits if_splits)
        from complete_ok [OF this R_good [OF g2 that(2)] parts pdone]
        have "objs s2 key = None" "objs s3 key = Some v" by (simp_all only: conc)
        then show ?thesis
          using R_absent [OF g2 that(2)] R_some [OF g'] R_good [OF g3 that(2)] by blast
      qed
      moreover have "objs s' key \<noteq> None" if failed: "err = Some e" "errors_is e ErrExists" "good s" for e
      proof -
        obtain e0 where e0: "snd cr = Some e0" "errors_is e0 ErrExists"
          using abort_err [OF ab _ failed(2)] failed(1) by auto
        then obtain e1 where "cl_complete (s3_client st) (s3_bucket st) key uid parts s2 = (Some e1, s3)"
            "precondition_failed st e1"
          using c alien_complete [of _ key uid parts s2 _ s3 ErrExists]
          by (auto simp: completeParts_def s3wrap_def split: prod.splits option.splits if_splits)
        then have "objs s3 key \<noteq> None" using complete_412 R_good [OF g2 failed(3)] by blast
        then show ?thesis using R_present [OF g'] R_good [OF g3 failed(3)] by blast
      qed
      ultimately show ?thesis using R_trans [OF g3 g'] by (auto simp: attempt_ok_def)
    qed
  qed
qed

end

end
