(* ===== verification/S3Contract.thy ===== *)
theory S3Contract
  imports S3Facts
begin

section \<open>The S3 store keeps the Store contract\<close>

text \<open>
  Under the contract of the service, the loops of Create, the paging of List and the errors of Get
  add up to the Store contract of \<open>store.go\<close>, for the code's whole world.
\<close>

context s3_service
begin

text \<open>What a whole Create comes to, by the attempts it makes.\<close>

lemma attempt_later:
  assumes "R s0 s" and "attempt_ok key v s s' err"
  shows "attempt_ok key v s0 s' err"
  using assms R_trans [OF assms(1)] R_good [OF assms(1)] R_absent [OF assms(1)] unfolding attempt_ok_def by blast

lemma ctx_checked:
  assumes "io_bind (io_check (x_ctx E)) f s = (r, s')"
  obtains e where "r = Inl e" and "\<not> errors_is e ErrExists" and "R s s'"
  | s1 where "R s s1" and "f () s1 = (r, s')"
proof -
  obtain ce s1 where c: "x_ctx E s = (ce, s1)" by (cases "x_ctx E s")
  show ?thesis
    using assms c ctx_R [OF c] alien_ctx [of s _ s1 ErrExists] that
    by (cases ce) (auto simp: io_bind_def io_check_def)
qed

lemma wait_checked:
  assumes "io_bind (waitConflict E n) f s = (r, s')"
  obtains e where "r = Inl e" and "\<not> errors_is e ErrExists" and "R s s'"
  | s1 where "R s s1" and "f () s1 = (r, s')"
proof -
  obtain q s1 where w: "waitConflict E n s = (q, s1)" by (cases "waitConflict E n s")
  note g = io_relD [OF rel_wait w]
  have "\<not> errors_is e ErrExists" if "q = Inl e" for e
    using w that alien_sleep [of _ _ e s1 ErrExists]
    by (auto simp: waitConflict_def io_bind_def io_try_def io_check_def Let_def split: prod.splits sum.splits option.splits)
  then show ?thesis using assms w g that by (cases q) (auto simp: io_bind_def)
qed

lemma multipartLoop_ok:
  assumes "0 < psz" and "0 \<le> sz" and "length v = nat sz"
  shows "multipartLoop E st key v sz psz ct attempt s = (r, s') \<Longrightarrow> attempt_ok key v s s' (errOf r)"
proof (induction "nat (s3_retries st - int attempt)" arbitrary: attempt s rule: less_induct)
  case less
  note run = less.prems [unfolded multipartLoop.simps [of E st key v sz psz ct attempt]]
  show ?case
  proof (rule ctx_checked [OF run])
    show ?thesis if "r = Inl e" "\<not> errors_is e ErrExists" "R s s'" for e
      using attempt_failed that by simp
  next
    fix s1
    assume g1: "R s s1" and k: "io_bind (\<lambda>s. case multipartAttempt E st key v sz psz ct s of (r, s1) \<Rightarrow> (Inr r, s1))
      (\<lambda>r. if \<not> fst r \<or> s3_retries st \<le> int attempt
            then case snd r of None \<Rightarrow> io_ret () | Some e \<Rightarrow> io_fail e
            else io_bind (waitConflict E attempt) (\<lambda>_. multipartLoop E st key v sz psz ct (Suc attempt))) s1 = (r, s')"
    obtain retry err s2 where a: "multipartAttempt E st key v sz psz ct s1 = ((retry, err), s2)"
      by (metis surj_pair)
    note ok = attempt_later [OF g1 multipartAttempt_ok [OF a assms]]
    have g2: "R s s2" using ok by (simp add: attempt_ok_def)
    show ?thesis
    proof (cases "\<not> retry \<or> s3_retries st \<le> int attempt")
      case True
      then have "s' = s2 \<and> errOf r = err" using k a by (cases err) (auto simp: io_bind_def)
      then show ?thesis using ok by simp
    next
      case False
      then have w: "io_bind (waitConflict E attempt) (\<lambda>_. multipartLoop E st key v sz psz ct (Suc attempt)) s2 = (r, s')"
        using k a by (simp add: io_bind_def [of "\<lambda>s. case multipartAttempt E st key v sz psz ct s of (r, s1) \<Rightarrow> (Inr r, s1)"])
      show ?thesis
      proof (rule wait_checked [OF w])
        show ?thesis if "r = Inl e" "\<not> errors_is e ErrExists" "R s2 s'" for e
          using attempt_failed that R_trans [OF g2] by simp
      next
        fix s3 assume g3: "R s2 s3" and rec: "multipartLoop E st key v sz psz ct (Suc attempt) s3 = (r, s')"
        have "nat (s3_retries st - int (Suc attempt)) < nat (s3_retries st - int attempt)" using False by simp
        from less.hyps [OF this rec] show ?thesis by (rule attempt_later [OF R_trans [OF g2 g3]])
      qed
    qed
  qed
qed

lemma partSize_pos: "partSize st sz = Inr psz \<Longrightarrow> 0 < psz"
  by (auto simp: partSize_def minPartSize_def split: if_splits)

lemma createMultipart_ok:
  assumes "createMultipart E st key v sz ct s = (r, s')" and "0 \<le> sz" and "length v = nat sz"
  shows "attempt_ok key v s s' (errOf r)"
proof (cases "partSize st sz")
  case (Inl e)
  then have "r = Inl (s3wrap st ''multipart'' key e)" "s' = s" "\<not> errors_is e ErrExists"
    using assms(1) by (auto simp: createMultipart_def partSize_def split: if_splits)
  then show ?thesis using attempt_failed [OF R_refl] by (simp add: s3wrap_def)
next
  case (Inr psz)
  then show ?thesis
    using assms(1) multipartLoop_ok [OF partSize_pos [OF Inr] assms(2,3)] by (simp add: createMultipart_def)
qed

lemma putLoop_ok: "putLoop E st key v ct attempt s = (r, s') \<Longrightarrow> attempt_ok key v s s' (errOf r)"
proof (induction "nat (s3_retries st - int attempt)" arbitrary: attempt s rule: less_induct)
  case less
  note run = less.prems [unfolded putLoop.simps [of E st key v ct attempt]]
  show ?case
  proof (rule ctx_checked [OF run])
    show ?thesis if "r = Inl e" "\<not> errors_is e ErrExists" "R s s'" for e
      using attempt_failed that by simp
  next
    fix s1
    assume g1: "R s s1"
      and k: "io_bind (io_try (io_check (cl_put (s3_client st) (s3_bucket st) key v ct)))
      (\<lambda>r. case r of
         Inr _ \<Rightarrow> io_ret ()
       | Inl e \<Rightarrow>
           if precondition_failed st e then io_fail (s3wrap st ''put'' key (Wrap [] [Sentinel ErrExists, e]))
           else if \<not> conflict st e \<or> s3_retries st \<le> int attempt then io_fail (s3wrap st ''put'' key e)
           else io_bind (waitConflict E attempt) (\<lambda>_. putLoop E st key v ct (Suc attempt))) s1 = (r, s')"
    obtain pe s2 where p: "cl_put (s3_client st) (s3_bucket st) key v ct s1 = (pe, s2)"
      by (cases "cl_put (s3_client st) (s3_bucket st) key v ct s1")
    have g2: "R s s2" by (rule R_trans [OF g1 put_R [OF p]])
    note eval = k [unfolded io_bind_def [of "io_try m" for m] io_try_def io_check_def p prod.case]
    show ?thesis
    proof (cases pe)
      case None
      then have "r = Inr ()" "s' = s2" using eval by simp_all
      moreover have "attempt_ok key v s1 s2 None"
        using put_ok [OF p [unfolded None]] put_R [OF p] by (simp add: attempt_ok_def)
      ultimately show ?thesis using attempt_later [OF g1] by simp
    next
      case (Some e)
      note err = eval [unfolded Some option.case prod.case sum.case]
      have ne: "\<not> errors_is e ErrExists" by (rule alien_put [OF p [unfolded Some]]) simp
      show ?thesis
      proof (cases "precondition_failed st e")
        case True
        then have "\<exists>e'. r = Inl e'" "s' = s2" using err by auto
        then show ?thesis
          using put_412 [OF p [unfolded Some] _ True] g2 R_good [OF g1] by (auto simp: attempt_ok_def)
      next
        case np: False
        show ?thesis
        proof (cases "\<not> conflict st e \<or> s3_retries st \<le> int attempt")
          case True
          then have "r = Inl (s3wrap st ''put'' key e)" "s' = s2" using err np by auto
          then show ?thesis using attempt_failed [OF g2] ne by (simp add: s3wrap_def)
        next
          case False
          then have w: "io_bind (waitConflict E attempt) (\<lambda>_. putLoop E st key v ct (Suc attempt)) s2 = (r, s')"
            using err np by simp
          show ?thesis
          proof (rule wait_checked [OF w])
            show ?thesis if "r = Inl e" "\<not> errors_is e ErrExists" "R s2 s'" for e
              using attempt_failed that R_trans [OF g2] by simp
          next
            fix s3 assume g3: "R s2 s3" and rec: "putLoop E st key v ct (Suc attempt) s3 = (r, s')"
            have "nat (s3_retries st - int (Suc attempt)) < nat (s3_retries st - int attempt)" using False by simp
            from less.hyps [OF this rec] show ?thesis by (rule attempt_later [OF R_trans [OF g2 g3]])
          qed
        qed
      qed
    qed
  qed
qed

lemma s3Create_ok:
  assumes "s3Create E st key (Some (bytes_source v)) s = (r, s')"
  shows "attempt_ok key v s s' (errOf r)"
proof (rule ctx_checked [OF assms [unfolded s3Create_def]])
  show ?thesis if "r = Inl e" "\<not> errors_is e ErrExists" "R s s'" for e
    using attempt_failed that by simp
next
  fix s1
  assume g: "R s s1" and k: "(case Some (bytes_source v) of
       None \<Rightarrow> io_fail (Msg ''s3store: invalid value size'')
     | Some v \<Rightarrow>
         io_bind (io_lift (fail_if (src_size v < 0) (Msg ''s3store: invalid value size''))) (\<lambda>_.
         let sz = src_size v; ct = contentTypeOf key in
         if sz > s3_threshold st then createMultipart E st key (src_data v) sz ct
         else putLoop E st key (sectionOf (src_data v) 0 sz) ct 0)) s1 = (r, s')"
  have sec: "sectionOf v 0 (int (length v)) = v" by (simp add: sectionOf_def)
  have "attempt_ok key v s1 s' (errOf r)"
    using k createMultipart_ok [of key v "int (length v)" _ s1 r s'] putLoop_ok [of key v _ 0 s1 r s']
    by (auto simp: bytes_source_def sec Let_def split: if_splits)
  then show ?thesis by (rule attempt_later [OF g])
qed

text \<open>Listing: what has been collected so far, and what may still be missing.\<close>

definition listed_to :: "string \<Rightarrow> (string \<rightharpoonup> bytes) \<Rightarrow> string list \<Rightarrow> string option \<Rightarrow> 's \<Rightarrow> bool" where
  "listed_to p m acc token s \<longleftrightarrow>
     (case token of None \<Rightarrow> acc = [] | Some t \<Rightarrow> acc \<noteq> [] \<and> last acc = tok_key t) \<and>
     sorted_wrt (<) acc \<and> (\<forall>k\<in>set acc. hasPrefix k p \<and> objs s k \<noteq> None) \<and>
     (\<forall>k\<in>dom m. hasPrefix k p \<longrightarrow> k \<in> set acc \<or> token_before tok_key token k \<and> objs s k \<noteq> None)"

lemma last_greatest: "sorted_wrt (<) (acc :: string list) \<Longrightarrow> k' \<in> set acc \<Longrightarrow> last acc < k \<Longrightarrow> k' < k"
  by (cases acc rule: rev_cases) (auto simp: sorted_wrt_append intro: less_trans)

lemma page_step:
  assumes inv: "listed_to p m acc token s" and g: "good s" and c: "x_ctx E s = (None, s1)"
    and l: "cl_list (s3_client st) (s3_bucket st) p n token s1 = (Inr (Some pg), s2)"
    and pk: "pageKeys p (pg_Contents pg) acc = Some acc'"
  shows "sorted_wrt (<) acc'" and "\<forall>k\<in>set acc'. hasPrefix k p \<and> objs s2 k \<noteq> None"
    and "\<And>k. k \<in> dom m \<Longrightarrow> hasPrefix k p \<Longrightarrow> k \<notin> set acc' \<Longrightarrow>
      pg_IsTruncated pg = Some True \<and> (\<forall>k'\<in>set acc'. k' < k) \<and> objs s2 k \<noteq> None"
proof -
  let ?new = "map the (pg_Contents pg)"
  have g1: "good s1" and R1: "R s s1" using ctx_R [OF c] R_good g by blast+
  have R2: "R s1 s2" by (rule list_R [OF l])
  have acc': "acc' = acc @ ?new" and nn: "None \<notin> set (pg_Contents pg)" using pageKeys_eq [OF pk] by simp_all
  have new: "Some k \<in> set (pg_Contents pg)" if "k \<in> set ?new" for k
    using that nn by (metis imageE list.set_map option.collapse)
  have keep: "objs s2 k \<noteq> None" if "objs s k \<noteq> None" for k
    using that R_present [OF R_trans [OF R1 R2] g] by blast
  have srt: "sorted_wrt (<) acc" and pre: "\<forall>k\<in>set acc. hasPrefix k p \<and> objs s k \<noteq> None"
    using inv by (simp_all add: listed_to_def)
  have res: "sorted_wrt (<) acc' \<and> (\<forall>k\<in>set acc'. hasPrefix k p)"
    using pageKeys_sorted [OF pk srt] pre by blast
  then show "sorted_wrt (<) acc'" ..
  have "objs s2 k \<noteq> None" if k: "k \<in> set acc'" for k
  proof (cases "k \<in> set acc")
    case True
    then show ?thesis using pre keep by blast
  next
    case False
    then have "k \<in> set ?new" using k acc' by simp
    then show ?thesis using page_present [OF l g1 new] by blast
  qed
  then show "\<forall>k\<in>set acc'. hasPrefix k p \<and> objs s2 k \<noteq> None" using res by blast
  show "pg_IsTruncated pg = Some True \<and> (\<forall>k'\<in>set acc'. k' < k) \<and> objs s2 k \<noteq> None"
    if k: "k \<in> dom m" "hasPrefix k p" "k \<notin> set acc'" for k
  proof -
    have "k \<notin> set acc" "Some k \<notin> set (pg_Contents pg)" using k(3) acc' by force+
    then have b: "token_before tok_key token k" "objs s k \<noteq> None" using inv k by (auto simp: listed_to_def)
    have o1: "objs s1 k \<noteq> None" by (rule R_present [OF R1 g b(2)])
    have tr: "pg_IsTruncated pg = Some True" and lt: "\<And>k'. Some k' \<in> set (pg_Contents pg) \<Longrightarrow> k' < k"
      using page_complete [OF l g1 o1 k(2) b(1)] \<open>Some k \<notin> set (pg_Contents pg)\<close> by blast+
    have "k' < k" if "k' \<in> set acc" for k'
    proof (rule last_greatest [OF srt that])
      show "last acc < k"
        using inv b(1) that by (cases token) (simp_all add: listed_to_def token_before_def)
    qed
    then have "\<forall>k'\<in>set acc'. k' < k" using lt new acc' by auto
    then show ?thesis using tr keep b(2) by blast
  qed
qed

lemma s3Pages_complete:
  "s3Pages E st p limit acc token s = (Inr ks, s') \<Longrightarrow> int (length acc) < limit \<Longrightarrow> good s \<Longrightarrow>
     listed_to p m acc token s \<Longrightarrow>
     (\<forall>k\<in>set ks. objs s' k \<noteq> None) \<and>
     (\<forall>k\<in>dom m. hasPrefix k p \<longrightarrow> k \<in> set ks \<or> int (length ks) = limit \<and> (\<forall>k'\<in>set ks. k' < k))"
proof (induction "nat (limit - int (length acc))" arbitrary: acc token s rule: less_induct)
  case less
  show ?case
  proof (rule s3Pages_Inr [OF less.prems(1,2)])
    fix s1 pg s2 acc'
    assume p: "x_ctx E s = (None, s1)"
      "cl_list (s3_client st) (s3_bucket st) p (min (limit - int (length acc)) 1000) token s1 = (Inr (Some pg), s2)"
      "pageKeys p (pg_Contents pg) acc = Some acc'"
      and e: "pg_IsTruncated pg \<noteq> Some True \<or> int (length acc') = limit" "ks = acc'" "s' = s2"
    note step = page_step [OF less.prems(4,3) p]
    have "k \<in> set ks \<or> int (length ks) = limit \<and> (\<forall>k'\<in>set ks. k' < k)" if "k \<in> dom m" "hasPrefix k p" for k
      using step(3) [OF that] e by blast
    then show ?thesis using step(2) e(2,3) by blast
  next
    fix s1 pg s2 acc'
    assume p: "x_ctx E s = (None, s1)"
      "cl_list (s3_client st) (s3_bucket st) p (min (limit - int (length acc)) 1000) token s1 = (Inr (Some pg), s2)"
      "pageKeys p (pg_Contents pg) acc = Some acc'"
      and n: "int (length (pg_Contents pg)) \<le> min (limit - int (length acc)) 1000"
        "int (length acc') \<noteq> limit" "pg_Contents pg \<noteq> []" "pg_Next pg \<noteq> None"
      and rec: "s3Pages E st p limit acc' (pg_Next pg) s2 = (Inr ks, s')"
    note step = page_step [OF less.prems(4,3) p]
    have g1: "good s1" by (rule R_good [OF ctx_R [OF p(1)] less.prems(3)])
    have g2: "good s2" by (rule R_good [OF list_R [OF p(2)] g1])
    obtain t where t: "pg_Next pg = Some t" using n(4) by blast
    have acc': "acc' = acc @ map the (pg_Contents pg)" using pageKeys_eq [OF p(3)] by simp
    have la: "acc' \<noteq> []" "last acc' = tok_key t"
      using page_next [OF p(2) g1 n(3) t] n(3) by (simp_all add: acc' last_map)
    have "int (length acc') < limit" "nat (limit - int (length acc')) < nat (limit - int (length acc))"
      using n(1-3) less.prems(2) pageKeys_length [OF p(3)] by (cases "pg_Contents pg"; simp)+
    moreover have "listed_to p m acc' (pg_Next pg) s2"
      unfolding listed_to_def t option.case
    proof (intro conjI ballI impI)
      show "acc' \<noteq> []" "last acc' = tok_key t" by (rule la)+
      show "sorted_wrt (<) acc'" by (rule step(1))
      show "hasPrefix k p" "objs s2 k \<noteq> None" if "k \<in> set acc'" for k using step(2) that by blast+
      fix k assume k: "k \<in> dom m" "hasPrefix k p"
      show "k \<in> set acc' \<or> token_before tok_key (Some t) k \<and> objs s2 k \<noteq> None"
      proof (cases "k \<in> set acc'")
        case False
        then have "last acc' < k" "objs s2 k \<noteq> None" using step(3) [OF k] last_in_set [OF la(1)] by blast+
        then show ?thesis by (simp add: token_before_def la(2))
      qed simp
    qed
    ultimately show ?thesis using less.hyps [OF _ rec _ g2] by blast
  qed
qed

lemma s3List_ok:
  assumes "s3List E st p limit s = (Inr ks, s')" and "good s"
  shows "is_listing p limit (objs s) (objs s') ks"
proof -
  have l: "0 < limit" and r: "s3Pages E st p limit [] None s = (Inr ks, s')"
    using assms(1) by (auto simp: s3List_def io_bind_eq_Inr_iff)
  have "listed_to p (objs s) [] None s" by (auto simp: listed_to_def token_before_def)
  then have "(\<forall>k\<in>set ks. objs s' k \<noteq> None) \<and>
     (\<forall>k\<in>dom (objs s). hasPrefix k p \<longrightarrow> k \<in> set ks \<or> int (length ks) = limit \<and> (\<forall>k'\<in>set ks. k' < k))"
    by (intro s3Pages_complete [OF r _ assms(2)]) (use l in simp_all)
  then show ?thesis using s3List_listing [OF assms(1)] unfolding is_listing_def by blast
qed

subsection \<open>The contract of the store\<close>

lemma s3Get_cases:
  assumes "s3Get E st k s = (r, s')"
  obtains e where "r = Inl e" and "\<not> errors_is e ErrNotFound"
  | e s1 where "R s s1" and "cl_get (s3_client st) (s3_bucket st) k s1 = (Inl e, s')"
    and "r = Inl (s3wrap st ''get'' k
           (if s3status st e = 404 \<or> s3code st e = ''NoSuchKey'' then Wrap [] [Sentinel ErrNotFound, e] else e))"
  | b s1 s2 where "R s s1" and "cl_get (s3_client st) (s3_bucket st) k s1 = (Inr (Some b), s2)" and "R s2 s'"
    and "\<And>t. r = Inr t \<Longrightarrow> s_rerr t = None \<Longrightarrow> s_rerr b = None \<and> s_bytes t = s_bytes b" and "\<exists>t. r = Inr t"
proof -
  obtain ce s1 where c: "x_ctx E s = (ce, s1)" by (cases "x_ctx E s")
  obtain q s2 where g: "cl_get (s3_client st) (s3_bucket st) k s1 = (q, s2)"
    by (cases "cl_get (s3_client st) (s3_bucket st) k s1")
  note eval = assms [unfolded s3Get_def io_bind_def io_check_def io_wrap_def c prod.case]
  note R1 = ctx_R [OF c]
  consider e where "ce = Some e" | e where "ce = None" "q = Inl e" | "ce = None" "q = Inr None"
    | b where "ce = None" "q = Inr (Some b)"
    by (cases ce, cases q) (blast, metis option.exhaust, blast)
  then show ?thesis
  proof cases
    case (1 e)
    then show ?thesis using eval that(1) [of e] alien_ctx [of s e s1 ErrNotFound] c by simp
  next
    case (2 e)
    then show ?thesis using eval that(2) [OF R1, of e] g by simp
  next
    case 3
    then have "r = Inl (s3wrap st ''get'' k (Sentinel ErrCorrupt))" using eval g by auto
    then show ?thesis by (rule that(1)) (simp add: s3wrap_def)
  next
    case (4 b)
    obtain pe s3 where p: "x_ctx E s2 = (pe, s3)" by (cases "x_ctx E s2")
    have rb: "responseBody E st k b s2 = (r, s')" using eval g 4 by simp
    then have "s' = s3" "\<exists>t. r = Inr t"
      using p by (auto simp: responseBody_def Let_def io_bind_def io_poll_def split: option.splits)
    moreover have "s_rerr b = None \<and> s_bytes t = s_bytes b" if "r = Inr t" "s_rerr t = None" for t
      using rb p that by (auto simp: responseBody_def Let_def io_bind_def io_poll_def split: option.splits)
    ultimately show ?thesis using that(3) [OF R1, of b s2] g 4 ctx_R [OF p] by blast
  qed
qed

lemma R_grows: "R s s' \<Longrightarrow> grows objs good s s'"
  by (simp add: serviceLater_def)

theorem s3_contract: "object_store (s3_world E st) objs good"
proof
  show "grows objs good s s'" if "w_ctx (s3_world E st) s = (ce, s')" for s ce s'
    using that by (auto simp: s3_world_def intro: R_grows ctx_R)
  show "grows objs good s s'" if "w_list (s3_world E st) p n s = (lr, s')" for p n s lr s'
    using that by (auto simp: s3_world_def intro: R_grows io_relD [OF s3List_R])
  show "grows objs good s s'" if "w_get (s3_world E st) k s = (gr, s')" for k s gr s'
    using that by (auto simp: s3_world_def intro: R_grows io_relD [OF s3Get_R])
  show "grows objs good s s'" if "w_rand (s3_world E st) m s = (rr, s')" for m s rr s'
    using that by (auto simp: s3_world_def intro: R_grows rand_R)
  show "grows objs good s s'" if "w_tmp (s3_world E st) q s = (ce, s')" for q s ce s'
    using that by (auto simp: s3_world_def intro: R_grows tmp_R)
  have create: "attempt_ok k v s s' ce" if "w_create (s3_world E st) k v s = (ce, s')" for k v s ce s'
    using that s3Create_ok [of k v s _ s'] by (auto simp: s3_world_def errPart_def split: prod.splits)
  show "grows objs good s s'" if "w_create (s3_world E st) k v s = (ce, s')" for k v s ce s'
    using create [OF that] by (auto simp: attempt_ok_def intro: R_grows)
  show "objs s k = None \<and> objs s' k = Some v" if "w_create (s3_world E st) k v s = (None, s')" "good s" for k v s s'
    using create [OF that(1)] that(2) by (simp add: attempt_ok_def)
  show "objs s' k \<noteq> None" if "w_create (s3_world E st) k v s = (Some e, s')" "good s" "errors_is e ErrExists" for k v s e s'
    using create [OF that(1)] that(2,3) by (simp add: attempt_ok_def)
  show "is_listing p n (objs s) (objs s') ks" if "w_list (s3_world E st) p n s = (Inr ks, s')" "good s" for p n s ks s'
    using that by (simp add: s3_world_def s3List_ok)
  show "objs s' k = Some (s_bytes t)"
    if "w_get (s3_world E st) k s = (Inr t, s')" "good s" "s_rerr t = None" for k s t s'
  proof -
    have "s3Get E st k s = (Inr t, s')" using that(1) by (simp add: s3_world_def)
    then show ?thesis
    proof (cases rule: s3Get_cases)
      case (3 b s1 s2)
      have "objs s2 k = Some (s_bytes t)"
        using 3(4) [OF refl that(3)] get_body [OF 3(2) R_good [OF 3(1) that(2)]] by simp
      then show ?thesis by (rule R_some [OF 3(3) R_good [OF get_R [OF 3(2)] R_good [OF 3(1) that(2)]]])
    qed simp_all
  qed
  show "objs s k = None"
    if "w_get (s3_world E st) k s = (Inl e, s')" "good s" "errors_is e ErrNotFound" for k s e s'
  proof -
    have "s3Get E st k s = (Inl e, s')" using that(1) by (simp add: s3_world_def)
    then show ?thesis
    proof (cases rule: s3Get_cases)
      case (1 e') then show ?thesis using that(3) by simp
    next
      case (2 e' s1)
      have "\<not> errors_is e' ErrNotFound" by (rule alien_get [OF 2(2)]) simp
      then have "s3status st e' = 404 \<or> s3code st e' = ''NoSuchKey''"
        using 2(3) that(3) by (auto simp: s3wrap_def split: if_splits)
      then show ?thesis using get_404 [OF 2(2) R_good [OF 2(1) that(2)]] R_absent [OF 2(1) that(2)] by blast
    next
      case 3 then show ?thesis by simp
    qed
  qed
qed

end

end
