(* ===== verification/S3Sim.thy ===== *)
theory S3Sim
  imports S3Contract MemWorld
begin

section \<open>An S3 service in memory\<close>

text \<open>
  The service the package's tests run the store against (\<open>httpAPI\<close> in \<open>s3store_test.go\<close>), extended
  by multipart uploads: a bucket in memory, conditional writes, scripted failures of writes, and
  listings from the key after the continuation token. Its environment is that of the in-memory
  store: other writers, replies lost after they took effect, cancellation. It keeps the contract of
  the service for every schedule of the upload workers, so the store on it keeps the Store contract.
\<close>

record uploads =
  up_open :: "(string \<times> string) list"
  up_parts :: "(string \<times> int \<times> bytes) list"
  up_count :: nat
  failures :: "int list"

type_synonym sim_state = "mem_state \<times> uploads"

definition apiError :: "int \<Rightarrow> goerr" where
  "apiError n =
     (if n = 404 then Msg ''NoSuchKey'' else if n = 412 then Msg ''PreconditionFailed''
      else if n = 409 then Msg ''ConditionalRequestConflict'' else if n = 410 then Msg ''NoSuchUpload''
      else Msg ''AccessDenied'')"

definition simStatus :: "goerr \<Rightarrow> int" where
  "simStatus e =
     (if e = apiError 404 then 404 else if e = apiError 412 then 412 else if e = apiError 409 then 409
      else if e = apiError 403 then 403 else if e = apiError 410 then 404 else 0)"

definition simCode :: "goerr \<Rightarrow> string" where
  "simCode e = (case e of Msg c \<Rightarrow> c | _ \<Rightarrow> [])"

definition simCall :: "(sim_state, 'r) io \<Rightarrow> (sim_state, 'r) io" where
  "simCall m x =
     (case env_turn (fst x) of (lost, y) \<Rightarrow>
        (case m (y, snd x) of (r, x2) \<Rightarrow> ((if lost then Inl lost_reply else r), x2)))"

text \<open>A write answers with the next scripted failure, if there is one, and has no effect.\<close>

definition simWrite :: "(sim_state, unit) io \<Rightarrow> sim_state \<Rightarrow> goerr option \<times> sim_state" where
  "simWrite m = errPart (simCall (\<lambda>x.
     case failures (snd x) of
       [] \<Rightarrow> m x
     | n # ns \<Rightarrow> (Inl (apiError n), (fst x, (snd x)\<lparr>failures := ns\<rparr>))))"

definition simPublish :: "string \<Rightarrow> bytes \<Rightarrow> (sim_state, unit) io" where
  "simPublish k v x =
     (case memPut k v (fst x) of
        (None, y) \<Rightarrow> (Inr (), (y, snd x))
      | (Some _, y) \<Rightarrow> (Inl (apiError 412), (y, snd x)))"

definition simPage :: "string \<Rightarrow> int \<Rightarrow> string option \<Rightarrow> string list \<Rightarrow> s3page" where
  "simPage p n token ks =
     (let found = filter (\<lambda>k. hasPrefix k p \<and> (case token of None \<Rightarrow> True | Some t \<Rightarrow> t < k)) ks;
          page = take (nat n) found
      in \<lparr>pg_Contents = map Some page, pg_IsTruncated = Some (int (length found) > n),
          pg_Next = (if int (length found) > n \<and> page \<noteq> [] then Some (last page) else None)\<rparr>)"

definition simList :: "string \<Rightarrow> int \<Rightarrow> string option \<Rightarrow> (sim_state, s3page option) io" where
  "simList p n token = simCall (\<lambda>x.
     if n < 1 \<or> n > 1000 then (Inl (apiError 403), x)
     else (Inr (Some (simPage p n token (keys (snd (fst x))))), x))"

definition simGet :: "string \<Rightarrow> (sim_state, stream option) io" where
  "simGet k = simCall (\<lambda>x.
     case objects (snd (fst x)) k of
       None \<Rightarrow> (Inl (apiError 404), x)
     | Some b \<Rightarrow> (Inr (Some \<lparr>s_bytes = b, s_reads = 1, s_rerr = None, s_cerr = None\<rparr>), x))"

definition simInitiate :: "string \<Rightarrow> (sim_state, string option) io" where
  "simInitiate k = simCall (\<lambda>x.
     let uid = CHR ''u'' # decStr (up_count (snd x)) in
     (Inr (Some uid), (fst x, (snd x)\<lparr>up_open := (uid, k) # up_open (snd x), up_count := Suc (up_count (snd x))\<rparr>)))"

text \<open>The entity tag of a part spells its content.\<close>

definition simPart :: "string \<Rightarrow> string \<Rightarrow> int \<Rightarrow> bytes \<Rightarrow> (sim_state, partOut option) io" where
  "simPart k uid i v = simCall (\<lambda>x.
     if (uid, k) \<notin> set (up_open (snd x)) then (Inl (apiError 410), x)
     else (Inr (Some \<lparr>po_ETag = Some (CHR ''='' # v), po_CRC32 = None\<rparr>),
           (fst x, (snd x)\<lparr>up_parts := (uid, i, v) # up_parts (snd x)\<rparr>)))"

definition simUploaded :: "sim_state \<Rightarrow> string \<Rightarrow> int \<Rightarrow> string \<rightharpoonup> bytes" where
  "simUploaded x uid i t =
     (case t of [] \<Rightarrow> None | c # b \<Rightarrow> if (uid, i, b) \<in> set (up_parts (snd x)) then Some b else None)"

fun simAssemble :: "sim_state \<Rightarrow> string \<Rightarrow> int \<Rightarrow> completedPart option list \<Rightarrow> bytes option" where
  "simAssemble x uid i [] = Some []"
| "simAssemble x uid i (p # ps) =
     (case p of
        None \<Rightarrow> None
      | Some cp \<Rightarrow>
          if cp_Number cp \<noteq> i then None
          else
            (case cp_ETag cp of
               None \<Rightarrow> None
             | Some t \<Rightarrow>
                 (case (simUploaded x uid i t, simAssemble x uid (i + 1) ps) of
                    (Some b, Some bs) \<Rightarrow> Some (b @ bs)
                  | _ \<Rightarrow> None)))"

definition simFinish :: "string \<Rightarrow> string \<Rightarrow> completedPart option list \<Rightarrow> (sim_state, unit) io" where
  "simFinish k uid ps x =
     (if (uid, k) \<notin> set (up_open (snd x)) then (Inl (apiError 410), x)
      else
        (case simAssemble x uid 1 ps of
           None \<Rightarrow> (Inl (apiError 403), x)
         | Some v \<Rightarrow>
             (case simPublish k v x of
                (Inl e, y) \<Rightarrow> (Inl e, y)
              | (Inr u, y) \<Rightarrow> (Inr u, (fst y, (snd y)\<lparr>up_open := removeAll (uid, k) (up_open (snd y))\<rparr>)))))"

definition simComplete ::
    "string \<Rightarrow> string \<Rightarrow> completedPart option list \<Rightarrow> sim_state \<Rightarrow> goerr option \<times> sim_state" where
  "simComplete k uid ps = simWrite (simFinish k uid ps)"

definition simAbort :: "string \<Rightarrow> string \<Rightarrow> sim_state \<Rightarrow> goerr option \<times> sim_state" where
  "simAbort k uid = errPart (simCall (\<lambda>x.
     if (uid, k) \<notin> set (up_open (snd x)) then (Inl (apiError 410), x)
     else (Inr (), (fst x, (snd x)\<lparr>up_open := removeAll (uid, k) (up_open (snd x))\<rparr>))))"

definition simClient :: "sim_state s3client" where
  "simClient =
     \<lparr>cl_list = (\<lambda>bk p n tok. simList p n tok), cl_get = (\<lambda>bk k. simGet k),
      cl_put = (\<lambda>bk k v ct. simWrite (simPublish k v)), cl_initiate = (\<lambda>bk k ct. simInitiate k),
      cl_part = (\<lambda>bk k uid i v. simPart k uid i v), cl_complete = (\<lambda>bk k uid ps. simComplete k uid ps),
      cl_abort = (\<lambda>bk k uid. simAbort k uid), cl_status = simStatus, cl_code = simCode\<rparr>"

definition simEnv :: "(nat \<Rightarrow> nat) \<Rightarrow> sim_state s3env" where
  "simEnv sched =
     \<lparr>x_ctx = lift_op (onCtx env_ctx), x_rand = (\<lambda>n. lift_op (mem_rand n)),
      x_sleep = (\<lambda>d. lift_op (onCtx env_ctx)), x_tmp = (\<lambda>q. lift_op (mem_tmp q)), x_sched = sched\<rparr>"

text \<open>A store \<open>New\<close> returned for this client, and the same with other sizes.\<close>

definition simStore :: "int \<Rightarrow> int \<Rightarrow> int \<Rightarrow> sim_state s3store" where
  "simStore retries threshold psize =
     \<lparr>s3_client = simClient, s3_bucket = ''test-bucket'', s3_retries = retries, s3_threshold = threshold,
      s3_partSize = psize\<rparr>"

definition sim_objs :: "sim_state \<Rightarrow> string \<rightharpoonup> bytes" where
  "sim_objs x = mem_objs (fst x)"

definition sim_good :: "sim_state \<Rightarrow> bool" where
  "sim_good x \<longleftrightarrow> mem_good (fst x) \<and> 412 \<notin> set (failures (snd x))"

subsection \<open>The contract of the service\<close>

abbreviation simR :: "sim_state \<Rightarrow> sim_state \<Rightarrow> bool" where
  "simR \<equiv> serviceLater sim_objs sim_good simUploaded"

lemma simR_trans: "simR x y \<Longrightarrow> simR y z \<Longrightarrow> simR x z"
  unfolding serviceLater_def grows_def by (blast intro: map_le_trans)

lemma simR_env: "mgrows (fst x) (fst x') \<Longrightarrow> snd x' = snd x \<Longrightarrow> simR x x'"
  by (auto simp: serviceLater_def grows_def sim_objs_def sim_good_def simUploaded_def split: list.splits if_splits)

lemma simR_uploads:
  assumes "fst x' = fst x" and "set (failures (snd x')) \<subseteq> set (failures (snd x))"
    and "set (up_parts (snd x)) \<subseteq> set (up_parts (snd x'))"
  shows "simR x x'"
  using assms by (auto simp: serviceLater_def grows_def sim_objs_def sim_good_def simUploaded_def split: list.splits if_splits)

lemma simR_refl: "simR x x"
  by (rule simR_uploads) simp_all

text \<open>A call: a turn of the environment, then the operation, whose reply may be lost.\<close>

lemma simCall_turn:
  assumes "simCall m x = (r, x')"
  obtains y r' where "simR x (y, snd x)" and "m (y, snd x) = (r', x')" and "r = r' \<or> r = Inl lost_reply"
proof -
  obtain lost y where t: "env_turn (fst x) = (lost, y)" by (cases "env_turn (fst x)")
  obtain r' x2 where m: "m (y, snd x) = (r', x2)" by (cases "m (y, snd x)")
  have "simR x (y, snd x)" by (rule simR_env) (use env_turn_grows [OF t] in simp_all)
  then show ?thesis using that [of y r'] assms t m by (auto simp: simCall_def)
qed

lemma lost_not_api: "lost_reply \<noteq> apiError n" "simStatus lost_reply = 0" "simCode lost_reply = ''connection reset''"
  by (simp_all add: lost_reply_def apiError_def simStatus_def simCode_def)

lemma alien_api: "\<not> errors_is (apiError n) a" "\<not> errors_is lost_reply a"
  by (simp_all add: apiError_def lost_reply_def)

lemma simWrite_turn:
  assumes "simWrite m x = (e, x')"
  obtains n ns where "simR x x'" and "failures (snd x) = n # ns" and "e = Some (apiError n) \<or> e = Some lost_reply"
  | y r' where "simR x (y, snd x)" and "failures (snd x) = []" and "m (y, snd x) = (r', x')"
    and "e = errOf r' \<or> e = Some lost_reply"
proof -
  obtain r where c: "simCall (\<lambda>x. case failures (snd x) of [] \<Rightarrow> m x
     | n # ns \<Rightarrow> (Inl (apiError n), (fst x, (snd x)\<lparr>failures := ns\<rparr>))) x = (r, x')" and e: "e = errOf r"
    using assms by (auto simp: simWrite_def errPart_def split: prod.splits)
  show ?thesis
  proof (rule simCall_turn [OF c])
    fix y r'
    assume g: "simR x (y, snd x)" and r: "r = r' \<or> r = Inl lost_reply"
      and m: "(case failures (snd (y, snd x)) of [] \<Rightarrow> m (y, snd x)
        | n # ns \<Rightarrow> (Inl (apiError n), (fst (y, snd x), (snd (y, snd x))\<lparr>failures := ns\<rparr>))) = (r', x')"
    show ?thesis
    proof (cases "failures (snd x)")
      case Nil
      then show ?thesis using that(2) [OF g Nil, of r'] m r e by auto
    next
      case (Cons n ns)
      then have x': "x' = (y, (snd x)\<lparr>failures := ns\<rparr>)" "r' = Inl (apiError n)" using m by auto
      have "simR (y, snd x) x'" by (rule simR_uploads) (auto simp: x' Cons)
      then show ?thesis using that(1) [OF simR_trans [OF g] Cons] r e x'(2) by auto
    qed
  qed
qed

lemma simPublish_R: "simPublish k v x = (r, x') \<Longrightarrow> simR x x'"
proof -
  assume p: "simPublish k v x = (r, x')"
  have "fst x' = snd (memPut k v (fst x))" "snd x' = snd x"
    using p by (auto simp: simPublish_def split: prod.splits option.splits)
  then show "simR x x'" using memPut_grows [of "fst x" k v] by (intro simR_env) simp_all
qed

lemma simPublish_ok:
  "simPublish k v x = (Inr u, x') \<Longrightarrow> sim_objs x k = None \<and> sim_objs x' k = Some v"
  by (auto simp: simPublish_def memPut_def sim_objs_def mem_objs_def split: prod.splits option.splits)

lemma simPublish_412:
  "simPublish k v x = (Inl e, x') \<Longrightarrow> e = apiError 412 \<and> sim_objs x' k \<noteq> None"
  by (auto simp: simPublish_def memPut_def sim_objs_def mem_objs_def split: prod.splits option.splits)

text \<open>Completing an upload: its states and its outcomes.\<close>

lemma simFinish_cases:
  assumes "simFinish k uid ps x = (r, x')"
  obtains e where "simR x x'" and "r = Inl e" and "e = apiError 410 \<or> e = apiError 403"
  | v e where "simR x x'" and "simPublish k v x = (Inl e, x')" and "r = Inl e"
  | v y where "simR x x'" and "simAssemble x uid 1 ps = Some v" and "simPublish k v x = (Inr (), y)"
    and "sim_objs x' = sim_objs y" and "r = Inr ()"
proof (cases "(uid, k) \<notin> set (up_open (snd x))")
  case True
  then show ?thesis using that(1) assms simR_refl by (auto simp: simFinish_def)
next
  case False
  note a = assms [unfolded simFinish_def if_not_P [OF False]]
  show ?thesis
  proof (cases "simAssemble x uid 1 ps")
    case None
    then show ?thesis using that(1) a simR_refl by auto
  next
    case (Some v)
    obtain q y where p: "simPublish k v x = (q, y)" by (cases "simPublish k v x")
    note g = simPublish_R [OF p]
    show ?thesis
    proof (cases q)
      case (Inl e)
      then show ?thesis using that(2) a Some p g by auto
    next
      case (Inr u)
      then have x': "x' = (fst y, (snd y)\<lparr>up_open := removeAll (uid, k) (up_open (snd y))\<rparr>)" "r = Inr ()"
        using a Some p by auto
      have "simR y x'" by (rule simR_uploads) (simp_all add: x')
      then show ?thesis using that(3) [OF simR_trans [OF g] Some] p Inr x' by (simp add: sim_objs_def)
    qed
  qed
qed

lemma simAssemble_eq:
  assumes "length bs = length ps"
    and "\<And>i. i < length ps \<Longrightarrow> \<exists>p t. ps ! i = Some p \<and> cp_Number p = j + int i \<and> cp_ETag p = Some t \<and>
      simUploaded x uid (j + int i) t = Some (bs ! i)"
  shows "simAssemble x uid j ps = Some (concat bs)"
  using assms
proof (induction ps arbitrary: bs j)
  case (Cons q ps)
  obtain b bs' where bs: "bs = b # bs'" using Cons.prems(1) by (cases bs) auto
  obtain p t where q: "q = Some p" "cp_Number p = j" "cp_ETag p = Some t" "simUploaded x uid j t = Some b"
    using Cons.prems(2) [of 0] by (auto simp: bs)
  have "simAssemble x uid (j + 1) ps = Some (concat bs')"
  proof (rule Cons.IH)
    show "length bs' = length ps" using Cons.prems(1) by (simp add: bs)
    show "\<exists>p t. ps ! i = Some p \<and> cp_Number p = j + 1 + int i \<and> cp_ETag p = Some t \<and>
        simUploaded x uid (j + 1 + int i) t = Some (bs' ! i)" if "i < length ps" for i
      using Cons.prems(2) [of "Suc i"] that by (simp add: bs algebra_simps)
  qed
  then show ?case by (simp add: q bs)
qed simp

text \<open>A page of the listing.\<close>

lemma simPage_facts:
  assumes "mem_ok m" and "1 \<le> n" and "simPage p n token (keys m) = pg"
  shows "Some k \<in> set (pg_Contents pg) \<Longrightarrow> k \<in> dom (objects m)"
    and "k \<in> dom (objects m) \<Longrightarrow> hasPrefix k p \<Longrightarrow> token_before id token k \<Longrightarrow>
      Some k \<in> set (pg_Contents pg) \<or>
        pg_IsTruncated pg = Some True \<and> (\<forall>k'. Some k' \<in> set (pg_Contents pg) \<longrightarrow> k' < k)"
    and "pg_Contents pg \<noteq> [] \<Longrightarrow> pg_Next pg = Some t \<Longrightarrow> last (pg_Contents pg) = Some t"
proof -
  define found where "found = filter (\<lambda>k. hasPrefix k p \<and> (case token of None \<Rightarrow> True | Some t \<Rightarrow> t < k)) (keys m)"
  have s: "sorted_wrt (<) found" and d: "set (keys m) = dom (objects m)"
    using assms(1) by (simp_all add: found_def mem_ok_def sorted_wrt_filter)
  have pg: "pg_Contents pg = map Some (take (nat n) found)" "pg_IsTruncated pg = Some (int (length found) > n)"
      "pg_Next pg = (if int (length found) > n \<and> take (nat n) found \<noteq> [] then Some (last (take (nat n) found)) else None)"
    using assms(3) by (auto simp: simPage_def Let_def found_def)
  show "k \<in> dom (objects m)" if "Some k \<in> set (pg_Contents pg)"
    using that d by (auto simp: pg found_def dest: in_set_takeD)
  show "Some k \<in> set (pg_Contents pg) \<or>
        pg_IsTruncated pg = Some True \<and> (\<forall>k'. Some k' \<in> set (pg_Contents pg) \<longrightarrow> k' < k)"
    if k: "k \<in> dom (objects m)" "hasPrefix k p" "token_before id token k"
  proof (cases "k \<in> set (take (nat n) found)")
    case True
    then show ?thesis by (simp add: pg)
  next
    case False
    have f: "k \<in> set found" using k d by (simp add: found_def token_before_def split: option.splits)
    note lt = sorted_wrt_take_less [OF s f False]
    have "nat n < length found" using False f by (metis not_le take_all)
    then show ?thesis using lt(2) by (auto simp: pg)
  qed
  show "last (pg_Contents pg) = Some t" if "pg_Contents pg \<noteq> []" "pg_Next pg = Some t"
    using that by (auto simp: pg last_map split: if_splits)
qed

text \<open>Each call leads to a later state and fails with none of the interface's errors.\<close>

lemma lift_env: "lift_op f x = (r, x') \<Longrightarrow> (\<And>y r y'. f y = (r, y') \<Longrightarrow> mgrows y y') \<Longrightarrow> simR x x'"
  by (rule simR_env) (auto simp: lift_op_eq_iff)

lemma simList_call:
  assumes "simList p n token x = (r, x')"
  shows "simR x x'" and "r = Inr (Some pg) \<Longrightarrow>
    1 \<le> n \<and> simPage p n token (keys (snd (fst x'))) = pg \<and> x' = (fst x', snd x)"
  using assms by (auto simp: simList_def elim!: simCall_turn split: if_splits intro: simR_trans)

lemma simGet_call:
  assumes "simGet k x = (r, x')"
  shows "simR x x'" and "r = Inr (Some b) \<Longrightarrow> s_rerr b = None \<Longrightarrow> sim_objs x' k = Some (s_bytes b)"
    and "r = Inl e \<Longrightarrow> e = lost_reply \<or> e = apiError 404 \<and> sim_objs x' k = None"
  using assms
  by (auto simp: simGet_def sim_objs_def mem_objs_def elim!: simCall_turn split: option.splits)

lemma simInitiate_call:
  assumes "simInitiate k x = (r, x')"
  shows "simR x x'" and "r = Inl e \<Longrightarrow> e = lost_reply"
proof -
  obtain y r' where g: "simR x (y, snd x)" and rr: "r = r' \<or> r = Inl lost_reply"
    and x': "x' = (y, (snd x)\<lparr>up_open := (CHR ''u'' # decStr (up_count (snd x)), k) # up_open (snd x),
      up_count := Suc (up_count (snd x))\<rparr>)" and r': "r' = Inr (Some (CHR ''u'' # decStr (up_count (snd x))))"
    using assms by (auto simp: simInitiate_def Let_def elim!: simCall_turn)
  have "simR (y, snd x) x'" by (rule simR_uploads) (simp_all add: x')
  with g show "simR x x'" by (rule simR_trans)
  show "r = Inl e \<Longrightarrow> e = lost_reply" using rr r' by simp
qed

lemma simPart_call:
  assumes "simPart k uid i v x = (r, x')"
  shows "simR x x'" and "r = Inr (Some po) \<Longrightarrow> po_ETag po = Some t \<Longrightarrow> simUploaded x' uid i t = Some v"
    and "r = Inl e \<Longrightarrow> e = lost_reply \<or> e = apiError 410"
proof -
  obtain y r' where g: "simR x (y, snd x)" and rr: "r = r' \<or> r = Inl lost_reply"
    and c: "(if (uid, k) \<notin> set (up_open (snd (y, snd x))) then (Inl (apiError 410), (y, snd x))
     else (Inr (Some \<lparr>po_ETag = Some (CHR ''='' # v), po_CRC32 = None\<rparr>),
           (fst (y, snd x), (snd (y, snd x))\<lparr>up_parts := (uid, i, v) # up_parts (snd (y, snd x))\<rparr>))) = (r', x')"
    using assms unfolding simPart_def by (rule simCall_turn)
  have "simR (y, snd x) x'" by (rule simR_uploads) (use c in \<open>auto split: if_splits\<close>)
  with g show "simR x x'" by (rule simR_trans)
  show "simUploaded x' uid i t = Some v" if "r = Inr (Some po)" "po_ETag po = Some t"
    using that c rr by (auto simp: simUploaded_def split: if_splits)
  show "e = lost_reply \<or> e = apiError 410" if "r = Inl e" using that c rr by (auto split: if_splits)
qed

lemma simAbort_call:
  assumes "simAbort k uid x = (e, x')"
  shows "simR x x'" and "e = Some err \<Longrightarrow> err = lost_reply \<or> err = apiError 410"
proof -
  obtain r where c: "simCall (\<lambda>x. if (uid, k) \<notin> set (up_open (snd x)) then (Inl (apiError 410), x)
     else (Inr (), (fst x, (snd x)\<lparr>up_open := removeAll (uid, k) (up_open (snd x))\<rparr>))) x = (r, x')" and e: "e = errOf r"
    using assms by (auto simp: simAbort_def errPart_def split: prod.splits)
  from c obtain y r' where g: "simR x (y, snd x)" and rr: "r = r' \<or> r = Inl lost_reply"
    and b: "(if (uid, k) \<notin> set (up_open (snd (y, snd x))) then (Inl (apiError 410), (y, snd x))
     else (Inr (), (fst (y, snd x), (snd (y, snd x))\<lparr>up_open := removeAll (uid, k) (up_open (snd (y, snd x)))\<rparr>))) = (r', x')"
    by (rule simCall_turn)
  have "simR (y, snd x) x'" by (rule simR_uploads) (use b in \<open>auto split: if_splits\<close>)
  with g show "simR x x'" by (rule simR_trans)
  show "err = lost_reply \<or> err = apiError 410" if "e = Some err" using that b rr e by (auto split: if_splits)
qed

lemma precondition_api: "simStatus e = 412 \<or> simCode e = ''PreconditionFailed'' \<longleftrightarrow> e = apiError 412"
  by (cases e) (auto simp: simStatus_def simCode_def apiError_def)

lemma api_412: "apiError n = apiError 412 \<longleftrightarrow> n = 412"
  by (simp add: apiError_def)

lemma later_absent: "simR x y \<Longrightarrow> sim_good x \<Longrightarrow> sim_objs y k = None \<Longrightarrow> sim_objs x k = None"
  unfolding serviceLater_def grows_def map_le_def by (metis domIff)

text \<open>A conditional write, of whichever kind: \<open>m\<close> publishes, or says 412, or fails otherwise.\<close>

lemma simWrite_call:
  assumes "simWrite m x = (e, x')"
    and m_R: "\<And>x r x'. m x = (r, x') \<Longrightarrow> simR x x'"
    and m_ok: "\<And>x x'. m x = (Inr (), x') \<Longrightarrow> up_parts (snd x) = P \<Longrightarrow> sim_objs x k = None \<and> sim_objs x' k = Some v"
    and m_412: "\<And>x x'. m x = (Inl (apiError 412), x') \<Longrightarrow> sim_objs x' k \<noteq> None"
    and m_err: "\<And>x e x'. m x = (Inl e, x') \<Longrightarrow> \<exists>n. e = apiError n"
  shows "simR x x'" and "e = None \<Longrightarrow> sim_good x \<Longrightarrow> up_parts (snd x) = P \<Longrightarrow> sim_objs x k = None \<and> sim_objs x' k = Some v"
    and "e = Some (apiError 412) \<Longrightarrow> sim_good x \<Longrightarrow> sim_objs x' k \<noteq> None"
    and "e = Some err \<Longrightarrow> err = lost_reply \<or> (\<exists>n. err = apiError n)"
proof -
  have "simR x x' \<and> (e = None \<longrightarrow> sim_good x \<longrightarrow> up_parts (snd x) = P \<longrightarrow> sim_objs x k = None \<and> sim_objs x' k = Some v) \<and>
    (e = Some (apiError 412) \<longrightarrow> sim_good x \<longrightarrow> sim_objs x' k \<noteq> None) \<and>
    (e = Some err \<longrightarrow> err = lost_reply \<or> (\<exists>n. err = apiError n))"
    using assms(1)
  proof (cases rule: simWrite_turn)
    case (1 n ns)
    then show ?thesis using lost_not_api(1) by (auto simp: api_412 sim_good_def)
  next
    case (2 y r')
    have g: "simR x x'" by (rule simR_trans [OF 2(1) m_R [OF 2(3)]])
    have n: "e = None \<Longrightarrow> r' = Inr ()" using 2(4) by (cases r') auto
    have s: "e = Some err' \<Longrightarrow> err' = lost_reply \<or> r' = Inl err'" for err' using 2(4) by (cases r') auto
    have "sim_objs x k = None \<and> sim_objs x' k = Some v" if "e = None" "sim_good x" "up_parts (snd x) = P"
      using m_ok [of "(y, snd x)" x'] 2(3) n that later_absent [OF 2(1)] by auto
    moreover have "sim_objs x' k \<noteq> None" if "e = Some (apiError 412)"
      using s [OF that] lost_not_api(1) [of 412] m_412 2(3) by metis
    moreover have "err = lost_reply \<or> (\<exists>n. err = apiError n)" if "e = Some err"
      using s [OF that] m_err 2(3) by metis
    ultimately show ?thesis using g by blast
  qed
  then show "simR x x'" and "e = None \<Longrightarrow> sim_good x \<Longrightarrow> up_parts (snd x) = P \<Longrightarrow> sim_objs x k = None \<and> sim_objs x' k = Some v"
    and "e = Some (apiError 412) \<Longrightarrow> sim_good x \<Longrightarrow> sim_objs x' k \<noteq> None"
    and "e = Some err \<Longrightarrow> err = lost_reply \<or> (\<exists>n. err = apiError n)" by blast+
qed

lemma simPut_call:
  assumes "simWrite (simPublish k v) x = (e, x')"
  shows "simR x x'" and "e = None \<Longrightarrow> sim_good x \<Longrightarrow> sim_objs x k = None \<and> sim_objs x' k = Some v"
    and "e = Some (apiError 412) \<Longrightarrow> sim_good x \<Longrightarrow> sim_objs x' k \<noteq> None"
    and "e = Some err \<Longrightarrow> err = lost_reply \<or> (\<exists>n. err = apiError n)"
proof -
  have ok: "sim_objs x1 k = None \<and> sim_objs x2 k = Some v"
    if "simPublish k v x1 = (Inr (), x2)" "up_parts (snd x1) = up_parts (snd x)" for x1 x2
    using simPublish_ok [OF that(1)] .
  have p412: "sim_objs x2 k \<noteq> None" if "simPublish k v x1 = (Inl (apiError 412), x2)" for x1 x2
    using simPublish_412 [OF that] by blast
  have er: "\<exists>n. e = apiError n" if "simPublish k v x1 = (Inl e, x2)" for x1 e x2
    using simPublish_412 [OF that] by blast
  note call = simWrite_call [where m = "simPublish k v" and P = "up_parts (snd x)" and k = k and v = v,
      OF assms simPublish_R ok p412 er]
  show "simR x x'" "e = Some (apiError 412) \<Longrightarrow> sim_good x \<Longrightarrow> sim_objs x' k \<noteq> None"
    "e = Some err \<Longrightarrow> err = lost_reply \<or> (\<exists>n. err = apiError n)" by (rule call; assumption)+
  show "e = None \<Longrightarrow> sim_good x \<Longrightarrow> sim_objs x k = None \<and> sim_objs x' k = Some v" by (rule call(2)) simp_all
qed

lemma simAssemble_parts:
  "up_parts (snd x1) = up_parts (snd x) \<Longrightarrow> simAssemble x1 uid i ps = simAssemble x uid i ps"
proof -
  assume "up_parts (snd x1) = up_parts (snd x)"
  then have "simUploaded x1 = simUploaded x"
    by (intro ext) (simp add: simUploaded_def split: list.splits)
  then show ?thesis by (induction ps arbitrary: i) (simp_all split: option.splits)
qed

lemma simComplete_call:
  assumes "simComplete k uid ps x = (e, x')"
  shows "simR x x'"
    and "e = None \<Longrightarrow> sim_good x \<Longrightarrow> length bs = length ps \<Longrightarrow>
      (\<And>i. i < length ps \<Longrightarrow> \<exists>p t. ps ! i = Some p \<and> cp_Number p = int (i + 1) \<and> cp_ETag p = Some t \<and>
         simUploaded x uid (int (i + 1)) t = Some (bs ! i)) \<Longrightarrow>
      sim_objs x k = None \<and> sim_objs x' k = Some (concat bs)"
    and "e = Some (apiError 412) \<Longrightarrow> sim_good x \<Longrightarrow> sim_objs x' k \<noteq> None"
    and "e = Some err \<Longrightarrow> err = lost_reply \<or> (\<exists>n. err = apiError n)"
proof -
  have w: "simWrite (simFinish k uid ps) x = (e, x')" using assms by (simp add: simComplete_def)
  have R: "simR x x'" if "simFinish k uid ps x = (r, x')" for x r x'
    using that by (rule simFinish_cases) simp_all
  have p412: "sim_objs x' k \<noteq> None" if "simFinish k uid ps x = (Inl (apiError 412), x')" for x x'
    using that by (rule simFinish_cases) (auto simp: apiError_def dest: simPublish_412)
  have err: "\<exists>n. e = apiError n" if "simFinish k uid ps x = (Inl e, x')" for x e x'
    using that by (rule simFinish_cases) (auto dest: simPublish_412)
  have ok: "sim_objs x1 k = None \<and> sim_objs x2 k = Some (the (simAssemble x uid 1 ps))"
    if "simFinish k uid ps x1 = (Inr (), x2)" "up_parts (snd x1) = up_parts (snd x)" for x1 x2
    using that(1)
  proof (rule simFinish_cases)
    fix v y
    assume a: "simAssemble x1 uid 1 ps = Some v" "simPublish k v x1 = (Inr (), y)" "sim_objs x2 = sim_objs y"
    then show ?thesis using simPublish_ok [OF a(2)] simAssemble_parts [OF that(2)] by simp
  qed simp_all
  note call = simWrite_call [where m = "simFinish k uid ps" and P = "up_parts (snd x)" and k = k
      and v = "the (simAssemble x uid 1 ps)", OF w R ok p412 err]
  show "simR x x'" "e = Some (apiError 412) \<Longrightarrow> sim_good x \<Longrightarrow> sim_objs x' k \<noteq> None"
    "e = Some err \<Longrightarrow> err = lost_reply \<or> (\<exists>n. err = apiError n)" by (rule call; assumption)+
  show "sim_objs x k = None \<and> sim_objs x' k = Some (concat bs)"
    if "e = None" "sim_good x" "length bs = length ps"
      "\<And>i. i < length ps \<Longrightarrow> \<exists>p t. ps ! i = Some p \<and> cp_Number p = int (i + 1) \<and> cp_ETag p = Some t \<and>
         simUploaded x uid (int (i + 1)) t = Some (bs ! i)"
  proof -
    have "simAssemble x uid 1 ps = Some (concat bs)"
      by (rule simAssemble_eq [OF that(3)]) (use that(4) in \<open>simp add: add.commute\<close>)
    moreover have "sim_objs x k = None \<and> sim_objs x' k = Some (the (simAssemble x uid 1 ps))"
      by (rule call(2)) (assumption | rule that(1) that(2) refl)+
    ultimately show ?thesis by simp
  qed
qed

subsection \<open>The interpretation\<close>

lemma sim_s3_simps [simp]:
  "s3_client (simStore r th ps) = simClient" "s3_bucket (simStore r th ps) = ''test-bucket''"
  "x_ctx (simEnv sched) = lift_op (onCtx env_ctx)" "x_rand (simEnv sched) n = lift_op (mem_rand n)"
  "x_sleep (simEnv sched) d = lift_op (onCtx env_ctx)" "x_tmp (simEnv sched) q = lift_op (mem_tmp q)"
  "cl_list simClient bk p lim tok = simList p lim tok" "cl_get simClient bk k = simGet k"
  "cl_put simClient bk k v ct = simWrite (simPublish k v)" "cl_initiate simClient bk k ct = simInitiate k"
  "cl_part simClient bk k uid i v = simPart k uid i v" "cl_complete simClient bk k uid cps = simComplete k uid cps"
  "cl_abort simClient bk k uid = simAbort k uid"
  by (simp_all add: simStore_def simEnv_def simClient_def)

lemma sim_precondition: "precondition_failed (simStore r th ps) e \<longleftrightarrow> e = apiError 412"
  using precondition_api by (simp add: precondition_failed_def s3status_def s3code_def simStore_def simClient_def)

lemma sim_ctx: "lift_op (onCtx env_ctx) x = (r, x') \<Longrightarrow> simR x x'"
  by (erule lift_env) (auto intro: mgrows_same dest: onCtx_state)

lemma sim_ctx_err: "lift_op (onCtx env_ctx) x = (Some e, x') \<Longrightarrow> a \<in> {ErrNotFound, ErrExists} \<Longrightarrow> \<not> errors_is e a"
  by (auto simp: lift_op_eq_iff dest!: onCtx_err)

lemma api_alien: "err = lost_reply \<or> (\<exists>n. err = apiError n) \<Longrightarrow> \<not> errors_is err a"
  using alien_api by blast

interpretation sim: s3_service "simEnv sched" "simStore r th ps" sim_objs sim_good simUploaded id for sched r th ps
proof (unfold_locales, unfold sim_s3_simps sim_precondition)
  show "simR s s'" if "lift_op (onCtx env_ctx) s = (ce, s')" for s ce s' by (rule sim_ctx [OF that])
  show "simR s s'" if "lift_op (mem_rand m) s = (rr, s')" for m s rr s'
    by (rule lift_env [OF that]) (auto simp: mem_rand_def intro: mgrows_same)
  show "simR s s'" if "lift_op (onCtx env_ctx) s = (ce, s')" for s ce s' by (rule sim_ctx [OF that])
  show "simR s s'" if "lift_op (mem_tmp q) s = (ce, s')" for q s ce s'
    by (rule lift_env [OF that]) (auto simp: mem_tmp_def intro: mgrows_same split: option.splits nat.splits)
  show "simR s s'" if "simList p n tok s = (lr, s')" for p n tok s lr s' by (rule simList_call(1) [OF that])
  show "simR s s'" if "simGet k s = (gr, s')" for k s gr s' by (rule simGet_call(1) [OF that])
  show "simR s s'" if "simWrite (simPublish k v) s = (ce, s')" for k v s ce s' by (rule simPut_call(1) [OF that])
  show "simR s s'" if "simInitiate k s = (ir, s')" for k s ir s' by (rule simInitiate_call(1) [OF that])
  show "simR s s'" if "simPart k uid i v s = (pr, s')" for k uid i v s pr s' by (rule simPart_call(1) [OF that])
  show "simR s s'" if "simComplete k uid ps s = (ce, s')" for k uid ps s ce s' by (rule simComplete_call(1) [OF that])
  show "simR s s'" if "simAbort k uid s = (ce, s')" for k uid s ce s' by (rule simAbort_call(1) [OF that])
  show "\<not> errors_is e a" if "lift_op (onCtx env_ctx) s = (Some e, s')" "a \<in> {ErrNotFound, ErrExists}" for s e s' a
    by (rule sim_ctx_err [OF that])
  show "\<not> errors_is e a" if "simGet k s = (Inl e, s')" for k s e s' a
    using simGet_call(3) [OF that refl] api_alien by blast
  show "\<not> errors_is e a" if "simWrite (simPublish k v) s = (Some e, s')" for k v s e s' a
    using simPut_call(4) [OF that refl] api_alien by blast
  show "\<not> errors_is e a" if "simInitiate k s = (Inl e, s')" for k s e s' a
    using simInitiate_call(2) [OF that refl] api_alien by blast
  show "\<not> errors_is e a" if "simPart k uid i v s = (Inl e, s')" for k uid i v s e s' a
    using simPart_call(3) [OF that refl] api_alien by blast
  show "\<not> errors_is e a" if "simComplete k uid ps s = (Some e, s')" for k uid ps s e s' a
    using simComplete_call(4) [OF that refl] api_alien by blast
  show "\<not> errors_is e a" if "simAbort k uid s = (Some e, s')" for k uid s e s' a
    using simAbort_call(2) [OF that refl] api_alien by blast
  show "sim_objs s k = None \<and> sim_objs s' k = Some v" if "simWrite (simPublish k v) s = (None, s')" "sim_good s" for k v s s'
    by (rule simPut_call(2) [OF that(1) refl that(2)])
  show "sim_objs s' k \<noteq> None" if "simWrite (simPublish k v) s = (Some e, s')" "sim_good s" "e = apiError 412" for k v s e s'
    using simPut_call(3) [OF that(1) _ that(2)] that(3) by simp
  show "simUploaded s' uid i t = Some v" if "simPart k uid i v s = (Inr (Some po), s')" "po_ETag po = Some t" for k uid i v s po s' t
    by (rule simPart_call(2) [OF that(1) refl that(2)])
  show "sim_objs s' k \<noteq> None" if "simComplete k uid ps s = (Some e, s')" "sim_good s" "e = apiError 412" for k uid ps s e s'
    using simComplete_call(3) [OF that(1) _ that(2)] that(3) by simp
  show "sim_objs s' k = Some (s_bytes b)" if "simGet k s = (Inr (Some b), s')" "s_rerr b = None" for k s b s'
    by (rule simGet_call(2) [OF that(1) refl that(2)])
  show "sim_objs s k = None" if "simGet k s = (Inl e, s')" "sim_good s"
    "s3status (simStore r th ps) e = 404 \<or> s3code (simStore r th ps) e = ''NoSuchKey''" for k s e s'
  proof -
    have "e \<noteq> lost_reply" using that(3) by (auto simp: lost_not_api s3status_def s3code_def simStore_def simClient_def)
    then have "sim_objs s' k = None" using simGet_call(3) [OF that(1) refl] by blast
    then show ?thesis by (rule later_absent [OF simGet_call(1) [OF that(1)] that(2)])
  qed
  show "sim_objs s k = None \<and> sim_objs s' k = Some (concat bs)"
    if "simComplete k uid cps s = (None, s')" "sim_good s" "length bs = length cps"
      "\<And>i. i < length cps \<Longrightarrow> \<exists>p t. cps ! i = Some p \<and> cp_Number p = int (i + 1) \<and> cp_ETag p = Some t \<and>
         simUploaded s uid (int (i + 1)) t = Some (bs ! i)" for k uid cps s s' bs
    by (rule simComplete_call(2) [OF that(1) refl that(2-4)])
  fix p n tok s pg s'
  assume l: "simList p n tok s = (Inr (Some pg), s')" and g: "sim_good s"
  note c = simList_call(2) [OF l refl]
  have mo: "mem_ok (snd (fst s'))"
    using simList_call(1) [OF l] g by (simp add: serviceLater_def grows_def sim_good_def mem_good_def)
  have pg: "simPage p n tok (keys (snd (fst s'))) = pg" "1 \<le> n" using c by simp_all
  show "sim_objs s' k \<noteq> None" if "Some k \<in> set (pg_Contents pg)" for k
    using simPage_facts(1) [OF mo pg(2,1) that] by (auto simp: sim_objs_def mem_objs_def)
  show "Some k \<in> set (pg_Contents pg) \<or>
        pg_IsTruncated pg = Some True \<and> (\<forall>k'. Some k' \<in> set (pg_Contents pg) \<longrightarrow> k' < k)"
    if "sim_objs s k \<noteq> None" "hasPrefix k p" "token_before id tok k" for k
  proof (rule simPage_facts(2) [OF mo pg(2,1) _ that(2,3)])
    have "sim_objs s' k \<noteq> None"
      by (rule notI) (use later_absent [OF simList_call(1) [OF l] g, of k] that(1) in simp)
    then show "k \<in> dom (objects (snd (fst s')))" by (simp add: sim_objs_def mem_objs_def dom_def)
  qed
  show "last (pg_Contents pg) = Some (id t)" if "pg_Contents pg \<noteq> []" "pg_Next pg = Some t" for t
    using simPage_facts(3) [OF mo pg(2,1) that] by simp
qed (erule (1) sim_ctx_err)

end
