(* ===== verification/DemoStores.thy ===== *)
theory DemoStores
  imports CacheMem DiskWalk S3Sim
begin

section \<open>Runs of the storage adapters\<close>

text \<open>
  Small concrete states of the caching store and the disk store, and what their operations
  evaluate to there: the inputs of the witnesses.
\<close>

subsection \<open>The caching store\<close>

definition demoTiers :: tiers where
  "demoTiers = ((calm, \<lparr>objects = [''k'' \<mapsto> ''abc''], keys = [''k'']\<rparr>), mem_empty)"

lemma demo_coherent: "coherent demoTiers"
  by (simp add: demoTiers_def coherent_def mem_good_def mem_ok_def mem_empty_def unshared_def calm_def mem_objs_def)

definition demoMiss :: reader where
  "demoMiss = Miss \<lparr>f_key = ''k'',
     f_body = \<lparr>s_bytes = ''abc'', s_reads = 1, s_rerr = None, s_cerr = None\<rparr>,
     f_tmp = Some \<lparr>sp_file = [], sp_size = 0, sp_name = []\<rparr>, f_eof = False, f_closed = False, f_closeErr = None\<rparr>"

lemma demo_cacheGet: "cacheGet (memTiers False ''/tmp'') ''k'' demoTiers = (Inr demoMiss, demoTiers)"
  by (simp add: cacheGet_def io_bind_def io_check_def io_try_def demoTiers_def demoMiss_def newSpool_def
      lift_world_def snd_world_def lift_op_def snd_op_def mem_world_def onCtx_def env_ctx_def mem_empty_def calm_def
      lossy_def env_turn_def memGet_def memReader_def io_poll_def mem_tmp_def io_onerr_def Let_def report_def)

subsection \<open>The disk store\<close>

definition demoDisk :: disk_state where
  "demoDisk = (calm, \<lparr>fs_nodes = [([], Directory)], tmp_next = 0\<rparr>)"

definition demoStore :: dstore where
  "demoStore = \<lparr>ds_dir = [''data'']\<rparr>"

definition demoDisk1 :: disk_state where
  "demoDisk1 = (calm, \<lparr>fs_nodes = [([], Directory), ([''data''], Directory), ([''data'', ''v1''], Directory)],
     tmp_next = 0\<rparr>)"

lemma demo_dsNew: "dsNew (\<lambda>d. Inr [d]) ''data'' demoDisk = (Inr demoStore, demoDisk1)"
  by (simp add: dsNew_def io_bind_def osMkdirAll_def io_try_def io_wrap_def osStat_def os_call_def disk_turn_def
      demoDisk_def demoDisk1_def demoStore_def calm_def fsLookup_def osMkdir_def setNode_def fail_if_def Let_def)

lemma demo_fs_ok: "fs_ok demoStore demoDisk"
  by (auto simp: fs_ok_def demoDisk_def fsLookup_def split: if_splits)

lemma demo_disk_ok: "disk_ok demoStore demoDisk1"
  by (rule dsNew_ok [OF demo_dsNew demo_fs_ok])

subsection \<open>The S3 store\<close>

definition demoBucket :: sim_state where
  "demoBucket = ((calm, \<lparr>objects = [''a1'' \<mapsto> ''x'', ''a2'' \<mapsto> ''y''], keys = [''a1'', ''a2'']\<rparr>),
     \<lparr>up_open = [], up_parts = [], up_count = 0, failures = []\<rparr>)"

definition demoS3 :: "sim_state s3store" where
  "demoS3 = simStore 8 (128 * 2 ^ 20) (64 * 2 ^ 20)"

definition demoS3Config :: "sim_state s3config" where
  "demoS3Config = \<lparr>sc_Client = Some (Some simClient), sc_Bucket = ''test-bucket'', sc_MaxConflictRetries = 0\<rparr>"

lemma demo_s3New: "s3New (\<lambda>_. False) demoS3Config = Inr demoS3"
  by (simp add: s3New_def demoS3Config_def demoS3_def simStore_def validateBucket_def hasSuffix_def parseAddr_def
      bucketChar_def fail_if_def)

lemma demo_s3List: "s3List (simEnv id) demoS3 ''a'' 5 demoBucket = (Inr [''a1'', ''a2''], demoBucket)"
proof -
  have c: "lift_op (onCtx env_ctx) demoBucket = (None, demoBucket)"
    by (simp add: lift_op_def onCtx_def env_ctx_def demoBucket_def calm_def)
  have "simList ''a'' 5 None demoBucket =
      (Inr (Some \<lparr>pg_Contents = [Some ''a1'', Some ''a2''], pg_IsTruncated = Some False, pg_Next = None\<rparr>), demoBucket)"
    by (simp add: simList_def simCall_def env_turn_def demoBucket_def calm_def simPage_def hasPrefix_def Let_def)
  then show ?thesis
    by (simp add: s3List_def s3Pages.simps [of _ _ _ _ "[]"] io_bind_def io_check_def io_wrap_def c demoS3_def Let_def
        hasPrefix_def)
qed

end
