(* ===== verification/StoreTest.thy ===== *)
theory StoreTest
  imports Memstore
begin

section \<open>The conformance suite for stores (storetest/storetest.go)\<close>

text \<open>
  \<open>storetest.Test\<close> exercises a store in a fresh namespace: objects become visible and stay as they
  are, listings, a race of 32 goroutines for one key, cancellation, independent readers, and sources
  that end early or fail. The suite is translated as a program over the operations of any store; its
  state is the store's together with the failures reported by \<open>t.Errorf\<close>, and \<open>t.Fatalf\<close> ends it.

  A context is live or done. The handle of an opened object is a value that Read moves on; it is read
  under the context given to Get, so \<open>t_read\<close> is told the present state of that context. Buffers are
  values, so what the suite does to its own buffers (\<open>body[0] = '!'\<close>) has no counterpart.
  \<open>fuel\<close> is the number of Read calls after which a loop that reads to the end is given up, as the
  test's deadline does, and \<open>chunk\<close> the free space of the buffer of \<open>io.ReadAll\<close>, less one, when a
  number of bytes have been read.
\<close>

subsection \<open>What is tested\<close>

datatype ctxt = CtxLive | CtxDone

record ('s, 'h) tstore =
  t_list :: "ctxt \<Rightarrow> string \<Rightarrow> int \<Rightarrow> ('s, string list) io"
  t_get :: "ctxt \<Rightarrow> string \<Rightarrow> ('s, 'h) io"
  t_create :: "ctxt \<Rightarrow> string \<Rightarrow> source option \<Rightarrow> ('s, unit) io"
  t_read :: "ctxt \<Rightarrow> nat \<Rightarrow> 'h \<Rightarrow> 's \<Rightarrow> (bytes \<times> rstatus) \<times> 'h \<times> 's"
  t_close :: "'h \<Rightarrow> 's \<Rightarrow> goerr option \<times> 's"

type_synonym 's testing = "'s \<times> string list"

text \<open>A call of the store, whose error is looked at rather than passed on.\<close>

definition call :: "('s \<Rightarrow> 'r \<times> 's) \<Rightarrow> ('s testing, 'r) io" where
  "call f x = (case f (fst x) of (r, s') \<Rightarrow> (Inr r, (s', snd x)))"

definition fatal_if :: "bool \<Rightarrow> string \<Rightarrow> ('s testing, unit) io" where
  "fatal_if b m = io_lift (fail_if b (Msg m))"

definition error_if :: "bool \<Rightarrow> string \<Rightarrow> ('s testing, unit) io" where
  "error_if b m x = (Inr (), if b then (fst x, snd x @ [m]) else x)"

text \<open>\<open>errors.Is(err, k)\<close> for the error of a call.\<close>

definition failsWith :: "goerr + 'a \<Rightarrow> sentinel \<Rightarrow> bool" where
  "failsWith r k = (case r of Inl e \<Rightarrow> errors_is e k | Inr x \<Rightarrow> False)"

definition failed :: "goerr + 'a \<Rightarrow> bool" where
  "failed r = (case r of Inl e \<Rightarrow> True | Inr x \<Rightarrow> False)"

text \<open>A deferred \<open>Close\<close>, of the handle that Get returned, whose error is dropped.\<close>

definition deferClose :: "('s, 'h) tstore \<Rightarrow> 'h \<Rightarrow> ('s testing, 'a) io \<Rightarrow> ('s testing, 'a) io" where
  "deferClose T h m x =
     (case m x of (r, x1) \<Rightarrow> (case t_close T h (fst x1) of (ce, s2) \<Rightarrow> (r, (s2, snd x1))))"

subsection \<open>Reading\<close>

text \<open>\<open>io.ReadAll\<close>, with the bytes read so far.\<close>

fun readRest ::
    "('s, 'h) tstore \<Rightarrow> (nat \<Rightarrow> nat) \<Rightarrow> nat \<Rightarrow> ctxt \<Rightarrow> bytes \<Rightarrow> 'h \<Rightarrow> 's \<Rightarrow> (bytes \<times> goerr option) \<times> 'h \<times> 's" where
  "readRest T chunk 0 cx acc h s = ((acc, Some (Msg ''test timed out'')), h, s)"
| "readRest T chunk (Suc fuel) cx acc h s =
     (case t_read T cx (Suc (chunk (length acc))) h s of
        ((b, status), h', s') \<Rightarrow>
          (case status of
             More \<Rightarrow> readRest T chunk fuel cx (acc @ b) h' s'
           | Eof \<Rightarrow> ((acc @ b, None), h', s')
           | Fail e \<Rightarrow> ((acc @ b, Some e), h', s')))"

text \<open>\<open>io.ReadFull\<close> of \<open>n\<close> bytes.\<close>

fun readFull ::
    "('s, 'h) tstore \<Rightarrow> nat \<Rightarrow> ctxt \<Rightarrow> nat \<Rightarrow> bytes \<Rightarrow> 'h \<Rightarrow> 's \<Rightarrow> (bytes \<times> goerr option) \<times> 'h \<times> 's" where
  "readFull T 0 cx n acc h s = ((acc, Some (Msg ''test timed out'')), h, s)"
| "readFull T (Suc fuel) cx n acc h s =
     (if n \<le> length acc then ((acc, None), h, s)
      else
        (case t_read T cx (n - length acc) h s of
           ((b, status), h', s') \<Rightarrow>
             (case status of
                More \<Rightarrow> readFull T fuel cx n (acc @ b) h' s'
              | Eof \<Rightarrow>
                  ((acc @ b,
                    if n \<le> length (acc @ b) then None
                    else if acc @ b = [] then Some (Msg ''EOF'') else Some (Sentinel UnexpectedEOF)), h', s')
              | Fail e \<Rightarrow> ((acc @ b, if n \<le> length (acc @ b) then None else Some e), h', s'))))"

definition readAndClose ::
    "('s, 'h) tstore \<Rightarrow> (nat \<Rightarrow> nat) \<Rightarrow> nat \<Rightarrow> ctxt \<Rightarrow> 'h \<Rightarrow> 's \<Rightarrow> (bytes \<times> goerr option) \<times> 's" where
  "readAndClose T chunk fuel cx h s =
     (case readRest T chunk fuel cx [] h s of
        ((b, readErr), h', s1) \<Rightarrow>
          (case t_close T h' s1 of (ce, s2) \<Rightarrow> ((b, errors_join [readErr, ce]), s2)))"

definition readAll ::
    "('s, 'h) tstore \<Rightarrow> (nat \<Rightarrow> nat) \<Rightarrow> nat \<Rightarrow> ctxt \<Rightarrow> string \<Rightarrow> 's \<Rightarrow> (bytes \<times> goerr option) \<times> 's" where
  "readAll T chunk fuel cx key s =
     (case t_get T cx key s of
        (Inl e, s1) \<Rightarrow> (([], Some e), s1)
      | (Inr h, s1) \<Rightarrow> readAndClose T chunk fuel cx h s1)"

subsection \<open>Visibility and listings\<close>

definition testSuffix :: "('s, 'h) tstore \<Rightarrow> (nat \<Rightarrow> nat) \<Rightarrow> nat \<Rightarrow> string \<Rightarrow> string \<Rightarrow> ('s testing, unit) io" where
  "testSuffix T chunk fuel p suffix =
     io_bind (call (t_create T CtxLive (p @ suffix) (Some (bytes_source suffix)))) (\<lambda>created.
     io_bind (fatal_if (failed created) ''create'') (\<lambda>_.
     io_bind (call (readAll T chunk fuel CtxLive (p @ suffix))) (\<lambda>(actual, err).
     io_bind (fatal_if (err \<noteq> None \<or> actual \<noteq> suffix) ''visibility/ownership'') (\<lambda>_.
     io_bind (call (readAll T chunk fuel CtxLive (p @ suffix))) (\<lambda>(actual, err).
     io_bind (fatal_if (err \<noteq> None \<or> actual \<noteq> suffix) ''GET ownership'') (\<lambda>_.
     io_bind (call (t_create T CtxLive (p @ suffix) (Some (bytes_source ''overwrite'')))) (\<lambda>again.
     fatal_if (\<not> failsWith again ErrExists) ''duplicate'')))))))"

fun testSuffixes :: "('s, 'h) tstore \<Rightarrow> (nat \<Rightarrow> nat) \<Rightarrow> nat \<Rightarrow> string \<Rightarrow> string list \<Rightarrow> ('s testing, unit) io" where
  "testSuffixes T chunk fuel p [] = io_ret ()"
| "testSuffixes T chunk fuel p (x # xs) =
     io_bind (testSuffix T chunk fuel p x) (\<lambda>_. testSuffixes T chunk fuel p xs)"

fun testLists :: "('s, 'h) tstore \<Rightarrow> string \<Rightarrow> string list \<Rightarrow> int list \<Rightarrow> ('s testing, unit) io" where
  "testLists T p expected [] = io_ret ()"
| "testLists T p expected (limit # limits) =
     io_bind (call (t_list T CtxLive p limit)) (\<lambda>ks.
     io_bind (fatal_if (ks \<noteq> Inr (take (nat (min limit (int (length expected)))) expected)) ''LIST'') (\<lambda>_.
     testLists T p expected limits))"

definition testObjects :: "('s, 'h) tstore \<Rightarrow> (nat \<Rightarrow> nat) \<Rightarrow> nat \<Rightarrow> string \<Rightarrow> ('s testing, unit) io" where
  "testObjects T chunk fuel p =
     io_bind (call (t_get T CtxLive (p @ ''missing''))) (\<lambda>r.
     io_bind (fatal_if (\<not> failsWith r ErrNotFound) ''missing GET'') (\<lambda>_.
     io_bind (testSuffixes T chunk fuel p [''c'', ''a'', ''b'', ''aa'']) (\<lambda>_.
     io_bind (testLists T p [p @ ''a'', p @ ''aa'', p @ ''b'', p @ ''c''] [1, 2, 4, 10]) (\<lambda>_.
     io_bind (call (t_list T CtxLive (p @ ''a'') 10)) (\<lambda>ks.
     fatal_if (ks \<noteq> Inr [p @ ''a'', p @ ''aa'']) ''prefix LIST'')))))"

subsection \<open>The race\<close>

text \<open>
  A goroutine is at its Create, at its Get, at the reading of what it opened, at its List, or at its
  end; each turn is one call, except that the reading of an opened object is one turn.
\<close>

datatype 'h racer = RCreate | RGet | RRead 'h | RList | REnd

definition repeatBytes :: "bytes \<Rightarrow> nat \<Rightarrow> bytes" where
  "repeatBytes b n = concat (replicate n b)"

definition twoDigits :: "nat \<Rightarrow> string" where
  "twoDigits i = (if i < 10 then ''0'' @ decStr i else decStr i)"

definition raceBody :: "nat \<Rightarrow> bytes" where
  "raceBody i = repeatBytes (twoDigits i) 32768"

text \<open>A turn returns the next point, whether the goroutine has won, and the failures it reports.\<close>

definition racerTurn ::
    "('s, 'h) tstore \<Rightarrow> (nat \<Rightarrow> nat) \<Rightarrow> nat \<Rightarrow> string \<Rightarrow> nat \<times> 'h racer \<Rightarrow> 's \<Rightarrow> ('h racer \<times> nat \<times> string list) \<times> 's" where
  "racerTurn T chunk fuel key w s =
     (case w of (i, r) \<Rightarrow>
        (case r of
           RCreate \<Rightarrow>
             (case t_create T CtxLive key (Some (bytes_source (raceBody i))) s of
                (Inr u, s') \<Rightarrow> ((RGet, 1, []), s')
              | (Inl e, s') \<Rightarrow>
                  if errors_is e ErrExists then ((RGet, 0, []), s') else ((REnd, 0, [''race CREATE'']), s'))
         | RGet \<Rightarrow>
             (case t_get T CtxLive key s of
                (Inl e, s') \<Rightarrow> ((REnd, 0, [''race GET'']), s')
              | (Inr h, s') \<Rightarrow> ((RRead h, 0, []), s'))
         | RRead h \<Rightarrow>
             (case readAndClose T chunk fuel CtxLive h s of
                ((actual, err), s') \<Rightarrow>
                  if err \<noteq> None \<or> length actual \<noteq> length (raceBody i) then ((REnd, 0, [''race GET'']), s')
                  else if actual \<noteq> repeatBytes (take 2 actual) 32768
                  then ((RList, 0, [''partial or interleaved value'']), s')
                  else ((RList, 0, []), s'))
         | RList \<Rightarrow>
             (case t_list T CtxLive key 1 s of
                (ks, s') \<Rightarrow> ((REnd, 0, if ks \<noteq> Inr [key] then [''race visibility''] else []), s'))
         | REnd \<Rightarrow> ((REnd, 0, []), s)))"

text \<open>A configuration of the race: who still runs, the winners, the failures, and the store.\<close>

type_synonym ('s, 'h) race = "(nat \<times> 'h racer) list \<times> nat \<times> string list \<times> 's"

definition raceStep ::
    "('s, 'h) tstore \<Rightarrow> (nat \<Rightarrow> nat) \<Rightarrow> nat \<Rightarrow> string \<Rightarrow> nat \<Rightarrow> ('s, 'h) race \<Rightarrow> ('s, 'h) race" where
  "raceStep T chunk fuel key j c =
     (case c of (ws, wins, errs, s) \<Rightarrow>
        (case racerTurn T chunk fuel key (ws ! j) s of
           ((r, n, es), s') \<Rightarrow>
             ((if r = REnd then dropNth j ws else ws[j := (fst (ws ! j), r)]), wins + n, errs @ es, s')))"

inductive race_step :: "('s, 'h) tstore \<Rightarrow> (nat \<Rightarrow> nat) \<Rightarrow> nat \<Rightarrow> string \<Rightarrow> ('s, 'h) race \<Rightarrow> ('s, 'h) race \<Rightarrow> bool"
  for T chunk fuel key where
  turn: "j < length (fst c) \<Longrightarrow> race_step T chunk fuel key c (raceStep T chunk fuel key j c)"

inductive_cases race_stepE: "race_step T chunk fuel key c c'"

fun racerWeight :: "nat \<times> 'h racer \<Rightarrow> nat" where
  "racerWeight (i, RCreate) = 5"
| "racerWeight (i, RGet) = 4"
| "racerWeight (i, RRead h) = 3"
| "racerWeight (i, RList) = 2"
| "racerWeight (i, REnd) = 1"

lemma racerWeight_pos [simp]: "0 < racerWeight w"
  by (cases w rule: racerWeight.cases) simp_all

lemma racerTurn_less:
  assumes "racerTurn T chunk fuel key (i, r) s = ((r', n, es), s')" and "r' \<noteq> REnd"
  shows "racerWeight (i, r') < racerWeight (i, r)"
  using assms by (cases r) (auto simp: racerTurn_def split: prod.splits sum.splits if_splits)

lemma raceStep_less:
  assumes "j < length ws" and "raceStep T chunk fuel key j (ws, wins, errs, s) = (ws', wins', errs', s')"
  shows "sum_list (map racerWeight ws') < sum_list (map racerWeight ws)"
proof -
  obtain r n es s1 where t: "racerTurn T chunk fuel key (ws ! j) s = ((r, n, es), s1)"
    by (metis prod.exhaust)
  show ?thesis
  proof (cases "r = REnd")
    case True
    then have "ws' = dropNth j ws" using assms(2) t by (simp add: raceStep_def)
    then show ?thesis using sum_dropNth_less [OF assms(1)] by simp
  next
    case False
    then have "ws' = ws[j := (fst (ws ! j), r)]" using assms(2) t by (simp add: raceStep_def)
    moreover have "racerWeight (fst (ws ! j), r) < racerWeight (ws ! j)"
      using racerTurn_less [of T chunk fuel key "fst (ws ! j)" "snd (ws ! j)"] t False by simp
    ultimately show ?thesis using sum_update_less [OF assms(1)] by blast
  qed
qed

text \<open>\<open>wg.Wait()\<close>: turns in the order of a scheduler until nobody is left.\<close>

function runRace ::
    "('s, 'h) tstore \<Rightarrow> (nat \<Rightarrow> nat) \<Rightarrow> nat \<Rightarrow> string \<Rightarrow> (nat \<Rightarrow> nat) \<Rightarrow> nat \<Rightarrow> ('s, 'h) race \<Rightarrow> ('s, 'h) race" where
  "runRace T chunk fuel key sched t c =
     (if fst c = [] then c
      else runRace T chunk fuel key sched (Suc t) (raceStep T chunk fuel key (sched t mod length (fst c)) c))"
  by pat_completeness auto
termination
proof (relation "measure (\<lambda>(T, chunk, fuel, key, sched, t, c). sum_list (map racerWeight (fst c)))", goal_cases)
  case (2 T chunk fuel key sched t c)
  obtain ws wins errs s where c: "c = (ws, wins, errs, s)" by (metis prod.exhaust)
  obtain ws' wins' errs' s' where st: "raceStep T chunk fuel key (sched t mod length ws) c = (ws', wins', errs', s')"
    by (metis prod.exhaust)
  have "sched t mod length ws < length ws" using 2 c by simp
  from raceStep_less [OF this st [unfolded c]] show ?case using st c by simp
qed simp

declare runRace.simps [simp del]

definition testRace ::
    "('s, 'h) tstore \<Rightarrow> (nat \<Rightarrow> nat) \<Rightarrow> nat \<Rightarrow> (nat \<Rightarrow> nat) \<Rightarrow> string \<Rightarrow> ('s testing, unit) io" where
  "testRace T chunk fuel sched p =
     io_bind (\<lambda>x. case runRace T chunk fuel (p @ ''race'') sched 0 (map (\<lambda>i. (i, RCreate)) [0..<32], 0, [], fst x) of
       (ws, wins, errs, s') \<Rightarrow> (Inr wins, (s', snd x @ errs))) (\<lambda>wins.
     fatal_if (wins \<noteq> 1) ''winners'')"

subsection \<open>Cancellation, readers and sources\<close>

definition testCancelled :: "('s, 'h) tstore \<Rightarrow> string \<Rightarrow> ('s testing, unit) io" where
  "testCancelled T p =
     io_bind (call (t_get T CtxDone (p @ ''a''))) (\<lambda>r.
     io_bind (error_if (\<not> failsWith r Canceled) ''GET cancellation'') (\<lambda>_.
     io_bind (call (t_list T CtxDone p 1)) (\<lambda>r.
     io_bind (error_if (\<not> failsWith r Canceled) ''LIST cancellation'') (\<lambda>_.
     io_bind (call (t_create T CtxDone (p @ ''cancelled'') None)) (\<lambda>r.
     error_if (\<not> failsWith r Canceled) ''CREATE cancellation'')))))"

fun testSources :: "('s, 'h) tstore \<Rightarrow> string \<Rightarrow> (string \<times> source) list \<Rightarrow> ('s testing, unit) io" where
  "testSources T p [] = io_ret ()"
| "testSources T p ((name, body) # cases) =
     io_bind (call (t_create T CtxLive (p @ name) (Some body))) (\<lambda>r.
     io_bind (fatal_if (\<not> failed r) ''accepted'') (\<lambda>_.
     io_bind (call (t_get T CtxLive (p @ name))) (\<lambda>r.
     io_bind (if failsWith r ErrNotFound then io_ret ()
              else (case r of Inl e \<Rightarrow> fatal_if True ''published incomplete''
                            | Inr h \<Rightarrow> deferClose T h (fatal_if True ''published incomplete''))) (\<lambda>_.
     testSources T p cases))))"

definition incompleteSources :: "(string \<times> source) list" where
  "incompleteSources =
     [(''short-source'', \<lparr>src_size = 20, src_data = ''short'', src_err = None\<rparr>),
      (''failed-source'', \<lparr>src_size = 20, src_data = [], src_err = Some (Msg ''test source failure'')\<rparr>)]"

text \<open>The three readers of \<open>reader-at\<close>; the second is read while the first is half way.\<close>

definition testReaders :: "('s, 'h) tstore \<Rightarrow> (nat \<Rightarrow> nat) \<Rightarrow> nat \<Rightarrow> string \<Rightarrow> ('s testing, unit) io" where
  "testReaders T chunk fuel p =
     io_bind (call (t_create T CtxLive (p @ ''reader-at'') (Some (bytes_source ''streaming value'')))) (\<lambda>created.
     io_bind (fatal_if (failed created) ''create'') (\<lambda>_.
     io_bind (call (t_get T CtxLive (p @ ''reader-at''))) (\<lambda>r1.
     case r1 of Inl e \<Rightarrow> fatal_if True ''get'' | Inr first \<Rightarrow>
     deferClose T first (
     io_bind (call (t_get T CtxLive (p @ ''reader-at''))) (\<lambda>r2.
     case r2 of Inl e \<Rightarrow> fatal_if True ''get'' | Inr second \<Rightarrow>
     deferClose T second (
     io_bind (call (\<lambda>s. case readFull T fuel CtxLive 3 [] first s of (out, first', s') \<Rightarrow> ((out, first'), s')))
       (\<lambda>((b, err), first').
     io_bind (fatal_if (err \<noteq> None) ''read'') (\<lambda>_.
     io_bind (call (\<lambda>s. case readRest T chunk fuel CtxLive [] second s of (out, second', s') \<Rightarrow> (out, s'))) (\<lambda>(b, err).
     io_bind (fatal_if (err \<noteq> None \<or> b \<noteq> ''streaming value'') ''Get readers share a cursor'') (\<lambda>_.
     io_bind (call (\<lambda>s. case readRest T chunk fuel CtxLive [] first' s of (out, first'', s') \<Rightarrow> (out, s'))) (\<lambda>(b, err).
     io_bind (fatal_if (err \<noteq> None \<or> b \<noteq> ''eaming value'') ''first reader'') (\<lambda>_.
     io_bind (call (t_get T CtxLive (p @ ''reader-at''))) (\<lambda>r3.
     case r3 of Inl e \<Rightarrow> fatal_if True ''get'' | Inr r \<Rightarrow>
     deferClose T r (
     io_bind (call (\<lambda>s. case t_read T CtxDone 3 r s of (out, r', s') \<Rightarrow> (out, s'))) (\<lambda>(b, status).
     io_bind (fatal_if (\<not> (case status of Fail e \<Rightarrow> errors_is e Canceled | _ \<Rightarrow> False)) ''read after cancellation'') (\<lambda>_.
     testSources T p incompleteSources))))))))))))))))"

definition storeTest ::
    "('s, 'h) tstore \<Rightarrow> (nat \<Rightarrow> nat) \<Rightarrow> nat \<Rightarrow> (nat \<Rightarrow> nat) \<Rightarrow> string \<Rightarrow> ('s testing, unit) io" where
  "storeTest T chunk fuel sched p =
     io_bind (testObjects T chunk fuel p) (\<lambda>_.
     io_bind (testRace T chunk fuel sched p) (\<lambda>_.
     io_bind (testCancelled T p) (\<lambda>_.
     testReaders T chunk fuel p)))"

end
