(* ===== verification/StoreTestFacts.thy ===== *)
theory StoreTestFacts
  imports StoreTest
begin

section \<open>What passes the conformance suite\<close>

text \<open>
  \<open>exact_store\<close> states what each operation does when nothing else happens: it is the contract of
  \<open>store.go\<close> without other writers or faults, with the documented error for every refusal. Any such
  store passes the suite in a fresh namespace, whatever the order in which the 32 goroutines of the
  race take their turns. The in-memory store is one.
\<close>

subsection \<open>Listings are determined\<close>

lemma listing_unique:
  assumes "sorted_wrt (<) ks" and "sorted_wrt (<) (xs :: string list)" and "set ks \<subseteq> set xs" and "length ks \<le> n"
    and "\<forall>k\<in>set xs. k \<in> set ks \<or> (length ks = n \<and> (\<forall>k'\<in>set ks. k' < k))"
  shows "ks = take n xs"
  using assms
proof (induction xs arbitrary: ks n)
  case (Cons a xs)
  show ?case
  proof (cases ks)
    case Nil
    then show ?thesis using Cons.prems(5) by (cases n) auto
  next
    case (Cons k rest)
    have "a \<in> set ks"
    proof (rule ccontr)
      assume "a \<notin> set ks"
      then have "k < a" using Cons.prems(5) Cons by auto
      moreover have "k = a \<or> a < k" using Cons.prems(2,3) Cons by auto
      ultimately show False by (auto dest: order.asym)
    qed
    moreover have "\<forall>x\<in>set rest. k < x" using Cons.prems(1) Cons by simp
    moreover have "k = a \<or> a < k" using Cons.prems(2,3) Cons by auto
    ultimately have k: "k = a" using Cons by (auto dest: order.asym)
    obtain m where m: "n = Suc m" using Cons.prems(4) Cons by (cases n) auto
    have "rest = take m xs"
    proof (rule Cons.IH)
      show "sorted_wrt (<) rest" "sorted_wrt (<) xs" using Cons.prems(1,2) Cons by simp_all
      show "set rest \<subseteq> set xs" using Cons.prems(1,3) Cons k by auto
      show "length rest \<le> m" using Cons.prems(4) Cons m by simp
      show "\<forall>x\<in>set xs. x \<in> set rest \<or> (length rest = m \<and> (\<forall>x'\<in>set rest. x' < x))"
        using Cons.prems(2,5) Cons k m by auto
    qed
    then show ?thesis using Cons k m by simp
  qed
qed simp

lemma is_listing_take:
  assumes "is_listing p n m m ks" and "sorted_wrt (<) xs" and "set xs = {k \<in> dom m. hasPrefix k p}" and "0 \<le> n"
  shows "ks = take (nat n) xs"
  by (rule listing_unique) (use assms in \<open>auto simp: is_listing_def\<close>)

lemma is_listing_own:
  assumes "is_listing k 1 m m ks" and "k \<in> dom m"
  shows "ks = [k]"
proof -
  have own: "hasPrefix k k" by (simp add: hasPrefix_def)
  have "k \<in> set ks"
  proof (rule ccontr)
    assume "k \<notin> set ks"
    then have "length ks = 1" "\<forall>k'\<in>set ks. k' < k" using assms own by (auto simp: is_listing_def)
    then obtain k' where "k' \<in> set ks" "k' < k" by (cases ks) auto
    moreover have "k \<le> k'" using \<open>k' \<in> set ks\<close> assms(1) hasPrefix_le by (auto simp: is_listing_def)
    ultimately show False by simp
  qed
  moreover have "length ks \<le> 1" using assms(1) by (simp add: is_listing_def)
  ultimately show ?thesis by (cases ks) auto
qed

subsection \<open>The bodies of the race\<close>

lemma twoDigits_length: "i < 32 \<Longrightarrow> length (twoDigits i) = 2"
  by (subst twoDigits_def) (subst decStr.simps, subst (2) decStr.simps, auto simp: decStr.simps [of "i div 10"])

lemma repeatBytes_length: "length (repeatBytes b n) = n * length b"
  by (induction n) (simp_all add: repeatBytes_def)

lemma raceBody_length: "i < 32 \<Longrightarrow> length (raceBody i) = 65536"
  by (simp add: raceBody_def repeatBytes_length twoDigits_length)

lemma raceBody_pure:
  assumes "i < 32"
  shows "repeatBytes (take 2 (raceBody i)) 32768 = raceBody i"
proof -
  have "raceBody i = twoDigits i @ repeatBytes (twoDigits i) 32767"
    by (simp add: raceBody_def repeatBytes_def flip: concat.simps replicate_Suc)
  then have "take 2 (raceBody i) = twoDigits i" using twoDigits_length [OF assms] by simp
  then show ?thesis by (simp add: raceBody_def)
qed

subsection \<open>A store without faults\<close>

definition unmoved :: "('s \<Rightarrow> string \<rightharpoonup> bytes) \<Rightarrow> ('s \<Rightarrow> bool) \<Rightarrow> 's \<Rightarrow> 's \<Rightarrow> bool" where
  "unmoved objs ok s s' \<longleftrightarrow> ok s' \<and> objs s' = objs s"

definition incomplete :: "source \<Rightarrow> bool" where
  "incomplete v \<longleftrightarrow> 0 \<le> src_size v \<and> (src_err v \<noteq> None \<or> int (length (src_data v)) < src_size v)"

text \<open>\<open>has h b\<close>: the open handle \<open>h\<close> has the bytes \<open>b\<close> still to be read.\<close>

locale exact_store =
  fixes T :: "('s, 'h) tstore"
    and objs :: "'s \<Rightarrow> string \<rightharpoonup> bytes"
    and ok :: "'s \<Rightarrow> bool"
    and has :: "'h \<Rightarrow> bytes \<Rightarrow> bool"
  assumes get_some: "ok s \<Longrightarrow> objs s k = Some b \<Longrightarrow>
      \<exists>h s'. t_get T CtxLive k s = (Inr h, s') \<and> has h b \<and> unmoved objs ok s s'"
    and get_none: "ok s \<Longrightarrow> objs s k = None \<Longrightarrow>
      \<exists>e s'. t_get T CtxLive k s = (Inl e, s') \<and> errors_is e ErrNotFound \<and> unmoved objs ok s s'"
    and get_done: "ok s \<Longrightarrow>
      \<exists>e s'. t_get T CtxDone k s = (Inl e, s') \<and> errors_is e Canceled \<and> unmoved objs ok s s'"
    and list_live: "ok s \<Longrightarrow> 0 < n \<Longrightarrow>
      \<exists>ks s'. t_list T CtxLive p n s = (Inr ks, s') \<and> is_listing p n (objs s) (objs s) ks \<and> unmoved objs ok s s'"
    and list_done: "ok s \<Longrightarrow>
      \<exists>e s'. t_list T CtxDone p n s = (Inl e, s') \<and> errors_is e Canceled \<and> unmoved objs ok s s'"
    and create_new: "ok s \<Longrightarrow> objs s k = None \<Longrightarrow>
      \<exists>s'. t_create T CtxLive k (Some (bytes_source b)) s = (Inr (), s') \<and> ok s' \<and> objs s' = (objs s)(k \<mapsto> b)"
    and create_old: "ok s \<Longrightarrow> objs s k \<noteq> None \<Longrightarrow>
      \<exists>e s'. t_create T CtxLive k (Some (bytes_source b)) s = (Inl e, s') \<and> errors_is e ErrExists \<and> unmoved objs ok s s'"
    and create_incomplete: "ok s \<Longrightarrow> incomplete v \<Longrightarrow>
      \<exists>e s'. t_create T CtxLive k (Some v) s = (Inl e, s') \<and> unmoved objs ok s s'"
    and create_done: "ok s \<Longrightarrow>
      \<exists>e s'. t_create T CtxDone k vo s = (Inl e, s') \<and> errors_is e Canceled \<and> unmoved objs ok s s'"
    and read_live: "ok s \<Longrightarrow> has h b \<Longrightarrow> 0 < m \<Longrightarrow>
      \<exists>c st h' b' s'. t_read T CtxLive m h s = ((c, st), h', s') \<and> b = c @ b' \<and> length c \<le> m \<and> has h' b' \<and>
        (st = More \<and> c \<noteq> [] \<or> st = Eof \<and> b' = []) \<and> unmoved objs ok s s'"
    and read_done: "ok s \<Longrightarrow> has h b \<Longrightarrow>
      \<exists>c e h' s'. t_read T CtxDone m h s = ((c, Fail e), h', s') \<and> errors_is e Canceled \<and> unmoved objs ok s s'"
    and close_ok: "ok s \<Longrightarrow> \<exists>s'. t_close T h s = (None, s') \<and> unmoved objs ok s s'"
begin

abbreviation unm :: "'s \<Rightarrow> 's \<Rightarrow> bool" where
  "unm \<equiv> unmoved objs ok"

lemma unm_trans: "unm s t \<Longrightarrow> unm t u \<Longrightarrow> unm s u"
  by (simp add: unmoved_def)

lemma unmD: "unm s s' \<Longrightarrow> ok s'" "unm s s' \<Longrightarrow> objs s' = objs s"
  by (simp_all add: unmoved_def)

lemma bind_call: "f s = (r, s') \<Longrightarrow> io_bind (call f) g (s, u) = g r (s', u)"
  by (simp add: io_bind_def call_def)

lemma fatal_if_False: "io_bind (fatal_if False m) g = g ()" "fatal_if False m x = (Inr (), x)"
  by (simp_all add: fatal_if_def)

lemma error_if_False: "io_bind (error_if False m) g = g ()" "error_if False m x = (Inr (), x)"
  by (simp_all add: error_if_def io_bind_def fun_eq_iff)

lemmas steps = bind_call fatal_if_False error_if_False

subsection \<open>Reading\<close>

lemma readRest_all:
  assumes "ok s" and "has h b" and "length b < fuel"
  shows "\<exists>h' s'. readRest T chunk fuel CtxLive acc h s = ((acc @ b, None), h', s') \<and> unm s s'"
  using assms
proof (induction fuel arbitrary: acc h b s)
  case (Suc fuel)
  obtain c st h' b' s1 where r: "t_read T CtxLive (Suc (chunk (length acc))) h s = ((c, st), h', s1)"
      and b: "b = c @ b'" and h': "has h' b'" and st: "st = More \<and> c \<noteq> [] \<or> st = Eof \<and> b' = []" and u: "unm s s1"
    using read_live [OF Suc.prems(1,2), of "Suc (chunk (length acc))"] by auto
  from st show ?case
  proof
    assume m: "st = More \<and> c \<noteq> []"
    then have "length b' < fuel" using Suc.prems(3) b by (cases c) auto
    from Suc.IH [OF unmD(1) [OF u] h' this, of "acc @ c"] obtain h'' s'
      where "readRest T chunk fuel CtxLive (acc @ c) h' s1 = (((acc @ c) @ b', None), h'', s')" "unm s1 s'"
      by blast
    then show ?thesis using r m b unm_trans [OF u] by auto
  qed (use r b u in auto)
qed simp

lemma readAndClose_all:
  assumes "ok s" and "has h b" and "length b < fuel"
  shows "\<exists>s'. readAndClose T chunk fuel CtxLive h s = ((b, None), s') \<and> unm s s'"
proof -
  obtain h' s1 where r: "readRest T chunk fuel CtxLive [] h s = ((b, None), h', s1)" and u: "unm s s1"
    using readRest_all [OF assms, of chunk "[]"] by auto
  obtain s2 where "t_close T h' s1 = (None, s2)" "unm s1 s2" using close_ok [OF unmD(1) [OF u]] by blast
  then show ?thesis using r unm_trans [OF u] by (auto simp: readAndClose_def)
qed

lemma readAll_all:
  assumes "ok s" and "objs s k = Some b" and "length b < fuel"
  shows "\<exists>s'. readAll T chunk fuel CtxLive k s = ((b, None), s') \<and> unm s s'"
proof -
  obtain h s1 where g: "t_get T CtxLive k s = (Inr h, s1)" "has h b" and u: "unm s s1"
    using get_some [OF assms(1,2)] by blast
  obtain s2 where "readAndClose T chunk fuel CtxLive h s1 = ((b, None), s2)" "unm s1 s2"
    using readAndClose_all [OF unmD(1) [OF u] g(2) assms(3)] by blast
  then show ?thesis using g unm_trans [OF u] by (auto simp: readAll_def)
qed

lemma readFull_prefix:
  assumes "ok s" and "has h b" and "n - length acc < fuel" and "length acc \<le> n" and "n \<le> length acc + length b"
  shows "\<exists>h' s'. readFull T fuel CtxLive n acc h s = ((take n (acc @ b), None), h', s') \<and>
    has h' (drop (n - length acc) b) \<and> unm s s'"
  using assms
proof (induction fuel arbitrary: acc h b s)
  case (Suc fuel)
  show ?case
  proof (cases "n \<le> length acc")
    case True
    then show ?thesis using Suc.prems by (auto simp: unmoved_def)
  next
    case False
    obtain c st h' b' s1 where r: "t_read T CtxLive (n - length acc) h s = ((c, st), h', s1)"
        and b: "b = c @ b'" and l: "length c \<le> n - length acc" and h': "has h' b'"
        and st: "st = More \<and> c \<noteq> [] \<or> st = Eof \<and> b' = []" and u: "unm s s1"
      using read_live [OF Suc.prems(1,2), of "n - length acc"] False by auto
    from st show ?thesis
    proof
      assume m: "st = More \<and> c \<noteq> []"
      have "n - length (acc @ c) < fuel" using Suc.prems(3) False m by (cases c) auto
      moreover have "length (acc @ c) \<le> n" "n \<le> length (acc @ c) + length b'" using l False b Suc.prems(5) by auto
      ultimately obtain h'' s' where
          "readFull T fuel CtxLive n (acc @ c) h' s1 = ((take n ((acc @ c) @ b'), None), h'', s')"
          "has h'' (drop (n - length (acc @ c)) b')" "unm s1 s'"
        using Suc.IH [OF unmD(1) [OF u] h', of "acc @ c"] by blast
      then show ?thesis using r m b False l unm_trans [OF u] by auto
    next
      assume e: "st = Eof \<and> b' = []"
      then have "n = length acc + length c" using Suc.prems(5) b l False by auto
      then show ?thesis using r e b False h' u by auto
    qed
  qed
qed simp

lemma deferClose_ok:
  assumes "m (s, u) = (r, (s', u))" and "ok s'"
  shows "\<exists>s''. deferClose T h m (s, u) = (r, (s'', u)) \<and> unm s' s''"
  using close_ok [OF assms(2), of h] assms(1) by (auto simp: deferClose_def)

subsection \<open>Visibility and listings\<close>

lemma testSuffix_ok:
  assumes "ok s" and "objs s (p @ x) = None" and "length x < fuel"
  shows "\<exists>s'. testSuffix T chunk fuel p x (s, u) = (Inr (), (s', u)) \<and> ok s' \<and> objs s' = (objs s)(p @ x \<mapsto> x)"
proof -
  obtain s1 where c: "t_create T CtxLive (p @ x) (Some (bytes_source x)) s = (Inr (), s1)"
      and s1: "ok s1" "objs s1 = (objs s)(p @ x \<mapsto> x)"
    using create_new [OF assms(1,2)] by blast
  have l1: "objs s1 (p @ x) = Some x" using s1(2) by simp
  obtain s2 where r1: "readAll T chunk fuel CtxLive (p @ x) s1 = ((x, None), s2)" and u2: "unm s1 s2"
    using readAll_all [OF s1(1) l1 assms(3)] by blast
  have l2: "objs s2 (p @ x) = Some x" using l1 unmD(2) [OF u2] by simp
  obtain s3 where r2: "readAll T chunk fuel CtxLive (p @ x) s2 = ((x, None), s3)" and u3: "unm s2 s3"
    using readAll_all [OF unmD(1) [OF u2] l2 assms(3)] by blast
  have "objs s3 (p @ x) \<noteq> None" using l2 unmD(2) [OF u3] by simp
  then obtain e s4 where o: "t_create T CtxLive (p @ x) (Some (bytes_source ''overwrite'')) s3 = (Inl e, s4)"
      "errors_is e ErrExists" "unm s3 s4"
    using create_old [OF unmD(1) [OF u3]] by blast
  have "testSuffix T chunk fuel p x (s, u) = (Inr (), (s4, u))"
    by (simp add: testSuffix_def steps c r1 r2 o failsWith_def failed_def)
  then show ?thesis using s1 unm_trans [OF u2 unm_trans [OF u3 o(3)]] by (auto simp: unmoved_def)
qed

lemma testSuffixes_ok:
  assumes "ok s" and "distinct xs" and "\<forall>x\<in>set xs. objs s (p @ x) = None \<and> length x < fuel"
  shows "\<exists>s'. testSuffixes T chunk fuel p xs (s, u) = (Inr (), (s', u)) \<and> ok s' \<and>
    objs s' = fold (\<lambda>x m. m(p @ x \<mapsto> x)) xs (objs s)"
  using assms
proof (induction xs arbitrary: s)
  case (Cons x xs)
  obtain s1 where t: "testSuffix T chunk fuel p x (s, u) = (Inr (), (s1, u))"
      and s1: "ok s1" "objs s1 = (objs s)(p @ x \<mapsto> x)"
    using testSuffix_ok [OF Cons.prems(1), of p x fuel chunk u] Cons.prems(3) by auto
  have "\<forall>y\<in>set xs. objs s1 (p @ y) = None \<and> length y < fuel" and d: "distinct xs"
    using Cons.prems(2,3) s1(2) by auto
  then obtain s2 where "testSuffixes T chunk fuel p xs (s1, u) = (Inr (), (s2, u))" "ok s2"
      "objs s2 = fold (\<lambda>x m. m(p @ x \<mapsto> x)) xs (objs s1)"
    using Cons.IH [OF s1(1) d] by blast
  then show ?case by (simp add: io_bind_def t s1(2) del: fun_upd_apply)
qed simp

lemma listed:
  assumes "ok s" and "sorted_wrt (<) xs" and "set xs = {k \<in> dom (objs s). hasPrefix k p}" and "0 < n"
  shows "\<exists>s'. t_list T CtxLive p n s = (Inr (take (nat n) xs), s') \<and> unm s s'"
  using list_live [OF assms(1,4), of p] is_listing_take [OF _ assms(2,3)] assms(4) by (metis less_imp_le)

lemma testLists_ok:
  assumes "ok s" and "sorted_wrt (<) xs" and "set xs = {k \<in> dom (objs s). hasPrefix k p}" and "\<forall>n\<in>set ns. 0 < n"
  shows "\<exists>s'. testLists T p xs ns (s, u) = (Inr (), (s', u)) \<and> unm s s'"
  using assms
proof (induction ns arbitrary: s)
  case (Cons n ns)
  obtain s1 where l: "t_list T CtxLive p n s = (Inr (take (nat n) xs), s1)" and u1: "unm s s1"
    using listed [OF Cons.prems(1-3)] Cons.prems(4) by auto
  obtain s2 where "testLists T p xs ns (s1, u) = (Inr (), (s2, u))" and u2: "unm s1 s2"
    using Cons.IH [OF unmD(1) [OF u1] Cons.prems(2)] Cons.prems(3,4) unmD(2) [OF u1] by auto
  moreover have "take (nat (min n (int (length xs)))) xs = take (nat n) xs"
    by (simp add: min_def)
  ultimately show ?case using l unm_trans [OF u1 u2] by (auto simp: steps)
qed (simp add: unmoved_def)

end

text \<open>The namespace of the suite is empty at first; then its four objects are in it.\<close>

definition fresh :: "string \<Rightarrow> (string \<rightharpoonup> bytes) \<Rightarrow> bool" where
  "fresh p m \<longleftrightarrow> (\<forall>k\<in>dom m. \<not> hasPrefix k p)"

definition fourObjects :: "string \<Rightarrow> (string \<rightharpoonup> bytes) \<Rightarrow> string \<rightharpoonup> bytes" where
  "fourObjects p m = m(p @ ''c'' \<mapsto> ''c'', p @ ''a'' \<mapsto> ''a'', p @ ''b'' \<mapsto> ''b'', p @ ''aa'' \<mapsto> ''aa'')"

lemma freshD: "fresh p m \<Longrightarrow> m (p @ x) = None"
  using hasPrefix_append [of p x] by (fastforce simp: fresh_def dom_def)

lemma append_less [simp]: "(p @ x < p @ y) = (x < (y :: string))"
  by (induction p) simp_all

lemma four_sorted: "sorted_wrt (<) [p @ ''a'', p @ ''aa'', p @ ''b'', p @ ''c'']"
  by simp

lemma four_keys:
  assumes "fresh p m"
  shows "set [p @ ''a'', p @ ''aa'', p @ ''b'', p @ ''c''] = {k \<in> dom (fourObjects p m). hasPrefix k p}"
  using assms by (auto simp: fourObjects_def fresh_def)

lemma four_a_keys:
  assumes "fresh p m"
  shows "set [p @ ''a'', p @ ''aa''] = {k \<in> dom (fourObjects p m). hasPrefix k (p @ ''a'')}"
proof -
  have "hasPrefix k p" if "hasPrefix k (p @ ''a'')" for k
    using that by (auto elim!: hasPrefixE)
  then have "{k \<in> dom (fourObjects p m). hasPrefix k (p @ ''a'')} =
      {k \<in> set [p @ ''a'', p @ ''aa'', p @ ''b'', p @ ''c'']. hasPrefix k (p @ ''a'')}"
    unfolding four_keys [OF assms] by blast
  also have "\<dots> = set (filter (\<lambda>k. hasPrefix k (p @ ''a'')) [p @ ''a'', p @ ''aa'', p @ ''b'', p @ ''c''])"
    by (simp only: set_filter)
  finally show ?thesis by (simp add: hasPrefix_def)
qed

context exact_store
begin

lemma testObjects_ok:
  assumes "ok s" and "fresh p (objs s)" and "2 < fuel"
  shows "\<exists>s'. testObjects T chunk fuel p (s, u) = (Inr (), (s', u)) \<and> ok s' \<and> objs s' = fourObjects p (objs s)"
proof -
  obtain e s1 where g: "t_get T CtxLive (p @ ''missing'') s = (Inl e, s1)" "errors_is e ErrNotFound" and u1: "unm s s1"
    using get_none [OF assms(1) freshD [OF assms(2)]] by blast
  obtain s2 where t: "testSuffixes T chunk fuel p [''c'', ''a'', ''b'', ''aa''] (s1, u) = (Inr (), (s2, u))"
      and s2: "ok s2" "objs s2 = fourObjects p (objs s)"
  proof -
    have "\<forall>x\<in>set [''c'', ''a'', ''b'', ''aa'']. objs s1 (p @ x) = None \<and> length x < fuel"
      using freshD [OF assms(2)] assms(3) by (simp add: unmD(2) [OF u1])
    moreover have "distinct [''c'', ''a'', ''b'', ''aa'']" by simp
    ultimately obtain s2 where "testSuffixes T chunk fuel p [''c'', ''a'', ''b'', ''aa''] (s1, u) = (Inr (), (s2, u))"
        "ok s2" "objs s2 = fold (\<lambda>x m. m(p @ x \<mapsto> x)) [''c'', ''a'', ''b'', ''aa''] (objs s1)"
      using testSuffixes_ok [OF unmD(1) [OF u1]] by blast
    then show ?thesis by (intro that [of s2]) (simp_all only: fold_simps fourObjects_def unmD(2) [OF u1])
  qed
  obtain s3 where l: "testLists T p [p @ ''a'', p @ ''aa'', p @ ''b'', p @ ''c''] [1, 2, 4, 10] (s2, u) = (Inr (), (s3, u))"
      and u3: "unm s2 s3"
    using testLists_ok [OF s2(1) four_sorted four_keys [OF assms(2), folded s2(2)], of "[1, 2, 4, 10]" u] by auto
  obtain s4 where a: "t_list T CtxLive (p @ ''a'') 10 s3 = (Inr [p @ ''a'', p @ ''aa''], s4)" and u4: "unm s3 s4"
    using listed [OF unmD(1) [OF u3] _ four_a_keys [OF assms(2), folded s2(2) unmD(2) [OF u3]], of 10] by auto
  have "io_bind (testSuffixes T chunk fuel p [''c'', ''a'', ''b'', ''aa'']) f (s1, u) = f () (s2, u)" for f :: "unit \<Rightarrow> ('s testing, unit) io"
    using t by (simp only: io_bind_def prod.case sum.case)
  moreover have "io_bind (testLists T p [p @ ''a'', p @ ''aa'', p @ ''b'', p @ ''c''] [1, 2, 4, 10]) f (s2, u) = f () (s3, u)"
    for f :: "unit \<Rightarrow> ('s testing, unit) io"
    using l by (simp only: io_bind_def prod.case sum.case)
  ultimately have "testObjects T chunk fuel p (s, u) = (Inr (), (s4, u))"
    by (simp add: testObjects_def steps g failsWith_def a del: testSuffixes.simps testLists.simps)
  then show ?thesis using s2 unm_trans [OF u3 u4] by (auto simp: unmoved_def)
qed

subsection \<open>The race\<close>

text \<open>
  Either nobody has created the object, and then nobody has got beyond Create; or one goroutine has,
  and then the object is that goroutine's body.
\<close>

definition raced :: "(string \<rightharpoonup> bytes) \<Rightarrow> string \<Rightarrow> ('s, 'h) race \<Rightarrow> bool" where
  "raced m key c \<longleftrightarrow>
     (case c of (ws, wins, errs, s) \<Rightarrow>
        ok s \<and> errs = [] \<and> (\<forall>w\<in>set ws. fst w < 32) \<and>
        (objs s = m \<and> wins = 0 \<and> ws \<noteq> [] \<and> (\<forall>w\<in>set ws. snd w = RCreate) \<or>
         (\<exists>i<32. objs s = m(key \<mapsto> raceBody i) \<and> wins = 1 \<and>
            (\<forall>w\<in>set ws. \<forall>h. snd w = RRead h \<longrightarrow> has h (raceBody i)))))"

definition won :: "(string \<rightharpoonup> bytes) \<Rightarrow> string \<Rightarrow> nat \<Rightarrow> 's \<Rightarrow> 'h racer \<Rightarrow> bool" where
  "won m key i s r \<longleftrightarrow> ok s \<and> objs s = m(key \<mapsto> raceBody i) \<and> (\<forall>h. r = RRead h \<longrightarrow> has h (raceBody i))"

lemma racerTurn_first:
  assumes "ok s" and "objs s = m" and "m key = None"
  shows "\<exists>s'. racerTurn T chunk fuel key (i, RCreate) s = ((RGet, 1, []), s') \<and> won m key i s' (RGet :: 'h racer)"
  using create_new [OF assms(1), of key "raceBody i"] assms(2,3) by (auto simp: racerTurn_def won_def)

lemma racerTurn_won:
  assumes w: "won m key i s r" and i: "i < 32" "n < 32" and f: "65536 < fuel"
  shows "\<exists>r' s'. racerTurn T chunk fuel key (n, r) s = ((r', 0, []), s') \<and> won m key i s' r'"
proof -
  have s: "ok s" "objs s = m(key \<mapsto> raceBody i)" using w by (simp_all add: won_def)
  have keep: "unm s s' \<Longrightarrow> ok s' \<and> objs s' = m(key \<mapsto> raceBody i)" for s'
    using s by (simp add: unmoved_def)
  show ?thesis
  proof (cases r)
    case RCreate
    obtain e s' where "t_create T CtxLive key (Some (bytes_source (raceBody n))) s = (Inl e, s')"
        "errors_is e ErrExists" "unm s s'"
      using create_old [OF s(1), of key "raceBody n"] s(2) by auto
    then show ?thesis using RCreate keep by (auto simp: racerTurn_def won_def)
  next
    case RGet
    obtain h s' where "t_get T CtxLive key s = (Inr h, s')" "has h (raceBody i)" "unm s s'"
      using get_some [OF s(1), of key "raceBody i"] s(2) by auto
    then show ?thesis using RGet keep by (auto simp: racerTurn_def won_def)
  next
    case (RRead h)
    have h: "has h (raceBody i)" using w RRead by (simp add: won_def)
    have l: "length (raceBody i) < fuel" using f raceBody_length [OF i(1)] by simp
    obtain s' where "readAndClose T chunk fuel CtxLive h s = ((raceBody i, None), s')" "unm s s'"
      using readAndClose_all [OF s(1) h l] by blast
    then show ?thesis
      using RRead keep raceBody_length i raceBody_pure [OF i(1)] by (auto simp: racerTurn_def won_def)
  next
    case RList
    obtain ks s' where l: "t_list T CtxLive key 1 s = (Inr ks, s')" "is_listing key 1 (objs s) (objs s) ks" "unm s s'"
      using list_live [OF s(1), of 1 key] by auto
    have "ks = [key]" by (rule is_listing_own [OF l(2)]) (use s(2) in simp)
    then show ?thesis using RList l keep by (auto simp: racerTurn_def won_def)
  next
    case REnd
    then show ?thesis using w by (auto simp: racerTurn_def)
  qed
qed

lemma raceStep_raced:
  assumes r: "raced m key c" and j: "j < length (fst c)" and m: "m key = None" and f: "65536 < fuel"
  shows "raced m key (raceStep T chunk fuel key j c)"
proof -
  obtain ws wins errs s where c: "c = (ws, wins, errs, s)" by (metis prod.exhaust)
  obtain n q where w: "ws ! j = (n, q)" by (cases "ws ! j")
  have j': "j < length ws" using j c by simp
  have n: "n < 32" using r c w nth_mem [OF j'] by (force simp: raced_def)
  have rest: "set (if q' = REnd then dropNth j ws else ws[j := (n, q')]) \<subseteq> insert (n, q') (set ws)" for q'
    using dropNth_subset [of _ j ws] set_update_subset_insert [of ws j "(n, q')"] by auto
  have fin: "raced m key (if q' = REnd then dropNth j ws else ws[j := (n, q')], 1, [], s')"
    if q': "won m key i s' q'" "i < 32" "\<forall>x\<in>set ws. \<forall>h. snd x = RRead h \<longrightarrow> has h (raceBody i)" for i q' s'
  proof -
    let ?ws = "if q' = REnd then dropNth j ws else ws[j := (n, q')]"
    have "\<forall>x\<in>insert (n, q') (set ws). fst x < 32" using r n by (simp add: raced_def c)
    then have a: "\<forall>x\<in>set ?ws. fst x < 32" using rest [of q'] by blast
    have "\<forall>x\<in>insert (n, q') (set ws). \<forall>h. snd x = RRead h \<longrightarrow> has h (raceBody i)"
      using q' by (simp add: won_def)
    then have b: "\<forall>x\<in>set ?ws. \<forall>h. snd x = RRead h \<longrightarrow> has h (raceBody i)" using rest [of q'] by blast
    show ?thesis
      unfolding raced_def prod.case
      by (intro conjI disjI2 exI [of _ i] a b refl q'(2)) (use q'(1) in \<open>simp_all add: won_def\<close>)
  qed
  from r c consider (first) "ok s" "objs s = m" "wins = 0" "errs = []" "\<forall>x\<in>set ws. snd x = RCreate"
    | (won) i where "i < 32" "ok s" "errs = []" "objs s = m(key \<mapsto> raceBody i)" "wins = 1"
        "\<forall>x\<in>set ws. \<forall>h. snd x = RRead h \<longrightarrow> has h (raceBody i)"
    by (auto simp: raced_def)
  then show ?thesis
  proof cases
    case first
    have "q = RCreate" using first(5) nth_mem [OF j'] w by force
    moreover obtain s' where "racerTurn T chunk fuel key (n, RCreate) s = ((RGet, 1, []), s')" "won m key n s' RGet"
      using racerTurn_first [OF first(1,2) m] by blast
    moreover have "\<forall>x\<in>set ws. \<forall>h. snd x = RRead h \<longrightarrow> has h (raceBody n)" using first(5) by simp
    ultimately show ?thesis using fin [of n s' RGet] n first(3,4) w by (simp add: c raceStep_def)
  next
    case won
    have "won m key i s q" using won nth_mem [OF j'] w by (force simp: won_def)
    then obtain q' s' where "racerTurn T chunk fuel key (n, q) s = ((q', 0, []), s')" "won m key i s' q'"
      using racerTurn_won [OF _ won(1) n f] by blast
    then show ?thesis using fin [of i s' q'] won w by (auto simp: c raceStep_def split: if_splits)
  qed
qed

lemma race_steps_raced:
  assumes "(race_step T chunk fuel key)\<^sup>*\<^sup>* c c'" and "raced m key c" and "m key = None" and "65536 < fuel"
  shows "raced m key c'"
  using assms(1)
proof (induction rule: rtranclp_induct)
  case (step y z)
  from step.hyps(2) show ?case
    by (rule race_stepE) (use raceStep_raced [OF step.IH _ assms(3,4)] in blast)
qed (rule assms(2))

end

lemma runRace_steps: "(race_step T chunk fuel key)\<^sup>*\<^sup>* c (runRace T chunk fuel key sched t c)"
proof (induction T chunk fuel key sched t c rule: runRace.induct)
  case (1 T chunk fuel key sched t c)
  show ?case
  proof (cases "fst c = []")
    case True
    then show ?thesis by (simp add: runRace.simps)
  next
    case False
    then have "race_step T chunk fuel key c (raceStep T chunk fuel key (sched t mod length (fst c)) c)"
      by (intro race_step.turn) simp
    then show ?thesis
      using 1 [OF False] False by (subst runRace.simps) (auto intro: converse_rtranclp_into_rtranclp)
  qed
qed

lemma runRace_over: "fst (runRace T chunk fuel key sched t c) = []"
proof (induction T chunk fuel key sched t c rule: runRace.induct)
  case (1 T chunk fuel key sched t c)
  then show ?case by (cases "fst c = []") (subst runRace.simps, simp)+
qed

context exact_store
begin

lemma testRace_ok:
  assumes "ok s" and "objs s (p @ ''race'') = None" and "65536 < fuel"
  shows "\<exists>i s'. testRace T chunk fuel sched p (s, u) = (Inr (), (s', u)) \<and> i < 32 \<and> ok s' \<and>
    objs s' = (objs s)(p @ ''race'' \<mapsto> raceBody i)"
proof -
  let ?key = "p @ ''race''" and ?c = "(map (\<lambda>i. (i, RCreate)) [0..<32], 0, [], s) :: ('s, 'h) race"
  obtain ws wins errs s' where c': "runRace T chunk fuel ?key sched 0 ?c = (ws, wins, errs, s')"
    by (metis prod.exhaust)
  have "raced (objs s) ?key ?c" using assms(1) by (auto simp: raced_def)
  then have "raced (objs s) ?key (ws, wins, errs, s')"
    using race_steps_raced [where m = "objs s", OF runRace_steps [of T chunk fuel ?key ?c sched 0] _ assms(2,3)] c' by simp
  moreover have "ws = []" using runRace_over c' by (metis fst_conv)
  ultimately show ?thesis
    using c' by (auto simp: raced_def testRace_def io_bind_def fatal_if_def)
qed

subsection \<open>Cancellation, sources and readers\<close>

lemma testCancelled_ok:
  assumes "ok s"
  shows "\<exists>s'. testCancelled T p (s, u) = (Inr (), (s', u)) \<and> unm s s'"
proof -
  obtain e1 s1 where 1: "t_get T CtxDone (p @ ''a'') s = (Inl e1, s1)" "errors_is e1 Canceled" "unm s s1"
    using get_done [OF assms] by blast
  obtain e2 s2 where 2: "t_list T CtxDone p 1 s1 = (Inl e2, s2)" "errors_is e2 Canceled" "unm s1 s2"
    using list_done [OF unmD(1) [OF 1(3)]] by blast
  obtain e3 s3 where 3: "t_create T CtxDone (p @ ''cancelled'') None s2 = (Inl e3, s3)" "errors_is e3 Canceled" "unm s2 s3"
    using create_done [OF unmD(1) [OF 2(3)]] by blast
  have "testCancelled T p (s, u) = (Inr (), (s3, u))"
    by (simp add: testCancelled_def steps 1 2 3 failsWith_def)
  then show ?thesis using unm_trans [OF 1(3) unm_trans [OF 2(3) 3(3)]] by blast
qed

lemma testSources_ok:
  assumes "ok s" and "\<forall>(name, v)\<in>set cs. objs s (p @ name) = None \<and> incomplete v"
  shows "\<exists>s'. testSources T p cs (s, u) = (Inr (), (s', u)) \<and> unm s s'"
  using assms
proof (induction cs arbitrary: s)
  case (Cons c cs)
  obtain name v where c: "c = (name, v)" by (cases c)
  obtain e1 s1 where 1: "t_create T CtxLive (p @ name) (Some v) s = (Inl e1, s1)" "unm s s1"
    using create_incomplete [OF Cons.prems(1)] Cons.prems(2) c by fastforce
  have "objs s1 (p @ name) = None" using unmD(2) [OF 1(2)] Cons.prems(2) c by simp
  then obtain e2 s2 where 2: "t_get T CtxLive (p @ name) s1 = (Inl e2, s2)" "errors_is e2 ErrNotFound" "unm s1 s2"
    using get_none [OF unmD(1) [OF 1(2)]] by blast
  have u: "unm s s2" by (rule unm_trans [OF 1(2) 2(3)])
  have "\<forall>(name, v)\<in>set cs. objs s2 (p @ name) = None \<and> incomplete v"
    using Cons.prems(2) unmD(2) [OF u] by simp
  then obtain s3 where "testSources T p cs (s2, u) = (Inr (), (s3, u))" "unm s2 s3"
    using Cons.IH [OF unmD(1) [OF u]] by blast
  then show ?case using unm_trans [OF u] by (auto simp: c steps 1 2 failed_def failsWith_def)
qed (simp add: unmoved_def)

lemma incompleteSources_ok:
  "(name, v) \<in> set incompleteSources \<Longrightarrow> (name = ''short-source'' \<or> name = ''failed-source'') \<and> incomplete v"
  by (auto simp: incompleteSources_def incomplete_def)

lemma testReaders_ok:
  assumes "ok s" and "\<forall>x\<in>{''reader-at'', ''short-source'', ''failed-source''}. objs s (p @ x) = None" and "15 < fuel"
  shows "\<exists>s'. testReaders T chunk fuel p (s, u) = (Inr (), (s', u)) \<and> ok s' \<and>
    objs s' = (objs s)(p @ ''reader-at'' \<mapsto> ''streaming value'')"
proof -
  let ?k = "p @ ''reader-at''" and ?b = "''streaming value''"
  obtain s0 where c: "t_create T CtxLive ?k (Some (bytes_source ?b)) s = (Inr (), s0)"
      and s0: "ok s0" "objs s0 = (objs s)(?k \<mapsto> ?b)"
    using create_new [OF assms(1)] assms(2) by blast
  have at: "objs t ?k = Some ?b" if "unm s0 t" for t using s0(2) unmD(2) [OF that] by simp
  have u0: "unm s0 s0" using s0(1) by (simp add: unmoved_def)
  obtain h1 s1 where g1: "t_get T CtxLive ?k s0 = (Inr h1, s1)" "has h1 ?b" and u1: "unm s0 s1"
    using get_some [OF s0(1) at [OF u0]] by blast
  obtain h2 s2 where g2: "t_get T CtxLive ?k s1 = (Inr h2, s2)" "has h2 ?b" and u2: "unm s0 s2"
    using get_some [OF unmD(1) [OF u1] at [OF u1]] unm_trans [OF u1] by blast
  obtain h1' s3 where f: "readFull T fuel CtxLive 3 [] h1 s2 = ((take 3 ?b, None), h1', s3)"
      and h1': "has h1' (drop 3 ?b)" and u3: "unm s0 s3"
    using readFull_prefix [OF unmD(1) [OF u2] g1(2), of 3 "[]" fuel] assms(3) unm_trans [OF u2] by auto
  obtain h2' s4 where r2: "readRest T chunk fuel CtxLive [] h2 s3 = ((?b, None), h2', s4)" and u4: "unm s0 s4"
    using readRest_all [OF unmD(1) [OF u3] g2(2), of fuel chunk "[]"] assms(3) unm_trans [OF u3] by auto
  obtain h1'' s5 where r1: "readRest T chunk fuel CtxLive [] h1' s4 = ((''eaming value'', None), h1'', s5)" and u5: "unm s0 s5"
    using readRest_all [OF unmD(1) [OF u4] h1', of fuel chunk "[]"] assms(3) unm_trans [OF u4] by auto
  obtain h3 s6 where g3: "t_get T CtxLive ?k s5 = (Inr h3, s6)" "has h3 ?b" and u6: "unm s0 s6"
    using get_some [OF unmD(1) [OF u5] at [OF u5]] unm_trans [OF u5] by blast
  obtain b e h3' s7 where d: "t_read T CtxDone 3 h3 s6 = ((b, Fail e), h3', s7)" "errors_is e Canceled" and u7: "unm s0 s7"
    using read_done [OF unmD(1) [OF u6] g3(2)] unm_trans [OF u6] by blast
  have absent: "\<forall>(name, v)\<in>set incompleteSources. objs s7 (p @ name) = None \<and> incomplete v"
    using incompleteSources_ok assms(2) s0(2) unmD(2) [OF u7] by fastforce
  obtain s8 where t: "testSources T p incompleteSources (s7, u) = (Inr (), (s8, u))" and u8: "unm s0 s8"
    using testSources_ok [OF unmD(1) [OF u7] absent] unm_trans [OF u7] by blast
  obtain s9 where c3: "t_close T h3 s8 = (None, s9)" and u9: "unm s0 s9"
    using close_ok [OF unmD(1) [OF u8]] unm_trans [OF u8] by blast
  obtain s10 where c2: "t_close T h2 s9 = (None, s10)" and u10: "unm s0 s10"
    using close_ok [OF unmD(1) [OF u9]] unm_trans [OF u9] by blast
  obtain s11 where c1: "t_close T h1 s10 = (None, s11)" and u11: "unm s0 s11"
    using close_ok [OF unmD(1) [OF u10]] unm_trans [OF u10] by blast
  have "testReaders T chunk fuel p (s, u) = (Inr (), (s11, u))"
    by (simp add: testReaders_def steps deferClose_def failed_def c g1 g2 f r2 r1 g3 d t c1 c2 c3)
  then show ?thesis using unmD [OF u11] s0(2) by auto
qed

subsection \<open>The suite passes\<close>

lemma storeTest_passes:
  assumes "ok s" and "fresh p (objs s)" and "65536 < fuel"
  shows "\<exists>i s'. storeTest T chunk fuel sched p (s, []) = (Inr (), (s', [])) \<and> i < 32 \<and> ok s' \<and>
    objs s' = (fourObjects p (objs s))(p @ ''race'' \<mapsto> raceBody i, p @ ''reader-at'' \<mapsto> ''streaming value'')"
proof -
  obtain s1 where 1: "testObjects T chunk fuel p (s, []) = (Inr (), (s1, []))"
      and s1: "ok s1" "objs s1 = fourObjects p (objs s)"
    using testObjects_ok [OF assms(1,2), of fuel chunk "[]"] assms(3) by auto
  have "objs s1 (p @ ''race'') = None" by (simp add: s1(2) fourObjects_def freshD [OF assms(2)])
  then obtain i s2 where 2: "testRace T chunk fuel sched p (s1, []) = (Inr (), (s2, []))" "i < 32"
      and s2: "ok s2" "objs s2 = (objs s1)(p @ ''race'' \<mapsto> raceBody i)"
    using testRace_ok [OF s1(1) _ assms(3)] by blast
  obtain s3 where 3: "testCancelled T p (s2, []) = (Inr (), (s3, []))" and u3: "unm s2 s3"
    using testCancelled_ok [OF s2(1)] by blast
  have free: "\<forall>x\<in>{''reader-at'', ''short-source'', ''failed-source''}. objs s3 (p @ x) = None"
    by (simp add: unmD(2) [OF u3] s1(2) s2(2) fourObjects_def freshD [OF assms(2)])
  obtain s4 where 4: "testReaders T chunk fuel p (s3, []) = (Inr (), (s4, []))"
      and s4: "ok s4" "objs s4 = (objs s3)(p @ ''reader-at'' \<mapsto> ''streaming value'')"
    using testReaders_ok [OF unmD(1) [OF u3] free, of fuel chunk "[]"] assms(3) by auto
  have "storeTest T chunk fuel sched p (s, []) = (Inr (), (s4, []))"
    by (simp add: storeTest_def io_bind_def 1 2 3 4)
  then show ?thesis using 2(2) s1(2) s2(2) s4 unmD(2) [OF u3] by auto
qed

end

subsection \<open>The in-memory store\<close>

text \<open>
  The store beside a state it leaves alone; a context that is done reports \<open>context.Canceled\<close>. A
  handle is the unread rest of the \<open>bytes.Reader\<close> made for it.
\<close>

definition pollCtx :: "ctxt \<Rightarrow> 'c \<Rightarrow> goerr option \<times> 'c" where
  "pollCtx cx c = (case cx of CtxLive \<Rightarrow> (None, c) | CtxDone \<Rightarrow> (Some (Sentinel Canceled), c))"

definition memOpen :: "('c \<Rightarrow> goerr option \<times> 'c) \<Rightarrow> string \<Rightarrow> ('c mst, bytes) io" where
  "memOpen pc key =
     io_bind (io_check (onCtx pc)) (\<lambda>_ x. (case objects (snd x) key of
       None \<Rightarrow> (Inl (Sentinel ErrNotFound), x)
     | Some b \<Rightarrow> (Inr b, x)))"

definition memRead :: "('c \<Rightarrow> goerr option \<times> 'c) \<Rightarrow> nat \<Rightarrow> bytes \<Rightarrow> 'c mst \<Rightarrow> (bytes \<times> rstatus) \<times> bytes \<times> 'c mst" where
  "memRead pc n b x =
     (case onCtx pc x of
        (Some e, x') \<Rightarrow> (([], Fail e), b, x')
      | (None, x') \<Rightarrow> if b = [] then (([], Eof), b, x') else ((take n b, More), drop n b, x'))"

definition memTested :: "('c mst, bytes) tstore" where
  "memTested =
     \<lparr>t_list = (\<lambda>cx. memList (pollCtx cx)), t_get = (\<lambda>cx. memOpen (pollCtx cx)),
      t_create = (\<lambda>cx. memCreate (pollCtx cx)), t_read = (\<lambda>cx. memRead (pollCtx cx)),
      t_close = (\<lambda>h x. (None, x))\<rparr>"

text \<open>Opening an object and reading it are Get, whose stream is what is read under one poll.\<close>

lemma memGet_open: "memGet pc key = io_bind (memOpen pc key) (memReader pc)"
  by (auto simp: memGet_def memOpen_def io_bind_def fun_eq_iff split: prod.splits sum.splits option.splits)

lemma onCtx_poll: "onCtx (pollCtx cx) x = (case cx of CtxLive \<Rightarrow> (None, x) | CtxDone \<Rightarrow> (Some (Sentinel Canceled), x))"
  by (cases x) (simp add: onCtx_def pollCtx_def split: ctxt.splits)

lemma check_poll:
  "io_check (onCtx (pollCtx CtxLive)) = io_ret ()" "io_check (onCtx (pollCtx CtxDone)) = io_fail (Sentinel Canceled)"
  by (simp_all add: fun_eq_iff io_check_def onCtx_poll)

lemma mem_list_exact:
  "mem_ok (snd x) \<Longrightarrow> 0 < n \<Longrightarrow>
     \<exists>ks. memList (pollCtx CtxLive) p n x = (Inr ks, x) \<and> is_listing p n (objects (snd x)) (objects (snd x)) ks"
  by (cases x) (auto simp: memList_def check_poll mem_ok_def list_keys_eq intro: first_keys_listing)

lemma mem_create_exact:
  "memCreate (pollCtx CtxLive) k (Some (bytes_source b)) x = io_check (memPut k b) x"
  by (simp add: memCreate_def check_poll readSource_def bytes_source_def io_bind_def)

lemma mem_create_incomplete:
  "incomplete v \<Longrightarrow> \<exists>e. memCreate (pollCtx CtxLive) k (Some v) x = (Inl e, x)"
  by (cases "src_err v") (auto simp: memCreate_def check_poll readSource_def incomplete_def io_bind_def)

interpretation memTest: exact_store "memTested :: ('c mst, bytes) tstore" "\<lambda>x. objects (snd x)" "\<lambda>x. mem_ok (snd x)" "(=)"
proof unfold_locales
  fix x :: "'c mst"
  assume ok: "mem_ok (snd x)"
  note d = memTested_def check_poll unmoved_def
  show "\<exists>h s'. t_get memTested CtxLive k x = (Inr h, s') \<and> h = b \<and> unmoved (\<lambda>x. objects (snd x)) (\<lambda>x. mem_ok (snd x)) x s'"
    if "objects (snd x) k = Some b" for k b using ok that by (simp add: d memOpen_def)
  show "\<exists>e s'. t_get memTested CtxLive k x = (Inl e, s') \<and> errors_is e ErrNotFound \<and>
      unmoved (\<lambda>x. objects (snd x)) (\<lambda>x. mem_ok (snd x)) x s'"
    if "objects (snd x) k = None" for k using ok that by (simp add: d memOpen_def)
  show "\<exists>e s'. t_get memTested CtxDone k x = (Inl e, s') \<and> errors_is e Canceled \<and>
      unmoved (\<lambda>x. objects (snd x)) (\<lambda>x. mem_ok (snd x)) x s'" for k
    using ok by (simp add: d memOpen_def)
  show "\<exists>ks s'. t_list memTested CtxLive p n x = (Inr ks, s') \<and> is_listing p n (objects (snd x)) (objects (snd x)) ks \<and>
      unmoved (\<lambda>x. objects (snd x)) (\<lambda>x. mem_ok (snd x)) x s'" if n: "0 < n" for p n
    proof -
    obtain ks where "memList (pollCtx CtxLive) p n x = (Inr ks, x)" "is_listing p n (objects (snd x)) (objects (snd x)) ks"
      using mem_list_exact [OF ok n] by blast
    then show ?thesis using ok by (intro exI [of _ ks] exI [of _ x]) (simp add: d)
  qed
  show "\<exists>e s'. t_list memTested CtxDone p n x = (Inl e, s') \<and> errors_is e Canceled \<and>
      unmoved (\<lambda>x. objects (snd x)) (\<lambda>x. mem_ok (snd x)) x s'" for p n
    using ok by (simp add: d memList_def)
  show "\<exists>s'. t_create memTested CtxLive k (Some (bytes_source b)) x = (Inr (), s') \<and> mem_ok (snd s') \<and>
      objects (snd s') = (objects (snd x))(k \<mapsto> b)" if "objects (snd x) k = None" for k b
    using memPut_ok [OF ok, of k b] that
    by (auto simp: d mem_create_exact io_check_def memPut_def)
  show "\<exists>e s'. t_create memTested CtxLive k (Some (bytes_source b)) x = (Inl e, s') \<and> errors_is e ErrExists \<and>
      unmoved (\<lambda>x. objects (snd x)) (\<lambda>x. mem_ok (snd x)) x s'" if "objects (snd x) k \<noteq> None" for k b
    using ok that
    by (intro exI [of _ "Sentinel ErrExists"] exI [of _ x]) (auto simp: d mem_create_exact io_check_def memPut_def)
  show "\<exists>e s'. t_create memTested CtxLive k (Some v) x = (Inl e, s') \<and>
      unmoved (\<lambda>x. objects (snd x)) (\<lambda>x. mem_ok (snd x)) x s'" if v: "incomplete v" for k v
    proof -
    obtain e where "memCreate (pollCtx CtxLive) k (Some v) x = (Inl e, x)" using mem_create_incomplete [OF v] by blast
    then show ?thesis using ok by (intro exI [of _ e] exI [of _ x]) (simp add: d)
  qed
  show "\<exists>e s'. t_create memTested CtxDone k vo x = (Inl e, s') \<and> errors_is e Canceled \<and>
      unmoved (\<lambda>x. objects (snd x)) (\<lambda>x. mem_ok (snd x)) x s'" for k vo
    using ok by (simp add: d memCreate_def)
  show "\<exists>c st h' b' s'. t_read memTested CtxLive m h x = ((c, st), h', s') \<and> b = c @ b' \<and> length c \<le> m \<and> h' = b' \<and>
      (st = More \<and> c \<noteq> [] \<or> st = Eof \<and> b' = []) \<and> unmoved (\<lambda>x. objects (snd x)) (\<lambda>x. mem_ok (snd x)) x s'"
    if h: "h = b" "0 < m" for h b m
  proof (cases "h = []")
    case True
    then show ?thesis
      using ok h by (intro exI [of _ "[]"] exI [of _ Eof] exI [of _ x]) (simp add: d memRead_def onCtx_poll)
  next
    case False
    then show ?thesis
      using ok h
      by (intro exI [of _ "take m h"] exI [of _ More] exI [of _ "drop m h"] exI [of _ x])
         (simp add: d memRead_def onCtx_poll)
  qed
  show "\<exists>c e h' s'. t_read memTested CtxDone m h x = ((c, Fail e), h', s') \<and> errors_is e Canceled \<and>
      unmoved (\<lambda>x. objects (snd x)) (\<lambda>x. mem_ok (snd x)) x s'" if "h = b" for h b m
    using ok by (simp add: d memRead_def onCtx_poll)
  show "\<exists>s'. t_close memTested h x = (None, s') \<and> unmoved (\<lambda>x. objects (snd x)) (\<lambda>x. mem_ok (snd x)) x s'" for h
    using ok by (simp add: d)
qed

end
