(* ===== verification/Spec2Isabelle.thy ===== *)
theory Spec2Isabelle
  imports DemoConflict DemoStores StoreTestFacts
begin

text \<open>
  A verification development of lokv, an append-only log of events kept in an object store whose
  objects are created once and never changed.

  The program and its parts. A log is a sequence of commits; commit number r is the object at the key
  \<open>logKey\<close> of r, and keys count down, so that a listing of one key finds the newest commit. A commit
  carries its batch of events, the hash of the record before it, and a frontier: references to blocks of
  \<open>16 ^ level\<close> earlier revisions, either raw commits or segments of packed records. Appending is one
  conditional Create, so several processes may append at once, and the one that loses tries again at the
  next revision. The core (\<open>log.go\<close>, \<open>wire.go\<close>, \<open>segment.go\<close>, \<open>objects.go\<close>, \<open>scan.go\<close>, \<open>state.go\<close>,
  \<open>tempfile.go\<close>) talks to storage through the interface of \<open>store.go\<close> alone; \<open>memstore\<close>, \<open>diskstore\<close>,
  \<open>cachestore\<close> and \<open>s3store\<close> implement that interface, and \<open>storetest\<close> is the suite they are tested with.

  How the model is built. Go code with effects is an action, a function from a state to an error or a
  value and the next state (\<open>Prelude\<close>: \<open>io_bind\<close> is sequencing, \<open>io_wrap\<close>, \<open>io_defer\<close> and \<open>io_onerr\<close> are
  \<open>fmt.Errorf\<close> with \<open>%w\<close> and the two kinds of deferred function); errors are trees searched by
  \<open>errors_is\<close>. The type of states is arbitrary. It stands for everything outside the function at hand, and
  each call of the store, of the context, of the random source or of the operating system may change it:
  this is where other writers, lost replies and cancellation are. The record \<open>world\<close> (\<open>StoreApi\<close>) bundles
  these calls. A revision and every count of type \<open>int64\<close> is an \<open>int\<close>, with \<open>i64\<close> written where the
  code could wrap; strings and byte slices are lists of bytes.

  Which theory models what, in the order of the imports:
    \<open>Prelude\<close>: errors, actions, relations kept by actions, goroutines that take turns.
    \<open>HexKeys\<close>, \<open>Json\<close>, \<open>Wire\<close> (\<open>wire.go\<close>): number formats; strict decoding with the required-fields check; the
      structs, keys, record hash, and \<open>validateProjection\<close>, \<open>validateRef\<close>, \<open>validateFrontier\<close>, \<open>decodeCommit\<close>.
      Facts in \<open>KeyFacts\<close>, \<open>Frontier\<close>, \<open>Envelope\<close>.
    \<open>StoreApi\<close> (\<open>store.go\<close>): the interface, and its documented contract as the locale \<open>object_store\<close>.
    \<open>Loading\<close> (\<open>log.go\<close>): \<open>Open\<close>, records and snapshots, \<open>get\<close>, \<open>LoadHead\<close>, \<open>LoadRevision\<close>, \<open>Head\<close>.
    \<open>TempFile\<close> (\<open>tempfile.go\<close>): the spool files, with the unlinking that depends on the platform.
    \<open>Segment\<close> (\<open>segment.go\<close>, \<open>objects.go\<close>): download, frame check, the parser of segments,
      \<open>loadRecordFile\<close>, \<open>createSegment\<close>, \<open>carry\<close>; facts in \<open>SegmentFacts\<close>.
    \<open>Scan\<close> (\<open>scan.go\<close>): the read plan, \<open>readRange\<close>, \<open>Scan\<close>, \<open>Verify\<close>; facts in \<open>ScanFacts\<close>.
    \<open>Append\<close> (\<open>log.go\<close>): \<open>prepare\<close>, \<open>appendPrepared\<close>, \<open>AppendTo\<close>, \<open>Append\<close>; facts in \<open>AppendFacts\<close> and \<open>LogFacts\<close>.
    \<open>Projection\<close> (\<open>state.go\<close>): \<open>LoadState\<close>, \<open>Sync\<close>, \<open>SyncTo\<close> with the sticky apply error.
    \<open>Protocol\<close>: the abstract log of a store and the locale \<open>log_store\<close> of a store that several writers share.
    \<open>Progress\<close>: where conflict errors come from, and what they say of the other writers.
    \<open>Memstore\<close>, \<open>MemWorld\<close>, \<open>Writers\<close> (\<open>memstore\<close>): the in-memory store; the same with scheduled cancellation,
      lost replies, a full disk and other writers; the same where those writers keep the log.
    \<open>CacheStore\<close>, \<open>CacheFacts\<close>, \<open>CacheMem\<close> (\<open>cachestore\<close>): the caching store with its readers as values that
      Read and Close move on; its contract; two in-memory stores put together.
    \<open>DiskStore\<close>, \<open>DiskFacts\<close>, \<open>DiskWalk\<close> (\<open>diskstore\<close>): one operation for each system call on a table of paths;
      what they keep; the walk of List.
    \<open>S3Store\<close>, \<open>S3Facts\<close>, \<open>S3Contract\<close>, \<open>S3Sim\<close> (\<open>s3store\<close>): the adapter with its retries, pages and upload workers;
      the contract of the service as the locale \<open>s3_service\<close>; a simulated service that keeps it.
    \<open>StoreTest\<close>, \<open>StoreTestFacts\<close> (\<open>storetest\<close>): the conformance suite as a program over any store; the locale
      \<open>exact_store\<close> of what passes it.
    \<open>Demo\<close>, \<open>DemoRuns\<close>, \<open>DemoConflict\<close>, \<open>DemoStores\<close>: concrete platforms, states and runs, at which the
      theorems below are applied.

  The interfaces. \<open>object_store\<close> is what the core's theorems ask of a store; it is interpreted on the
  in-memory store (\<open>mem\<close>) and on the disk store (\<open>disk\<close>), and \<open>cachestore_contract\<close> and
  \<open>s3store_contract\<close> prove it for the other two from the contracts \<open>cached\<close> and \<open>s3_service\<close>, which are
  interpreted on two in-memory tiers and on the simulated service. \<open>log_store\<close> adds that the other
  writers keep the log, \<open>no_conflict\<close> and \<open>contended\<close> that the surroundings make no conflict errors.
  \<open>world_rel\<close> and \<open>view_world\<close> say that a relation or a view of the state is kept by every call
  but Create, and \<open>state_preorder\<close> that a relation composes.

  What the theorems of this file show. First the whole system: every append, successful or not, extends
  the abstract log at its end; the head that is loaded was the head at a moment of the call; scans read
  exactly the log's batches and projections fold them. Then appending, reading, keys and frontiers (exact
  characterisations of the validators, and the digit sum bound on the number of Gets), the wire format,
  scans and projections for arbitrary and even faulty stores, conflicts (an Append that gives up was
  overtaken once by each attempt), and the five storage packages. Where a theorem has hypotheses, the theorem
  after it, with the suffix \<open>_witness\<close>, applies it to a concrete case.

  Parameters. Code outside the repository is a parameter: the record \<open>platform\<close> holds SHA-256,
  encoding/json on texts (parser, printer, tokenizer), the application's event codec and zstd; the
  S3 client is the record \<open>s3client\<close>; the operating system is part of the world. Nothing is assumed of
  them except where a theorem says so: \<open>reads_back\<close>, that the JSON library decodes what it printed, and the
  laws of the locales. No theorem assumes that SHA-256 is injective; \<open>history_determined\<close> and \<open>AppendTo_batch\<close>
  name the two colliding strings instead.

  Bounds and fuel. \<open>readRangeParts\<close> recurses to a depth of one more than the level of its reference, which
  it never exhausts (\<open>readRangeParts_depth\<close>). The field loop of the segment parser has one more step than the text
  has tokens, and each step takes a token. Append's loop is bounded by the configured retries; so are the loops
  of the S3 store, and its listing by the limit; the disk walk by the longest path of the platform. In the
  conformance suite a loop that reads to the end is given up after \<open>fuel\<close> reads; any number above the
  largest object, 65536 bytes, is enough. All other loops end by a measure.

  Not modelled, and why. Goroutines are interleaved call by call: the upload workers and the race of the
  conformance suite in every order, the four child fetches of \<open>createSegment\<close> in one order; data races on
  memory are not expressible, as buffers are values. Mutexes are the atomicity of a step. File modes, the
  random part of names of temporary files, the texts of most wrapped errors beyond their cause, and the time that
  waits take are left out. \<open>doc.go\<close> and \<open>s3store/doc.go\<close> are comments. The tests outside \<open>storetest\<close> are not
  part of the model, apart from the simulated service of \<open>s3store_test.go\<close>.
\<close>

section \<open>The log that the writers share\<close>





text \<open>
  C3: LoadHead linearizes: its result is the last commit of the log at some point during the call,
  and no snapshot means that the log was empty when it was called.
\<close>

theorem LoadHead_linearizes:
  assumes "log_store W objs good lg" and "good s" and "log_is lg (objs s) sns"
    and "LoadHead W lg s = (Inr head, s')"
  shows "\<exists>ext. log_is lg (objs s') (sns @ ext) \<and>
    (case head of
       None \<Rightarrow> sns = []
     | Some sn \<Rightarrow> \<exists>n\<le>length ext. sns @ take n ext \<noteq> [] \<and> last (sns @ take n ext) = sn)"
  by (rule log_store.LoadHead_log [OF assms(1,4,2,3)]) blast

theorem LoadHead_linearizes_witness:
  "\<exists>ext. log_is demoLog (mem_objs demoState1) ([demoSnap1] @ ext) \<and>
    (\<exists>n\<le>length ext. last ([demoSnap1] @ take n ext) = demoSnap1)"
  using LoadHead_linearizes [OF writers.log_store_axioms demo_log_good(1) demo_log1 demo_LoadHead] by simp





section \<open>Appending\<close>



text \<open>
  C8: A successful Append returns the record of a commit that the final store holds, with a revision
  above every revision that was committed when it was called.
\<close>

theorem Append_newer:
  assumes "object_store W objs good" and "good s" and "Append W lg value s = (Inr rc, s')"
  shows "\<exists>sn. snap_ok lg sn \<and> s_record sn = rc \<and> objs s' (logKey lg (Revision rc)) = Some (s_body sn) \<and>
    (\<forall>r. valid_rev r \<longrightarrow> objs s (logKey lg r) \<noteq> None \<longrightarrow> r < Revision rc)"
  by (rule object_store.Append_Inr [OF assms(1,3,2)])

theorem Append_newer_witness:
  "\<exists>sn. snap_ok demoLog sn \<and> s_record sn = s_record demoSnap1 \<and>
    mem_objs demoState1 (logKey demoLog (Revision (s_record demoSnap1))) = Some (s_body sn)"
  using Append_newer [OF mem.object_store_axioms mem_good_empty demo_Append1] by blast



text \<open>
  C20: \<open>prepare\<close> accepts exactly the nonempty batches all of whose items encode and whose complete
  JSON array is within MaxEventBytes; it returns that array and a fresh commit ID.
\<close>

theorem prepare_iff:
  "prepare W lg value s = (Inr (event, ident), s') \<longleftrightarrow>
     value \<noteq> [] \<and> (\<exists>es ib. map (marshal_item (plat lg)) value = map Inr es \<and>
        event = ''['' @ joinItems 0 es @ '']'' \<and> int (length event) \<le> maxEvent lg \<and>
        w_rand W 16 s = (Inr ib, s') \<and> ident = hexEncode (copyInto 16 ib))"
  by (rule prepare_Inr)

text \<open>
  C11: \<open>carry\<close> never produces a frontier that the append would reject: after a valid base below
  MaxRevision, a successful carry yields a frontier that validates for the next revision and the
  base's record hash.
\<close>

theorem carry_valid:
  assumes "snap_ok lg b" and "Revision (s_record b) < MaxRevision" and "carry W lg b s = (Inr f, s')"
  shows "validateFrontier lg f (Revision (s_record b) + 1) (c_RecordHash (s_commit b)) = Inr ()"
  by (rule carry_frontier [OF assms(3,1,2)])

theorem carry_valid_witness:
  "validateFrontier demoLog [\<lparr>f_Level = 0, Refs = [demoRef1]\<rparr>] 2 zeroHash = Inr ()"
  using carry_valid [OF demo_ok1 _ demo_carry]
  by (simp add: demoSnap1_def demoCommit1_def MaxRevision_def)

section \<open>Reading\<close>

text \<open>
  C7: LoadHead in any store with the contract: no snapshot means that no revision was committed
  when it was called; a snapshot is a decoded commit the store holds, and no revision committed
  when LoadHead was called is newer.
\<close>

theorem LoadHead_latest:
  assumes "object_store W objs good" and "good s" and "LoadHead W lg s = (Inr head, s')"
  shows "case head of
      None \<Rightarrow> (\<forall>r. valid_rev r \<longrightarrow> objs s (logKey lg r) = None)
    | Some sn \<Rightarrow> snap_ok lg sn \<and> objs s' (logKey lg (Revision (s_record sn))) = Some (s_body sn) \<and>
        (\<forall>r. valid_rev r \<longrightarrow> objs s (logKey lg r) \<noteq> None \<longrightarrow> r \<le> Revision (s_record sn))"
  by (rule object_store.LoadHead_Inr [OF assms(1,3,2)])

theorem LoadHead_latest_witness:
  "snap_ok demoLog demoSnap1 \<and> mem_objs demoState1 (logKey demoLog 1) = Some (s_body demoSnap1)"
  using LoadHead_latest [OF mem.object_store_axioms demo_good demo_LoadHead]
  by (simp add: demoSnap1_def)

text \<open>
  C21: A successful LoadRevision returns a decoded commit of exactly the requested revision, whose
  bytes the store holds at its key.
\<close>

theorem LoadRevision_exact:
  assumes "object_store W objs good" and "good s" and "LoadRevision W lg r s = (Inr sn, s')"
  shows "Revision (s_record sn) = r \<and> snap_ok lg sn \<and> objs s' (logKey lg r) = Some (s_body sn)"
  using object_store.LoadRevision_Inr [OF assms(1,3,2)] by blast

theorem LoadRevision_exact_witness:
  "Revision (s_record demoSnap1) = 1 \<and> snap_ok demoLog demoSnap1 \<and>
    mem_objs demoState1 (logKey demoLog 1) = Some (s_body demoSnap1)"
  by (rule LoadRevision_exact [OF mem.object_store_axioms demo_good demo_LoadRevision])

text \<open>
  C9: A successful Scan of a snapshot, in any world at all (no assumption on the store), yields
  exactly the records of the requested revisions in increasing order, each validated and linked by
  hash to the one before; where the range reaches the head, the last one is the head's own record.
\<close>

theorem Scan_exact:
  assumes "snap_ok lg sn" and "r \<noteq> zeroRange" and "First r \<le> Revision (s_record sn)"
    and "Scan (lift_world W) lg (Some sn) r (Some collect) (s, []) = (Inr (), (s', out))"
  shows "map Revision out = [First r..min (Last r) (Revision (s_record sn))] \<and>
    (\<exists>ps h. map (recordOf lg) ps = map Inr out \<and>
      linked lg ps (First r, []) (min (Last r) (Revision (s_record sn)) + 1, h) \<and>
      (Revision (s_record sn) \<le> Last r \<longrightarrow> h = c_RecordHash (s_commit sn)))"
proof -
  from beside.Scan_run [OF assms(4,1,2,3)] obtain ps rcs h where
    q: "map (recordOf lg) ps = map Inr rcs" "run_over snd collect rcs (s, []) (s', out)"
      "linked lg ps (First r, []) (min (Last r) (Revision (s_record sn)) + 1, h)"
      "Revision (s_record sn) \<le> Last r \<longrightarrow> h = c_RecordHash (s_commit sn)" by blast
  have "out = rcs" using run_over_collect [OF q(2)] by simp
  with q linked_revisions [OF q(3,1)] show ?thesis by auto
qed

theorem Scan_exact_witness:
  "map Revision [s_record demoSnap1] = [1..min MaxRevision (Revision (s_record demoSnap1))]"
  using Scan_exact [OF demo_ok1 _ _ demo_Scan [of collect "[]" "[s_record demoSnap1]"]]
  by (simp add: collect_def rangeAll_def zeroRange_def demoSnap1_def MaxRevision_def)

text \<open>
  C14: The record hash of a head determines the whole history behind it: two linked chains of equal
  length that end in the same revision and record hash are equal, record by record, or two records
  in them give a SHA-256 collision.
\<close>

theorem history_determined:
  assumes "linked lg (ps @ [p]) a (n, h)" and "linked lg (qs @ [q]) b (n, h)" and "length ps = length qs"
  shows "ps @ [p] = qs @ [q] \<or>
    (\<exists>x\<in>set (ps @ [p]). \<exists>y\<in>set (qs @ [q]). collision lg (preimageOf lg x) (preimageOf lg y))"
  by (rule linked_rev_determined [OF assms])

theorem history_determined_witness:
  "[] @ [project demoCommit1] = [] @ [project demoCommit1] \<or>
    (\<exists>x\<in>set ([] @ [project demoCommit1]). \<exists>y\<in>set ([] @ [project demoCommit1]).
       collision demoLog (preimageOf demoLog x) (preimageOf demoLog y))"
  by (rule history_determined [of demoLog _ _ "(1, [])" 2 zeroHash _ _ "(1, [])"])
     (use demo_project1 in \<open>simp_all add: project_def demoCommit1_def\<close>)

section \<open>Keys, references and frontiers\<close>

text \<open>
  C22: A key parses as a commit key exactly when it is the log key of a valid revision, and then it
  parses to that revision.
\<close>

theorem parseLogKey_iff: "parseLogKey lg key = Inr r \<longleftrightarrow> valid_rev r \<and> key = logKey lg r"
  using parseLogKey_Inr [of lg key r] parseLogKey_logKey [of r lg] by blast

text \<open>
  C19: Log keys list newest first: over valid revisions, the bytewise order of log keys is the reverse
  of the order of revisions, so the first listed key is the head's.
\<close>

theorem logKey_newest_first:
  assumes "valid_rev a" and "valid_rev b"
  shows "logKey lg a < logKey lg b \<longleftrightarrow> b < a"
  by (rule logKey_less_iff [OF assms])

theorem logKey_newest_first_witness: "logKey demoLog 2 < logKey demoLog 1 \<longleftrightarrow> (1::int) < 2"
  by (rule logKey_newest_first) (simp_all add: MaxRevision_def)

text \<open>
  C18: A reference validates exactly when it is an aligned, in-range block of \<open>16 ^ level\<close> revisions
  with well-formed digests under its canonical key.
\<close>

theorem validateRef_exact:
  "validateRef lg ref = Inr (s, e) \<longleftrightarrow>
     Level ref \<le> 15 \<and> 1 \<le> s \<and> 16 ^ Level ref dvd s - 1 \<and> e = s + 16 ^ Level ref - 1 \<and>
     e \<le> MaxRevision \<and> Start ref = hexRevision s \<and> End ref = hexRevision e \<and>
     validHex (SHA256 ref) 64 \<and> validHex (FirstPrevHash ref) 64 \<and> validHex (LastRecordHash ref) 64 \<and>
     Key ref = (if Level ref = 0 then logKey lg s else treeKey lg ref)"
  by (auto simp: validateRef_iff ref_fields_ok_def)

text \<open>
  C12: A frontier that validates for revision \<open>R\<close> covers every revision before \<open>R\<close> exactly once: the
  revisions its references span are \<open>1..R-1\<close>, and no two of its references overlap.
\<close>

theorem frontier_partition:
  assumes "validateFrontier lg f revision prev = Inr ()"
  shows "(\<Union>ref\<in>set (frontierRefs f). ref_span lg ref) = {1..<revision} \<and>
    (\<forall>i j. i < j \<longrightarrow> j < length (frontierRefs f) \<longrightarrow>
       ref_span lg (frontierRefs f ! i) \<inter> ref_span lg (frontierRefs f ! j) = {})"
proof -
  note c = validateFrontier_chained [OF assms]
  show ?thesis using chained_span [OF c] chained_disjoint [OF c] by simp
qed

theorem frontier_partition_witness:
  "(\<Union>ref\<in>set (frontierRefs [\<lparr>f_Level = 0, Refs = [demoRef1]\<rparr>]). ref_span demoLog ref) = {1..<2}"
  using frontier_partition [OF demo_frontier2] by blast



text \<open>
  C17: Reading one reference, whether a raw commit or a packed segment, gives exactly the records of
  its range, each validated, chained by hash from its first predecessor to its last record.
\<close>

theorem loadRecordFile_exact:
  assumes "loadRecordFile W lg ref base s = (Inr file, s')"
  shows "\<exists>a b. validateRef lg ref = Inr (a, b) \<and>
    proj_chain lg file (a, FirstPrevHash ref) (b + 1, LastRecordHash ref) \<and> length file = 16 ^ Level ref"
proof -
  from loadRecordFile_chain [OF assms] obtain a b where v: "validateRef lg ref = Inr (a, b)"
      and c: "proj_chain lg file (a, FirstPrevHash ref) (b + 1, LastRecordHash ref)"
    by (auto simp: ref_chain_def)
  have "int (length file) = 16 ^ Level ref"
    using proj_chain_length [OF c] validateRef_facts(5) [OF v] by simp
  then have "length file = 16 ^ Level ref" by (metis of_nat_eq_iff of_nat_numeral of_nat_power)
  with v c show ?thesis by blast
qed

theorem loadRecordFile_exact_witness:
  "\<exists>a b. validateRef demoLog demoRef1 = Inr (a, b) \<and>
    proj_chain demoLog [project demoCommit1] (a, FirstPrevHash demoRef1) (b + 1, LastRecordHash demoRef1) \<and>
    length [project demoCommit1] = 16 ^ Level demoRef1"
  by (rule loadRecordFile_exact [OF demo_loadRecordFile])

text \<open>
  C24: The bytes that a record hash covers determine the revision, the commit ID, the predecessor's
  hash and the batch.
\<close>

theorem recordPreimage_injective:
  assumes "valid_rev r" "valid_rev r'"
    and "validHex i 32" "validHex i' 32" "validHex h 64" "validHex h' 64"
  shows "recordPreimage r i h e = recordPreimage r' i' h' e' \<longleftrightarrow> r = r' \<and> i = i' \<and> h = h' \<and> e = e'"
  by (rule recordPreimage_inj [OF assms])

theorem recordPreimage_injective_witness:
  "recordPreimage 1 demoID zeroHash ''[7]'' = recordPreimage 2 demoID2 zeroHash ''[8]'' \<longleftrightarrow>
     (1::int) = 2 \<and> demoID = demoID2 \<and> zeroHash = zeroHash \<and> ''[7]'' = ''[8]''"
  by (rule recordPreimage_injective) (simp_all add: MaxRevision_def)

text \<open>
  C25: The keys of an opened log fit S3's limit: Open accepts only prefixes for which every commit key
  and every key of a valid reference has at most 1024 bytes.
\<close>

theorem Open_key_limit:
  assumes "Open ident pl cfg = Inr lg"
  shows "(\<forall>r. valid_rev r \<longrightarrow> length (logKey lg r) \<le> 1024) \<and>
    (\<forall>ref a b. validateRef lg ref = Inr (a, b) \<longrightarrow> length (Key ref) \<le> 1024)"
  using Open_keys [OF assms] by fastforce

theorem Open_key_limit_witness:
  "length (logKey demoOpened 1) \<le> 1024"
proof -
  have "valid_rev 1" by (simp add: MaxRevision_def)
  then show ?thesis using Open_key_limit [OF demo_Open] by blast
qed

section \<open>The wire format\<close>



text \<open>
  C27: Whatever bytes the store returns for a key, a failure to decode them as a commit or to make a
  snapshot of them is a corruption error.
\<close>

theorem decode_failures_corrupt:
  assumes "snapshot lg key body = Inl e"
  shows "errors_is e ErrCorrupt"
  by (rule snapshot_Inl [OF assms])

theorem decode_failures_corrupt_witness: "\<exists>e. snapshot demoLog [] [] = Inl e \<and> errors_is e ErrCorrupt"
proof -
  obtain e where "snapshot demoLog [] [] = Inl e"
    by (auto simp: snapshot_def decodeCommit_def parseLogKey_def logPrefix_def hasPrefix_def wrapErr_def)
  with decode_failures_corrupt show ?thesis by blast
qed

section \<open>Scans and projections\<close>



text \<open>
  C10: A successful SyncTo has folded into the application value exactly the batches after the
  applied revision up to the snapshot's, each event once and in order, and the applied revision is
  the snapshot's.
\<close>

theorem SyncTo_folds:
  assumes "case snap of None \<Rightarrow> True | Some sn \<Rightarrow> snap_ok lg sn" and "0 \<le> st_revision (snd x)"
    and "SyncTo W lg ap snap x = (Inr (), x')"
  shows "st_revision (snd x') = snapRevision snap \<and> st_err (snd x') = None \<and>
    (\<exists>qs rcs h. map (recordOf lg) qs = map Inr rcs \<and>
      map Revision rcs = [st_revision (snd x) + 1..snapRevision snap] \<and>
      linked lg qs (st_revision (snd x) + 1, []) (snapRevision snap + 1, h) \<and>
      (qs \<noteq> [] \<longrightarrow> snap \<noteq> None \<and> h = c_RecordHash (s_commit (the snap))) \<and>
      foldItems ap (st_value (snd x)) (concat (map Value rcs)) = Some (st_value (snd x')))"
  using SyncTo_Inr [OF assms(3,1,2)] linked_revisions by fastforce

theorem SyncTo_folds_witness:
  "snapRevision (Some demoSnap1) = 1 \<and> (\<exists>rcs :: nat recd list. foldItems demoSum 0 (concat (map Value rcs)) = Some 7)"
proof -
  have c: "case Some demoSnap1 of None \<Rightarrow> True | Some sn \<Rightarrow> snap_ok demoLog sn" by (simp add: demo_ok1)
  have z: "0 \<le> st_revision (snd (demoState1, \<lparr>st_value = 0::nat, st_revision = 0, st_err = None\<rparr>))"
    by simp
  show ?thesis
    using SyncTo_folds [OF c z demo_SyncTo] unfolding snd_conv pstate.simps by metis
qed



section \<open>Conflicts\<close>

text \<open>
  C30: AppendTo reports a conflict only when it has lost the race: another commit, valid and with a
  commit ID that is not the append's own, is then stored at the revision after the base, so nothing
  of the append's batch is in the log there. This holds in every store that keeps the Store contract,
  when neither its own errors nor the event codec's are conflicts.
\<close>

theorem AppendTo_conflict:
  assumes "contended W objs good" and "codec_calm lg" and "good s"
    and "case base of None \<Rightarrow> True | Some b \<Rightarrow> snap_ok lg b"
    and "AppendTo W lg base value s = (Inl e, s')" and "errors_is e ErrConflict"
  shows "\<exists>event ident s0 s1 winner. prepare W lg value s0 = (Inr (event, ident), s1) \<and>
    snap_ok lg winner \<and> Revision (s_record winner) = snapRevision base + 1 \<and>
    objs s' (logKey lg (snapRevision base + 1)) = Some (s_body winner) \<and>
    c_CommitID (s_commit winner) \<noteq> ident"
  by (rule contended.AppendTo_lost [OF assms(1,5,3,2,6,4)]) blast

theorem AppendTo_conflict_witness:
  "\<exists>winner. snap_ok demoLog winner \<and> Revision (s_record winner) = 1 \<and>
     mem_objs demoLost (logKey demoLog 1) = Some (s_body winner)"
proof -
  have "\<exists>event ident s0 s1 winner. prepare mem_world demoLog [7] s0 = (Inr (event, ident), s1) \<and>
    snap_ok demoLog winner \<and> Revision (s_record winner) = snapRevision (None :: nat snap option) + 1 \<and>
    mem_objs demoLost (logKey demoLog (snapRevision (None :: nat snap option) + 1)) = Some (s_body winner) \<and>
    c_CommitID (s_commit winner) \<noteq> ident"
    by (rule AppendTo_conflict [OF mem_contended.contended_axioms demo_calm _ _ demo_race_AppendTo])
      (simp_all add: demoRace_def mem_good_def mem_ok_def)
  then show ?thesis by (auto simp: snapRevision_def)
qed

text \<open>
  C31: An Append that gives up with a conflict has been overtaken once by each of its attempts: when it
  returns, the log holds a commit at least as many revisions above everything committed at its call
  as it made attempts. So under contention some writer always makes progress.
\<close>

theorem Append_progress:
  assumes "contended W objs good" and "codec_calm lg" and "good s" and "0 \<le> maxRetries lg"
    and "Append W lg value s = (Inl e, s')" and "errors_is e ErrConflict"
  shows "\<exists>r'. valid_rev r' \<and> objs s' (logKey lg r') \<noteq> None \<and> maxRetries lg + 1 \<le> r' \<and>
    (\<forall>r. valid_rev r \<and> objs s (logKey lg r) \<noteq> None \<longrightarrow> r + maxRetries lg + 1 \<le> r')"
  using contended.Append_conflict [OF assms(1,5,3,2,6)] assms(4) by simp

theorem Append_progress_witness:
  "\<exists>r'. valid_rev r' \<and> mem_objs demoLost (logKey demoLog r') \<noteq> None \<and> 1 \<le> r'"
proof -
  have "mem_good (demoRace [Quiet, Other (demoKey 1) ''uno''])" "0 \<le> maxRetries demoLog"
    by (simp_all add: demoRace_def mem_good_def mem_ok_def demoLog_def)
  from Append_progress [OF mem_contended.contended_axioms demo_calm this demo_race_Append]
  show ?thesis by (auto simp: demoLog_def)
qed

section \<open>The in-memory store\<close>

text \<open>
  C15: The in-memory store implements the Store contract under every schedule of cancellations, lost
  replies, full disks and other writers between its operations.
\<close>

theorem memstore_contract: "object_store mem_world mem_objs mem_good"
  by (rule mem.object_store_axioms)

text \<open>
  C16: The in-memory store passes the conformance suite of the package storetest in every fresh namespace,
  whatever the order in which the 32 goroutines that race for one key take their turns: no check of the
  suite fails, exactly one goroutine wins, and the only objects added are the four of the first part, the
  whole body of the winner, and the object of the reader test; the sources that end early or fail and the
  cancelled calls leave nothing behind.
\<close>

theorem memstore_conforms:
  assumes "mem_ok (snd x)" and "fresh p (objects (snd x))" and "65536 < fuel"
  shows "\<exists>i x'. storeTest memTested chunk fuel sched p (x, []) = (Inr (), (x', [])) \<and> i < 32 \<and> mem_ok (snd x') \<and>
    objects (snd x') =
      (fourObjects p (objects (snd x)))(p @ ''race'' \<mapsto> raceBody i, p @ ''reader-at'' \<mapsto> ''streaming value'')"
  by (rule memTest.storeTest_passes [OF assms])

theorem memstore_conforms_witness:
  "\<exists>i x'. storeTest memTested (\<lambda>n. 511) 70000 (\<lambda>t. 7 * t) ''test/'' (((), \<lparr>objects = Map.empty, keys = []\<rparr>), []) =
      (Inr (), (x', [])) \<and> i < 32 \<and> objects (snd x') ''test/race'' = Some (raceBody i)"
proof -
  have "mem_ok (snd ((), \<lparr>objects = Map.empty, keys = []\<rparr>))" "fresh ''test/'' (objects (snd ((), \<lparr>objects = Map.empty, keys = []\<rparr>)))"
    by (simp_all add: mem_ok_def fresh_def)
  from memstore_conforms [OF this, of 70000 "\<lambda>n. 511" "\<lambda>t. 7 * t"]
  obtain i and x' :: "unit mst" where "storeTest memTested (\<lambda>n. 511) 70000 (\<lambda>t. 7 * t) ''test/''
      (((), \<lparr>objects = Map.empty, keys = []\<rparr>), []) = (Inr (), (x', []))" "i < 32"
      "objects (snd x') ''test/race'' = Some (raceBody i)"
    by auto
  then show ?thesis by (intro exI conjI)
qed

text \<open>
  List returns the first \<open>limit\<close> keys with the prefix, in ascending order, of a well-formed store,
  and rejects a limit that is not positive.
\<close>

theorem memList_first:
  assumes "mem_ok (snd x)" and "onCtx pc x = (None, x')" and "snd x' = snd x"
  shows "memList pc p n x =
    (if n \<le> 0 then (Inl (Msg ''memstore: limit must be positive''), x')
     else (Inr (take (nat n) (filter (\<lambda>k. hasPrefix k p) (keys (snd x)))), x'))"
  using assms list_keys_eq [of "keys (snd x)" p n]
  by (cases x') (auto simp: memList_def io_bind_def io_check_def fail_if_def mem_ok_def)

theorem memList_first_witness:
  "memList env_ctx ''a'' 1 (calm, \<lparr>objects = [''ab'' \<mapsto> []], keys = [''ab'']\<rparr>) =
     (Inr [''ab''], (calm, \<lparr>objects = [''ab'' \<mapsto> []], keys = [''ab'']\<rparr>))"
  using memList_first [of "(calm, \<lparr>objects = [''ab'' \<mapsto> []], keys = [''ab'']\<rparr>)" env_ctx _ "''a''" 1]
  by (simp add: mem_ok_def onCtx_def env_ctx_def calm_def hasPrefix_def)

text \<open>
  C32: Create keeps the store well-formed (its key list sorted, without duplicates, and equal to the
  set of its objects), never changes an existing object, and publishes exactly the given bytes when
  it succeeds.
\<close>

theorem memPut_wellformed:
  assumes "mem_ok (snd x)" and "memPut key b x = (e, x')"
  shows "mem_ok (snd x') \<and> objects (snd x) \<subseteq>\<^sub>m objects (snd x') \<and>
    (e = None \<longrightarrow> objects (snd x) key = None \<and> objects (snd x') = (objects (snd x))(key \<mapsto> b)) \<and>
    (e \<noteq> None \<longrightarrow> e = Some (Sentinel ErrExists) \<and> objects (snd x) key \<noteq> None \<and> x' = x)"
  using memPut_ok [OF assms(1), of key b] assms(2)
  by (auto simp: memPut_def map_le_def dom_def split: option.splits)

theorem memPut_wellformed_witness:
  "mem_ok (snd (snd (memPut ''k'' ''v'' (calm, \<lparr>objects = Map.empty, keys = []\<rparr>))))"
  using memPut_wellformed [of "(calm, \<lparr>objects = Map.empty, keys = []\<rparr>)" "''k''" "''v''"
      "fst (memPut ''k'' ''v'' (calm, \<lparr>objects = Map.empty, keys = []\<rparr>))"
      "snd (memPut ''k'' ''v'' (calm, \<lparr>objects = Map.empty, keys = []\<rparr>))"]
  by (simp add: mem_ok_def)

section \<open>The caching store\<close>

text \<open>
  C33: The caching store is itself a Store over the origin's objects: if the origin keeps the Store
  contract and the cache only ever returns values of the origin in full, then List, Get, Create and
  reading what Get returned to the end keep the contract, whatever fails on the way.
\<close>

theorem cachestore_contract:
  assumes "cached st objs good"
  shows "object_store (cache_world st n) objs good"
  by (rule cached.cache_contract [OF assms])

theorem cachestore_contract_witness:
  "object_store (cache_world (memTiers False ''/tmp'') 511) tier_objs coherent"
  by (rule cachestore_contract [OF tiers.cached_axioms])



section \<open>The disk store\<close>

text \<open>
  C35: The disk store implements the Store contract on every file system that keeps its directory, when
  any operating system call may fail and other processes publish values between any two calls: List
  misses no key that was there when it was called and returns keys in order, Get returns whole
  values, and Create publishes exactly its bytes under an absent key.
\<close>

theorem diskstore_contract: "object_store (disk_world os st) (disk_objs st) (disk_ok st)"
  by (rule disk.object_store_axioms)

text \<open>
  C36: New leaves the store's directory ready: on a file system in which every node is in a directory
  and the values below it, if any, are regular files, the store's invariant holds after New.
\<close>

theorem diskstore_New:
  assumes "dsNew absPath dir x = (Inr st, x')" and "fs_ok st x"
  shows "disk_ok st x'"
  by (rule dsNew_ok [OF assms])

theorem diskstore_New_witness: "disk_ok demoStore demoDisk1"
  by (rule diskstore_New [OF demo_dsNew demo_fs_ok])

text \<open>
  C37: Below its directory the path of a key consists of components of at most 128 lowercase hexadecimal
  digits, all but the last of exactly 128, that spell the key, and the value name; so different keys
  have different paths, even on a file system that ignores case.
\<close>

theorem dsPath_spells_key:
  "\<exists>cs. dsPath st key = (ds_dir st @ [''v1'']) @ cs @ [valueName] \<and> list_all validChunk cs \<and>
     (\<forall>c\<in>set (butlast cs). length c = keyChunk) \<and> hexDecodeString (concat cs) = Inr key"
proof -
  have "wf_chunks (chunks (hexEncode key))" by simp
  then show ?thesis
    using dsPath_chunks [of st key] decode_ok [of "chunks (hexEncode key)"]
    by (auto simp: wf_chunks_def intro!: exI [of _ "chunks (hexEncode key)"])
qed

theorem dsPath_spells_key_witness:
  "\<exists>cs. dsPath demoStore ''ab'' = [''data'', ''v1''] @ cs @ [''!''] \<and> hexDecodeString (concat cs) = Inr ''ab''"
  using dsPath_spells_key [of demoStore "''ab''"] by (auto simp: demoStore_def valueName_def)

section \<open>The S3 store\<close>



text \<open>
  C39: Whatever the service answers, a listing the store returns is strictly ascending, holds only keys
  with the prefix and at most \<open>limit\<close> of them: pages that are unordered, foreign, too long or do not
  make progress are errors.
\<close>

theorem s3List_validated:
  assumes "s3List E st p limit s = (Inr ks, s')"
  shows "sorted_wrt (<) ks \<and> (\<forall>k\<in>set ks. hasPrefix k p) \<and> int (length ks) \<le> limit"
  by (rule s3List_listing [OF assms])

theorem s3List_validated_witness: "sorted_wrt (<) [''a1'', ''a2'']"
  using s3List_validated [OF demo_s3List] by blast

text \<open>
  C40: A store that New returns is well-formed: it has the configured client, a bucket name of 3 to 63
  lower-case letters, digits, dots and hyphens that is no IP address, and at least one retry. Its
  multipart uploads fit S3 for every value up to the largest S3 can hold, and values beyond are
  refused: between 1 and 10000 parts of 5 MiB to 5 GiB, all but the last of the same size, which
  together are the value.
\<close>

theorem s3New_wellformed:
  assumes "s3New ipv6 cfg = Inr st" and "0 < sz" and "length v = nat sz"
  shows "sc_Client cfg = Some (Some (s3_client st)) \<and> 3 \<le> length (s3_bucket st) \<and> length (s3_bucket st) \<le> 63 \<and>
      (\<forall>c\<in>set (s3_bucket st). bucketChar c) \<and> \<not> parseAddr ipv6 (s3_bucket st) \<and> 1 \<le> s3_retries st \<and>
      (if sz > maxParts * maxPartSize then isl (partSize st sz)
       else \<exists>ps. partSize st sz = Inr ps \<and> minPartSize \<le> ps \<and> ps \<le> maxPartSize \<and>
         1 \<le> partCount sz ps \<and> int (partCount sz ps) \<le> maxParts \<and>
         concat (map (partBytes v sz ps) [0..<partCount sz ps]) = v \<and>
         (\<forall>i. Suc i < partCount sz ps \<longrightarrow> length (partBytes v sz ps i) = nat ps))"
proof -
  note n = s3New_Inr [OF assms(1)]
  have up: "\<exists>ps. partSize st sz = Inr ps \<and> minPartSize \<le> ps \<and> ps \<le> maxPartSize \<and>
         1 \<le> partCount sz ps \<and> int (partCount sz ps) \<le> maxParts \<and>
         concat (map (partBytes v sz ps) [0..<partCount sz ps]) = v \<and>
         (\<forall>i. Suc i < partCount sz ps \<longrightarrow> length (partBytes v sz ps i) = nat ps)"
    if le: "\<not> sz > maxParts * maxPartSize"
  proof -
    obtain ps where ps: "partSize st sz = Inr ps"
      using le by (cases "partSize st sz") (auto simp: partSize_def)
    have "s3_partSize st \<le> maxPartSize" by (simp add: n(4) maxPartSize_def)
    note lim = partSize_limits [OF ps this assms(2)]
    then have "0 < ps" by (simp add: minPartSize_def)
    then show ?thesis using ps lim parts_value [of ps sz v] parts_full [of ps v sz] assms(2,3) by auto
  qed
  have "isl (partSize st sz)" if "sz > maxParts * maxPartSize" using that by (simp add: partSize_def)
  with up show ?thesis using n(1,3) validateBucket_Inr [OF n(2)] by auto
qed

theorem s3New_wellformed_witness:
  "\<exists>ps. partSize demoS3 (3 * 10 ^ 8) = Inr ps \<and> int (partCount (3 * 10 ^ 8) ps) \<le> maxParts \<and>
     concat (map (partBytes (replicate (3 * 10 ^ 8) CHR ''x'') (3 * 10 ^ 8) ps) [0..<partCount (3 * 10 ^ 8) ps]) =
       replicate (3 * 10 ^ 8) CHR ''x''"
proof -
  have "\<not> (3 * 10 ^ 8 :: int) > maxParts * maxPartSize" "(0::int) < 3 * 10 ^ 8"
    by (simp_all add: maxParts_def maxPartSize_def)
  moreover have "length (replicate (3 * 10 ^ 8) CHR ''x'') = nat (3 * 10 ^ 8)"
    by (simp only: length_replicate) simp
  ultimately show ?thesis
    using s3New_wellformed [OF demo_s3New, of "3 * 10 ^ 8" "replicate (3 * 10 ^ 8) CHR ''x''"] by (simp only: if_False) blast
qed

end
